(* ===== verification/Prelude.thy ===== *)
theory Prelude
  imports Main "HOL-Library.Word" "HOL-Library.Finite_Map" "HOL-Library.Monad_Syntax"
begin

unbundle bit_operations_syntax

section \<open>Shared types, partiality and generic lemmas\<close>

text \<open>
  The machine types of the C++ sources and the vocabulary every component theory uses.
  \<^item> \<open>u32\<close>, \<open>u64\<close>, \<open>u160\<close>, \<open>u256\<close> are \<^verbatim>\<open>uint32_t\<close>, \<^verbatim>\<open>uint64_t\<close>, \<^verbatim>\<open>uint160\<close> and
    \<^verbatim>\<open>uint256\<close>; arithmetic on them wraps around as in C++.
  \<^item> \<open>amount\<close> is \<^verbatim>\<open>CAmount\<close> (\<^verbatim>\<open>int64_t\<close>): a 64 bit word whose order is the signed one, read
    with \<^const>\<open>sint\<close>. Mixed signed and unsigned 64 bit arithmetic is the same operation on the word.
  \<^item> A failed \<^verbatim>\<open>assert\<close>, a \<^verbatim>\<open>std::map::at\<close> on a missing key and a thrown \<^verbatim>\<open>uint_error\<close> all end the
    operation with no result: the operations that can do so return an \<open>option\<close>, and \<^const>\<open>None\<close> is
    that abnormal end. The \<^verbatim>\<open>do\<close> notation of \<open>Monad_Syntax\<close> sequences them.
  \<^item> \<^verbatim>\<open>std::map\<close> is \<open>fmap\<close> of \<open>HOL-Library.Finite_Map\<close>, \<^verbatim>\<open>std::set\<close> is \<open>fset\<close>.
\<close>

type_synonym u8 = "8 word"
type_synonym u32 = "32 word"
type_synonym u64 = "64 word"
type_synonym u160 = "160 word"
type_synonym u256 = "256 word"
type_synonym amount = "64 word"
type_synonym height = "32 word"

named_theorems limb_spec \<open>what the limb arithmetic computes, as natural numbers\<close>
named_theorems ufp_spec \<open>what the fixed point operations compute, as natural numbers\<close>
named_theorems fin_frame \<open>fields an operation on the finalization state leaves alone\<close>

subsection \<open>Assertions and lookups that must succeed\<close>

definition require :: "bool \<Rightarrow> unit option" where
  "require b = (if b then Some () else None)"

lemma require_True [simp]: "require True = Some ()"
  by (simp add: require_def)

lemma require_False [simp]: "require False = None"
  by (simp add: require_def)

lemma require_eq_Some [simp]: "require b = Some u \<longleftrightarrow> b"
  by (simp add: require_def)

lemma require_bind_eq_Some [simp]: "Option.bind (require b) f = Some x \<longleftrightarrow> b \<and> f () = Some x"
  by (simp add: require_def)

lemma bind_if_Some: "Option.bind (if b then x else y) f = (if b then Option.bind x f else Option.bind y f)"
  by simp

subsection \<open>Finite maps\<close>

definition lookup0 :: "('k, 'v::zero) fmap \<Rightarrow> 'k \<Rightarrow> 'v" where
  "lookup0 m k = (case fmlookup m k of Some v \<Rightarrow> v | None \<Rightarrow> 0)"

lemma lookup0_fmupd [simp]: "lookup0 (fmupd k v m) j = (if j = k then v else lookup0 m j)"
  by (simp add: lookup0_def)

lemma fmupd_fmupd [simp]: "fmupd k v (fmupd k w m) = fmupd k v m"
  by (rule fmap_ext) simp

subsection \<open>Steps that keep an invariant\<close>

text \<open>An invariant of a step relation holds in every state reached from one in which it holds, and a
  quantity that no step decreases never decreases.\<close>

locale step_invariant =
  fixes step :: "'s \<Rightarrow> 's \<Rightarrow> bool" and invariant :: "'s \<Rightarrow> bool"
  assumes preserved: "invariant s \<Longrightarrow> step s t \<Longrightarrow> invariant t"
begin

lemma reachable: "step\<^sup>*\<^sup>* s t \<Longrightarrow> invariant s \<Longrightarrow> invariant t"
  by (induction rule: rtranclp_induct) (auto intro: preserved)

end

locale step_monotone = step_invariant step invariant
  for step :: "'s \<Rightarrow> 's \<Rightarrow> bool" and invariant :: "'s \<Rightarrow> bool" +
  fixes quantity :: "'s \<Rightarrow> 'q::preorder"
  assumes grows: "invariant s \<Longrightarrow> step s t \<Longrightarrow> quantity s \<le> quantity t"
begin

lemma never_decreases: "step\<^sup>*\<^sup>* s t \<Longrightarrow> invariant s \<Longrightarrow> quantity s \<le> quantity t"
  by (induction rule: rtranclp_induct) (auto intro: order_trans grows reachable)

end

end
