(* ===== verification/ArithUint256.thy ===== *)
theory ArithUint256
  imports Prelude
begin

unbundle bit_operations_syntax

section \<open>256 bit unsigned integers\<close>

text \<open>
  The class template \<^verbatim>\<open>base_uint<256>\<close> and \<^verbatim>\<open>arith_uint256\<close> of \<^verbatim>\<open>arith_uint256.h\<close> and
  \<^verbatim>\<open>arith_uint256.cpp\<close>. A value is the list of its 32 bit limbs, the member \<^verbatim>\<open>pn\<close>, least
  significant first, and has \<open>WIDTH\<close> of them. Each loop of the sources is a recursion over the limbs
  with the 64 bit carry of the sources, or a fold over the indices where the loop body updates the
  array by index. \<open>valu\<close> is the number the limbs denote; the lemmas of this theory say what
  addition, negation, subtraction, multiplication and comparison compute in terms of it.
  Shifts, bit length, division and the compact format are in \<^verbatim>\<open>ArithDivision\<close>.
\<close>

type_synonym base_uint = "u32 list"

definition WIDTH :: nat where
  "WIDTH = 8"

subsection \<open>Constructors and bitwise operators\<close>

definition base_uint0 :: base_uint where
  "base_uint0 = replicate WIDTH 0"

definition of_u64 :: "u64 \<Rightarrow> base_uint" where
  "of_u64 b = ucast b # ucast (drop_bit 32 b) # replicate (WIDTH - 2) 0"

definition op_not :: "base_uint \<Rightarrow> base_uint" where
  "op_not a = map NOT a"

definition op_xor :: "base_uint \<Rightarrow> base_uint \<Rightarrow> base_uint" where
  "op_xor a b = map2 (XOR) a b"

definition op_and :: "base_uint \<Rightarrow> base_uint \<Rightarrow> base_uint" where
  "op_and a b = map2 (AND) a b"

definition op_or :: "base_uint \<Rightarrow> base_uint \<Rightarrow> base_uint" where
  "op_or a b = map2 (OR) a b"

subsection \<open>Increment, negation, addition, subtraction\<close>

text \<open>\<^verbatim>\<open>operator++\<close> and \<^verbatim>\<open>operator--\<close> stop at the first limb that does not wrap around.\<close>

fun op_inc :: "base_uint \<Rightarrow> base_uint" where
  "op_inc [] = []"
| "op_inc (x # xs) = (if x + 1 = 0 then (x + 1) # op_inc xs else (x + 1) # xs)"

fun op_dec :: "base_uint \<Rightarrow> base_uint" where
  "op_dec [] = []"
| "op_dec (x # xs) = (if x - 1 = - 1 then (x - 1) # op_dec xs else (x - 1) # xs)"

definition op_neg :: "base_uint \<Rightarrow> base_uint" where
  "op_neg a = op_inc (op_not a)"

fun add_loop :: "u64 \<Rightarrow> base_uint \<Rightarrow> base_uint \<Rightarrow> base_uint" where
  "add_loop carry (x # xs) (y # ys) =
     (let n = carry + ucast x + ucast y
      in ucast (n AND 0xffffffff) # add_loop (drop_bit 32 n) xs ys)"
| "add_loop carry _ _ = []"

definition op_add :: "base_uint \<Rightarrow> base_uint \<Rightarrow> base_uint" where
  "op_add a b = add_loop 0 a b"

definition op_sub :: "base_uint \<Rightarrow> base_uint \<Rightarrow> base_uint" where
  "op_sub a b = op_add a (op_neg b)"

subsection \<open>Multiplication\<close>

fun mul32_loop :: "u64 \<Rightarrow> u32 \<Rightarrow> base_uint \<Rightarrow> base_uint" where
  "mul32_loop carry b32 [] = []"
| "mul32_loop carry b32 (x # xs) =
     (let n = carry + ucast b32 * ucast x
      in ucast (n AND 0xffffffff) # mul32_loop (drop_bit 32 n) b32 xs)"

definition op_mul32 :: "base_uint \<Rightarrow> u32 \<Rightarrow> base_uint" where
  "op_mul32 a b32 = mul32_loop 0 b32 a"

text \<open>The inner loop of \<^verbatim>\<open>operator*=\<close> for one \<^verbatim>\<open>j\<close>: \<open>bs\<close> is \<^verbatim>\<open>b.pn\<close> from index 0, \<open>as\<close> is
  \<^verbatim>\<open>a.pn\<close> from index \<^verbatim>\<open>j\<close>, and it stops at the top limb.\<close>

fun mul_row :: "u64 \<Rightarrow> u32 \<Rightarrow> base_uint \<Rightarrow> base_uint \<Rightarrow> base_uint" where
  "mul_row carry pnj (b # bs) (a # as) =
     (let n = carry + ucast a + ucast pnj * ucast b
      in ucast (n AND 0xffffffff) # mul_row (drop_bit 32 n) pnj bs as)"
| "mul_row carry pnj _ _ = []"

definition op_mul :: "base_uint \<Rightarrow> base_uint \<Rightarrow> base_uint" where
  "op_mul pn b = fold (\<lambda>j a. take j a @ mul_row 0 (pn ! j) b (drop j a)) [0..<WIDTH] (replicate WIDTH 0)"

subsection \<open>Comparison\<close>

fun compare_loop :: "base_uint \<Rightarrow> base_uint \<Rightarrow> int" where
  "compare_loop (x # xs) (y # ys) = (if x < y then - 1 else if y < x then 1 else compare_loop xs ys)"
| "compare_loop _ _ = 0"

definition CompareTo :: "base_uint \<Rightarrow> base_uint \<Rightarrow> int" where
  "CompareTo a b = compare_loop (rev a) (rev b)"

definition EqualTo :: "base_uint \<Rightarrow> u64 \<Rightarrow> bool" where
  "EqualTo a b =
     (if list_ex (\<lambda>i. a ! i \<noteq> 0) (rev [2..<WIDTH]) then False
      else if ucast (a ! 1) \<noteq> drop_bit 32 b then False
      else if ucast (a ! 0) \<noteq> b AND 0xffffffff then False
      else True)"

definition GetLow64 :: "base_uint \<Rightarrow> u64" where
  "GetLow64 pn = ucast (pn ! 0) OR push_bit 32 (ucast (pn ! 1))"

subsection \<open>The number the limbs denote\<close>

fun valu :: "base_uint \<Rightarrow> nat" where
  "valu [] = 0"
| "valu (x # xs) = unat x + 2 ^ 32 * valu xs"

subsection \<open>Carry chains\<close>

lemma u32_bound: "unat (x::u32) < 2 ^ 32"
  using unsigned_less[of x] by simp

lemma u64_bound: "unat (x::u64) < 2 ^ 64"
  using unsigned_less[of x] by simp

lemma unat_low32: "unat (ucast ((n::u64) AND 0xffffffff) :: u32) = unat n mod 2 ^ 32"
proof -
  have "n AND 0xffffffff = take_bit 32 n"
    by (simp add: take_bit_eq_mask mask_numeral)
  then show ?thesis
    by (simp add: unsigned_ucast_eq take_bit_eq_mod unat_mod)
qed

lemma unat_high32: "unat (drop_bit 32 (n::u64)) = unat n div 2 ^ 32"
  by (simp add: unsigned_drop_bit_eq drop_bit_eq_div unat_div)

lemma unat_ucast_u32_u64 [simp]: "unat (ucast (x::u32) :: u64) = unat x"
  using u32_bound[of x] by (simp add: unsigned_ucast_eq take_bit_nat_eq_self)

lemma unat_mac:
  assumes "unat (c::u64) < 2 ^ 32"
  shows "unat (c + ucast (a::u32) + ucast (p::u32) * ucast (b::u32)) = unat c + unat a + unat p * unat b"
proof -
  have "unat p * unat b \<le> (2 ^ 32 - 1) * (2 ^ 32 - 1)"
    using u32_bound[of p] u32_bound[of b] by (intro mult_mono) auto
  then have "unat c + unat a + unat p * unat b < 2 ^ 64"
    using assms u32_bound[of a] by simp
  then show ?thesis
    by (simp add: unat_word_ariths)
qed

lemma mac_carry:
  assumes "(c::nat) < 2 ^ 32" "a < 2 ^ 32" "p < 2 ^ 32" "b < 2 ^ 32"
  shows "(c + a + p * b) div 2 ^ 32 < 2 ^ 32"
proof -
  have "p * b \<le> (2 ^ 32 - 1) * (2 ^ 32 - 1)"
    using assms by (intro mult_mono) auto
  then have "c + a + p * b < 2 ^ 32 * 2 ^ 32"
    using assms by simp
  then show ?thesis by (simp add: less_mult_imp_div_less)
qed

text \<open>One digit of a carry chain: the digit and the carry recombine.\<close>

lemma mod_digit: "(n mod B + B * (m mod M)) = (n mod B + B * m) mod (B * M)" if "0 < B" for n m B M :: nat
proof -
  have "(n mod B + B * m) mod (B * M) = B * ((n mod B + B * m) div B mod M) + (n mod B + B * m) mod B"
    by (rule mod_mult2_eq)
  also have "(n mod B + B * m) div B = m" using that by simp
  finally show ?thesis by simp
qed

lemma carry_digit:
  fixes n B M s :: nat
  assumes "0 < B"
  shows "n mod B + B * ((n div B + s) mod M) = (n + B * s) mod (B * M)"
proof -
  have "n mod B + B * ((n div B + s) mod M) = (n mod B + B * (n div B + s)) mod (B * M)"
    using mod_digit[OF assms] by simp
  also have "n mod B + B * (n div B + s) = n + B * s"
    by (simp add: distrib_left)
  finally show ?thesis .
qed

lemma length_mul_row [simp]: "length bs \<ge> length as \<Longrightarrow> length (mul_row c p bs as) = length as"
  by (induction c p bs as rule: mul_row.induct) (auto simp: Let_def)

lemma valu_mul_row:
  "unat c < 2 ^ 32 \<Longrightarrow> length as \<le> length bs \<Longrightarrow>
   valu (mul_row c p bs as) = (unat c + valu as + unat p * valu bs) mod 2 ^ (32 * length as)"
proof (induction c p bs as rule: mul_row.induct)
  case (1 c p b bs a as)
  define n where "n = c + ucast a + ucast p * ucast b"
  have n: "unat n = unat c + unat a + unat p * unat b"
    unfolding n_def by (rule unat_mac) (rule "1.prems")
  have "unat n div 2 ^ 32 < 2 ^ 32"
    unfolding n using "1.prems" by (intro mac_carry u32_bound) auto
  then have IH: "valu (mul_row (drop_bit 32 n) p bs as) =
      (unat n div 2 ^ 32 + (valu as + unat p * valu bs)) mod 2 ^ (32 * length as)"
    using "1.IH"[OF n_def] "1.prems" unat_high32[of n] by (simp add: add.assoc)
  have "valu (mul_row c p (b # bs) (a # as)) =
      unat n mod 2 ^ 32 + 2 ^ 32 * ((unat n div 2 ^ 32 + (valu as + unat p * valu bs)) mod 2 ^ (32 * length as))"
    using IH unat_low32[of n] by (simp add: Let_def n_def)
  also have "\<dots> = (unat n + 2 ^ 32 * (valu as + unat p * valu bs)) mod (2 ^ 32 * 2 ^ (32 * length as))"
    by (rule carry_digit) simp
  also have "\<dots> = (unat c + valu (a # as) + unat p * valu (b # bs)) mod 2 ^ (32 * length (a # as))"
    by (simp add: n algebra_simps power_add)
  finally show ?case .
qed auto

lemma add_loop_mul_row: "add_loop c xs ys = mul_row c 1 ys xs"
  by (induction c xs ys rule: add_loop.induct) (auto simp: Let_def)

lemma mul32_loop_mul_row: "mul32_loop c b xs = mul_row c b xs (replicate (length xs) 0)"
  by (induction c b xs rule: mul32_loop.induct) (auto simp: Let_def)


lemma valu_append: "valu (xs @ ys) = valu xs + 2 ^ (32 * length xs) * valu ys"
  by (induction xs) (auto simp: power_add algebra_simps)

lemma valu_less: "valu xs < 2 ^ (32 * length xs)"
proof (induction xs)
  case (Cons x xs)
  have "unat x + 2 ^ 32 * valu xs < 2 ^ 32 + 2 ^ 32 * valu xs"
    using u32_bound[of x] by simp
  also have "\<dots> \<le> 2 ^ 32 * 2 ^ (32 * length xs)"
    using Cons.IH by (metis Suc_leI mult_Suc_right mult_le_mono2)
  finally show ?case by (simp add: power_add)
qed simp

lemma valu_replicate_0 [simp]: "valu (replicate n 0) = 0"
  by (induction n) auto

lemma valu_add_loop:
  "unat c < 2 ^ 32 \<Longrightarrow> length xs = length ys \<Longrightarrow>
   valu (add_loop c xs ys) = (unat c + valu xs + valu ys) mod 2 ^ (32 * length xs)"
  by (simp add: add_loop_mul_row valu_mul_row)

lemma valu_mul32_loop:
  "unat c < 2 ^ 32 \<Longrightarrow>
   valu (mul32_loop c b xs) = (unat c + unat b * valu xs) mod 2 ^ (32 * length xs)"
  by (simp add: mul32_loop_mul_row valu_mul_row)

lemma valu_row_update:
  assumes "j \<le> length a" "length b = length a"
  shows "valu (take j a @ mul_row 0 p b (drop j a)) =
    (valu a + 2 ^ (32 * j) * (unat p * valu b)) mod 2 ^ (32 * length a)"
proof -
  have a: "valu a = valu (take j a) + 2 ^ (32 * j) * valu (drop j a)"
    using valu_append[of "take j a" "drop j a"] assms by simp
  have t: "valu (take j a) mod 2 ^ (32 * j) = valu (take j a)"
    using valu_less[of "take j a"] assms by simp
  have p: "(2::nat) ^ (32 * j) * 2 ^ (32 * (length a - j)) = 2 ^ (32 * length a)"
    using assms by (simp flip: power_add add: algebra_simps)
  have "valu (take j a @ mul_row 0 p b (drop j a)) =
      valu (take j a) mod 2 ^ (32 * j) +
      2 ^ (32 * j) * ((valu (drop j a) + unat p * valu b) mod 2 ^ (32 * (length a - j)))"
    using assms by (simp add: valu_append valu_mul_row t)
  also have "\<dots> = (valu (take j a) mod 2 ^ (32 * j) +
      2 ^ (32 * j) * (valu (drop j a) + unat p * valu b)) mod 2 ^ (32 * length a)"
    by (subst mod_digit) (simp_all add: p)
  finally show ?thesis unfolding t a by (simp add: distrib_left add.assoc)
qed

lemma mul_rows:
  assumes "length b = WIDTH" "length pn = WIDTH" "n \<le> WIDTH"
  defines "r \<equiv> fold (\<lambda>j a. take j a @ mul_row 0 (pn ! j) b (drop j a)) [0..<n] (replicate WIDTH 0)"
  shows "length r = WIDTH \<and> valu r = (valu (take n pn) * valu b) mod 2 ^ (32 * WIDTH)"
  using assms(3) unfolding r_def
proof (induction n)
  case (Suc n)
  let ?a = "fold (\<lambda>j a. take j a @ mul_row 0 (pn ! j) b (drop j a)) [0..<n] (replicate WIDTH 0)"
  have IH: "length ?a = WIDTH" "valu ?a = (valu (take n pn) * valu b) mod 2 ^ (32 * WIDTH)"
    using Suc by auto
  have tk: "valu (take (Suc n) pn) = valu (take n pn) + 2 ^ (32 * n) * unat (pn ! n)"
    using Suc.prems assms(2) by (simp add: take_Suc_conv_app_nth valu_append)
  show ?case
    using Suc.prems assms(1) IH
    by (simp add: valu_row_update tk mod_simps algebra_simps)
qed simp

lemma length_mul [simp]: "length a = WIDTH \<Longrightarrow> length b = WIDTH \<Longrightarrow> length (op_mul a b) = WIDTH"
  using mul_rows[of b a WIDTH] by (simp add: op_mul_def)

lemma valu_mul: "length a = WIDTH \<Longrightarrow> length b = WIDTH \<Longrightarrow>
    valu (op_mul a b) = (valu a * valu b) mod 2 ^ 256"
  using mul_rows[of b a WIDTH] by (simp add: op_mul_def WIDTH_def)

subsection \<open>Negation and subtraction\<close>

lemma length_inc [simp]: "length (op_inc a) = length a"
  by (induction a) auto

lemma length_bnot [simp]: "length (op_not a) = length a"
  by (simp add: op_not_def)

lemma length_neg [simp]: "length (op_neg a) = length a"
  by (simp add: op_neg_def)

lemma length_add [simp]: "length a = length b \<Longrightarrow> length (op_add a b) = length a"
  by (simp add: op_add_def add_loop_mul_row)

lemma length_sub [simp]: "length a = length b \<Longrightarrow> length (op_sub a b) = length a"
  by (simp add: op_sub_def)

lemma unat_minus_one_u32: "unat (- 1 :: u32) = 2 ^ 32 - 1"
  by (simp add: unsigned_minus_1_eq_mask mask_eq_exp_minus_1)

lemma unat_not_u32: "unat (NOT x :: u32) = 2 ^ 32 - 1 - unat x"
proof -
  have "NOT x = - 1 - x" by (simp add: not_eq_complement)
  moreover have "unat (- 1 - x) = unat (- 1 :: u32) - unat x"
    by (rule unat_sub) simp
  ultimately show ?thesis by (simp add: unat_minus_one_u32)
qed

lemma valu_bnot: "valu (op_not a) = 2 ^ (32 * length a) - 1 - valu a"
proof (induction a)
  case (Cons x xs)
  have "valu xs < 2 ^ (32 * length xs)" by (rule valu_less)
  then obtain m where m: "2 ^ (32 * length xs) = valu xs + m + 1"
    by (metis Suc_eq_plus1 add.assoc add.commute less_iff_Suc_add)
  show ?case
    using Cons.IH unat_not_u32[of x] u32_bound[of x] by (simp add: op_not_def power_add m)
qed (simp add: op_not_def)

lemma valu_inc: "valu (op_inc a) = (valu a + 1) mod 2 ^ (32 * length a)"
proof (induction a)
  case (Cons x xs)
  show ?case
  proof (cases "x + 1 = 0")
    case True
    then have x: "unat x = 2 ^ 32 - 1"
      using unat_minus_one_u32 by (simp add: add_eq_0_iff2)
    have "2 ^ 32 * ((valu xs + 1) mod 2 ^ (32 * length xs)) = (2 ^ 32 * (valu xs + 1)) mod (2 ^ 32 * 2 ^ (32 * length xs))"
      by (simp add: mult_mod_right)
    then show ?thesis
      using Cons.IH True x by (simp add: power_add algebra_simps)
  next
    case False
    then have "unat (x + 1) = unat x + 1"
      using unatSuc[of x] by (simp add: add.commute)
    moreover have "valu ((x + 1) # xs) < 2 ^ (32 * length (x # xs))"
      using valu_less[of "(x + 1) # xs"] by simp
    ultimately show ?thesis
      using False by simp
  qed
qed simp

lemma valu_sub:
  assumes "length a = length b" "valu b \<le> valu a"
  shows "valu (op_sub a b) = valu a - valu b"
proof -
  let ?M = "(2::nat) ^ (32 * length a)"
  have b: "valu b < ?M" using valu_less[of b] assms by simp
  have a: "valu a < ?M" by (rule valu_less)
  have "valu (op_neg b) = (?M - 1 - valu b + 1) mod ?M"
    using assms by (simp add: op_neg_def valu_inc valu_bnot)
  also have "?M - 1 - valu b + 1 = ?M - valu b" using b by simp
  finally have "valu (op_sub a b) = (valu a + (?M - valu b)) mod ?M"
    using assms by (simp add: op_sub_def op_add_def valu_add_loop mod_simps)
  also have "valu a + (?M - valu b) = ?M + (valu a - valu b)"
    using assms b by simp
  finally show ?thesis using a by simp
qed

lemma op_inc_op_dec: "op_inc (op_dec a) = a"
  by (induction a) auto

lemma op_dec_op_inc: "op_dec (op_inc a) = a"
  by (induction a) (auto simp: add_eq_0_iff2)

subsection \<open>Comparison and conversion\<close>

lemma compare_loop_append: "length xs = length ys \<Longrightarrow>
  compare_loop (xs @ [x]) (ys @ [y]) = (if compare_loop xs ys \<noteq> 0 then compare_loop xs ys else if x < y then - 1 else if y < x then 1 else 0)"
  by (induction xs ys rule: list_induct2) auto

lemma CompareTo_spec:
  "length a = length b \<Longrightarrow>
   CompareTo a b = (if valu a < valu b then - 1 else if valu a = valu b then 0 else 1)"
proof (induction a b rule: list_induct2)
  case (Cons x xs y ys)
  have IH: "compare_loop (rev xs) (rev ys) = (if valu xs < valu ys then - 1 else if valu xs = valu ys then 0 else 1)"
    using Cons.IH by (simp add: CompareTo_def)
  have lt: "unat x + 2 ^ 32 * m < unat y + 2 ^ 32 * n" if "m < n" for m n and x y :: u32
  proof -
    have "unat x + 2 ^ 32 * m < 2 ^ 32 * Suc m" using u32_bound[of x] by simp
    also have "\<dots> \<le> 2 ^ 32 * n" using that by (intro mult_le_mono2) simp
    finally show ?thesis by simp
  qed
  have c: "compare_loop (rev xs @ [x]) (rev ys @ [y]) = (if compare_loop (rev xs) (rev ys) \<noteq> 0 then compare_loop (rev xs) (rev ys) else if x < y then - 1 else if y < x then 1 else 0)"
    using Cons.hyps by (intro compare_loop_append) simp
  consider "valu xs < valu ys" | "valu xs = valu ys" | "valu ys < valu xs" by linarith
  then show ?case
  proof cases
    case 1 then show ?thesis using lt[of "valu xs" "valu ys" x y] IH c by (simp add: CompareTo_def)
  next
    case 2 then show ?thesis using IH c by (auto simp: CompareTo_def word_less_nat_alt word_unat_eq_iff)
  next
    case 3 then show ?thesis using lt[of "valu ys" "valu xs" y x] IH c by (simp add: CompareTo_def)
  qed
qed (simp add: CompareTo_def)

lemma bit_valu: "bit (valu a) n \<longleftrightarrow> n div 32 < length a \<and> bit (a ! (n div 32)) (n mod 32)"
proof (induction a arbitrary: n)
  case (Cons x xs)
  have "unat x + push_bit 32 (valu xs) = unat x OR push_bit 32 (valu xs)"
    by (rule disjunctive_add) (auto simp: bit_push_bit_iff bit_unsigned_iff dest: bit_imp_le_length)
  then have d: "valu (x # xs) = unat x OR push_bit 32 (valu xs)"
    by (simp add: push_bit_eq_mult mult.commute)
  show ?case
  proof (cases "n < 32")
    case True
    then show ?thesis by (simp add: d bit_or_iff bit_push_bit_iff bit_unsigned_iff del: valu.simps)
  next
    case False
    then obtain m where "n = 32 + m" using le_Suc_ex by fastforce
    moreover have "\<not> bit x (32 + m)" by (auto dest: bit_imp_le_length)
    ultimately show ?thesis
      using Cons.IH[of m] by (simp add: d bit_or_iff bit_push_bit_iff bit_unsigned_iff del: valu.simps)
  qed
qed simp

lemma bit_u32_high: "32 \<le> n \<Longrightarrow> \<not> bit (w::u32) n"
  by (auto dest: bit_imp_le_length)

lemma length_of_u64: "length (of_u64 b) = WIDTH" by (simp add: of_u64_def WIDTH_def)

lemma unat_ucast_low32: "unat (ucast (b::u64) :: u32) = unat b mod 2 ^ 32"
  by (simp only: unsigned_ucast_eq take_bit_eq_mod) simp

lemma unat_low32_u64: "unat ((b::u64) AND 0xffffffff) = unat b mod 2 ^ 32"
proof -
  have "b AND 0xffffffff = take_bit 32 b" by (simp add: take_bit_eq_mask mask_numeral)
  then show ?thesis by (simp only: unsigned_take_bit_eq) (simp add: take_bit_eq_mod)
qed

lemma unat_ucast_high32: "unat (ucast (drop_bit 32 (b::u64)) :: u32) = unat b div 2 ^ 32"
    using u64_bound[of b]
    by (simp only: unsigned_ucast_eq unat_high32 take_bit_eq_mod) (simp add: less_mult_imp_div_less)

lemma valu_of_u64: "valu (of_u64 b) = unat b"
proof -
  have "valu (of_u64 b) = unat (ucast b :: u32) + 2 ^ 32 * unat (ucast (drop_bit 32 b) :: u32)"
    by (simp add: of_u64_def WIDTH_def valu_replicate_0 del: One_nat_def)
  then show ?thesis unfolding unat_ucast_high32 unfolding unat_ucast_low32 by simp
qed

lemma GetLow64_spec:
  assumes "length a = WIDTH"
  shows "unat (GetLow64 a) = valu a mod 2 ^ 64"
proof -
  obtain x y r where a: "a = x # y # r" using assms
    by (cases a; cases "tl a") (auto simp: WIDTH_def)
  have "GetLow64 a = ucast x + push_bit 32 (ucast y)"
    unfolding GetLow64_def a
    by (simp only: nth_Cons_0 One_nat_def nth_Cons_Suc, rule disjunctive_add [symmetric]) 
       (auto simp only: bit_push_bit_iff bit_unsigned_iff bit_u32_high not_le)
  moreover have "unat (push_bit 32 (ucast y :: u64)) = (unat y * 2 ^ 32) mod 2 ^ 64"
    by (simp add: push_bit_eq_mult unat_word_ariths(2))
  ultimately have g: "unat (GetLow64 a) = (unat x + (unat y * 2 ^ 32) mod 2 ^ 64) mod 2 ^ 64"
    by (simp add: unat_word_ariths(1))
  have "valu a = unat x + unat y * 2 ^ 32 + 2 ^ 64 * valu r"
    unfolding a by (simp add: algebra_simps)
  then show ?thesis unfolding g by (simp only: mod_add_right_eq mod_mult_self2)
qed


lemma valu_inject: "length a = length b \<Longrightarrow> valu a = valu b \<longleftrightarrow> a = b"
proof (induction a b rule: list_induct2)
  case (Cons x xs y ys)
  have "unat x = unat y \<and> valu xs = valu ys" if "unat x + 2 ^ 32 * valu xs = unat y + 2 ^ 32 * valu ys"
  proof
    show "unat x = unat y" using arg_cong [OF that, of "\<lambda>n. n mod 2 ^ 32"] u32_bound[of x] u32_bound[of y] by simp
    with that show "valu xs = valu ys" by simp
  qed
  with Cons.IH show ?case by (auto simp: word_unat_eq_iff)
qed simp

lemma EqualTo_spec:
  assumes "length a = WIDTH"
  shows "EqualTo a b \<longleftrightarrow> valu a = unat b"
proof -
  have m: "unat (b AND 0xffffffff) = unat b mod 2 ^ 32"
    by (simp only: unat_low32_u64)
  have l: "(ucast x = b AND 0xffffffff) = (x = ucast b)" for x :: u32
    unfolding word_unat_eq_iff unat_ucast_u32_u64 m unat_ucast_low32 ..
  have h: "(ucast x = drop_bit 32 b) = (x = ucast (drop_bit 32 b))" for x :: u32
    unfolding word_unat_eq_iff unat_ucast_u32_u64 unat_ucast_high32 unat_high32 ..
  obtain a0 a1 a2 a3 a4 a5 a6 a7 where a: "a = [a0, a1, a2, a3, a4, a5, a6, a7]"
    using assms by (auto simp: WIDTH_def numeral_eq_Suc length_Suc_conv)
  have r: "replicate 6 x = [x, x, x, x, x, x]" for x :: u32 by (simp add: numeral_eq_Suc)
  have "EqualTo a b \<longleftrightarrow> a = of_u64 b"
    unfolding a EqualTo_def l h of_u64_def by (simp add: WIDTH_def r) auto
  then show ?thesis using valu_inject[of a "of_u64 b"] assms by (simp add: valu_of_u64 length_of_u64)
qed

end
