(* ===== verification/ArithDivision.thy ===== *)
theory ArithDivision
  imports ArithUint256
begin

unbundle bit_operations_syntax

section \<open>256 bit integers: shifts, division, compact format\<close>

text \<open>
  The rest of \<^verbatim>\<open>arith_uint256.cpp\<close>: the shifts, \<^verbatim>\<open>bits\<close>, the shift and subtract division, the
  compact format of difficulty targets and the conversions to the 32 bytes of a \<^verbatim>\<open>uint256\<close>.
  Division by zero throws \<^verbatim>\<open>uint_error\<close> in the sources and is \<^const>\<open>None\<close> here. The theory ends with
  the interface the fixed point library relies on, as a locale over the denoted numbers, and its
  interpretation on the limb operations.
\<close>

subsection \<open>Definitions\<close>

definition shl_body :: "base_uint \<Rightarrow> nat \<Rightarrow> nat \<Rightarrow> nat \<Rightarrow> base_uint \<Rightarrow> base_uint" where
  "shl_body a k shift i pn =
     (let pn = (if i + k + 1 < WIDTH \<and> shift \<noteq> 0
                then pn[i + k + 1 := pn ! (i + k + 1) OR drop_bit (32 - shift) (a ! i)] else pn)
      in if i + k < WIDTH then pn[i + k := pn ! (i + k) OR push_bit shift (a ! i)] else pn)"

definition op_shl :: "base_uint \<Rightarrow> nat \<Rightarrow> base_uint" where
  "op_shl a shift = fold (shl_body a (shift div 32) (shift mod 32)) [0..<WIDTH] (replicate WIDTH 0)"

definition shr_body :: "base_uint \<Rightarrow> nat \<Rightarrow> nat \<Rightarrow> nat \<Rightarrow> base_uint \<Rightarrow> base_uint" where
  "shr_body a k shift i pn =
     (let pn = (if k + 1 \<le> i \<and> shift \<noteq> 0
                then pn[i - k - 1 := pn ! (i - k - 1) OR push_bit (32 - shift) (a ! i)] else pn)
      in if k \<le> i then pn[i - k := pn ! (i - k) OR drop_bit shift (a ! i)] else pn)"

definition op_shr :: "base_uint \<Rightarrow> nat \<Rightarrow> base_uint" where
  "op_shr a shift = fold (shr_body a (shift div 32) (shift mod 32)) [0..<WIDTH] (replicate WIDTH 0)"

fun nbits_loop :: "nat \<Rightarrow> u32 \<Rightarrow> nat" where
  "nbits_loop 0 x = 1"
| "nbits_loop (Suc n) x = (if x AND push_bit (Suc n) 1 \<noteq> 0 then Suc n + 1 else nbits_loop n x)"

fun bits_loop :: "nat \<Rightarrow> base_uint \<Rightarrow> nat" where
  "bits_loop 0 a = 0"
| "bits_loop (Suc pos) a = (if a ! pos \<noteq> 0 then 32 * pos + nbits_loop 31 (a ! pos) else bits_loop pos a)"

definition bits :: "base_uint \<Rightarrow> nat" where
  "bits a = bits_loop WIDTH a"

text \<open>The \<^verbatim>\<open>while (shift >= 0)\<close> loop of \<^verbatim>\<open>operator/=\<close>; the first argument is \<^verbatim>\<open>shift + 1\<close>.\<close>

fun div_loop :: "nat \<Rightarrow> base_uint \<Rightarrow> base_uint \<Rightarrow> base_uint \<Rightarrow> base_uint" where
  "div_loop 0 num dv q = q"
| "div_loop (Suc shift) num dv q =
     (if CompareTo num dv \<ge> 0
      then div_loop shift (op_sub num dv) (op_shr dv 1)
             (q[shift div 32 := q ! (shift div 32) OR push_bit (shift mod 32) 1])
      else div_loop shift num (op_shr dv 1) q)"

definition op_div :: "base_uint \<Rightarrow> base_uint \<Rightarrow> base_uint option" where
  "op_div num dv =
     (let num_bits = bits num; div_bits = bits dv in
      if div_bits = 0 then None
      else if div_bits > num_bits then Some (replicate WIDTH 0)
      else Some (div_loop (Suc (num_bits - div_bits)) num (op_shl dv (num_bits - div_bits)) (replicate WIDTH 0)))"

text \<open>\<^verbatim>\<open>SetCompact\<close> returns the value and what it stores in \<^verbatim>\<open>pfNegative\<close> and \<^verbatim>\<open>pfOverflow\<close>.\<close>

definition SetCompact :: "u32 \<Rightarrow> base_uint \<times> bool \<times> bool" where
  "SetCompact nCompact =
     (let nSize = unat (drop_bit 24 nCompact);
          nWord = nCompact AND 0x007fffff;
          (v, nWord) =
            (if nSize \<le> 3 then (let nWord = drop_bit (8 * (3 - nSize)) nWord in (of_u64 (ucast nWord), nWord))
             else (op_shl (of_u64 (ucast nWord)) (8 * (nSize - 3)), nWord))
      in (v, nWord \<noteq> 0 \<and> nCompact AND 0x00800000 \<noteq> 0,
          nWord \<noteq> 0 \<and> (nSize > 34 \<or> (nWord > 0xff \<and> nSize > 33) \<or> (nWord > 0xffff \<and> nSize > 32))))"

text \<open>\<^verbatim>\<open>GetCompact\<close> with its two assertions.\<close>

definition GetCompact :: "base_uint \<Rightarrow> bool \<Rightarrow> u32 option" where
  "GetCompact a fNegative =
     (let nSize = (bits a + 7) div 8;
          nCompact = (if nSize \<le> 3 then ucast (push_bit (8 * (3 - nSize)) (GetLow64 a))
                      else ucast (GetLow64 (op_shr a (8 * (nSize - 3))))) :: u32;
          (nCompact, nSize) = (if nCompact AND 0x00800000 \<noteq> 0 then (drop_bit 8 nCompact, nSize + 1)
                               else (nCompact, nSize))
      in do {
        require (nCompact AND NOT 0x007fffff = 0);
        require (nSize < 256);
        let nCompact = nCompact OR push_bit 24 (of_nat nSize);
        Some (nCompact OR (if fNegative \<and> nCompact AND 0x007fffff \<noteq> 0 then 0x00800000 else 0))
      })"

text \<open>\<^verbatim>\<open>WriteLE32\<close> and \<^verbatim>\<open>ReadLE32\<close> of \<^verbatim>\<open>crypto/common.h\<close> on four bytes, and the conversions to and from
  the byte array of a \<^verbatim>\<open>uint256\<close>.\<close>

definition WriteLE32 :: "u32 \<Rightarrow> u8 list" where
  "WriteLE32 x = [ucast x, ucast (drop_bit 8 x), ucast (drop_bit 16 x), ucast (drop_bit 24 x)]"

definition ReadLE32 :: "u8 list \<Rightarrow> u32" where
  "ReadLE32 p = ucast (p ! 0) OR push_bit 8 (ucast (p ! 1)) OR push_bit 16 (ucast (p ! 2)) OR push_bit 24 (ucast (p ! 3))"

definition ArithToUint256 :: "base_uint \<Rightarrow> u8 list" where
  "ArithToUint256 a = concat (map (\<lambda>x. WriteLE32 (a ! x)) [0..<WIDTH])"

definition UintToArith256 :: "u8 list \<Rightarrow> base_uint" where
  "UintToArith256 b = map (\<lambda>x. ReadLE32 (take 4 (drop (x * 4) b))) [0..<WIDTH]"

subsection \<open>Shifts\<close>

lemma shl_rows:
  fixes a :: base_uint and k sh n :: nat
  assumes "n \<le> WIDTH"
  defines "r \<equiv> \<lambda>n. fold (shl_body a k sh) [0..<n] (replicate WIDTH 0)"
  shows "length (r n) = WIDTH \<and> (\<forall>m < WIDTH. r n ! m =
     (if k \<le> m \<and> m < n + k then push_bit sh (a ! (m - k)) else 0) OR
     (if k + 1 \<le> m \<and> m < n + k + 1 \<and> sh \<noteq> 0 then drop_bit (32 - sh) (a ! (m - k - 1)) else 0))"
  using assms(1)
proof (induction n)
  case (Suc n)
  have r: "r (Suc n) = shl_body a k sh n (r n)"
    by (simp add: r_def)
  have len: "length (r n) = WIDTH" using Suc by simp
  have IH: "r n ! m = (if k \<le> m \<and> m < n + k then push_bit sh (a ! (m - k)) else 0) OR
     (if k + 1 \<le> m \<and> m < n + k + 1 \<and> sh \<noteq> 0 then drop_bit (32 - sh) (a ! (m - k - 1)) else 0)"
    if "m < WIDTH" for m using Suc that by simp
  have "r (Suc n) ! m = (if k \<le> m \<and> m < Suc n + k then push_bit sh (a ! (m - k)) else 0) OR
     (if k + 1 \<le> m \<and> m < Suc n + k + 1 \<and> sh \<noteq> 0 then drop_bit (32 - sh) (a ! (m - k - 1)) else 0)"
    if m: "m < WIDTH" for m
  proof -
    consider "m = n + k + 1" | "m = n + k" | "m < n + k" | "n + k + 1 < m" by linarith
    then show ?thesis
    proof cases
      case 1 then show ?thesis using IH[OF m] m len by (simp add: r shl_body_def Let_def nth_list_update)
    next
      case 2 then show ?thesis using IH[OF m] m len by (simp add: r shl_body_def Let_def nth_list_update or.commute)
    next
      case 3 then show ?thesis using IH[OF m] m len by (simp add: r shl_body_def Let_def nth_list_update)
    next
      case 4 then show ?thesis using IH[OF m] m len by (simp add: r shl_body_def Let_def nth_list_update)
    qed
  qed
  then show ?case by (simp add: r shl_body_def Let_def len)
qed (auto simp: r_def)

lemma nth_shl:
  assumes "m < WIDTH"
  shows "op_shl a s ! m =
     (if s div 32 \<le> m then push_bit (s mod 32) (a ! (m - s div 32)) else 0) OR
     (if s div 32 + 1 \<le> m \<and> s mod 32 \<noteq> 0 then drop_bit (32 - s mod 32) (a ! (m - s div 32 - 1)) else 0)"
  using shl_rows[OF order_refl, of a "s div 32" "s mod 32"] assms
  unfolding op_shl_def by auto

lemma length_shl [simp]: "length (op_shl a s) = WIDTH"
  using shl_rows[OF order_refl, of a "s div 32" "s mod 32"] unfolding op_shl_def by auto

lemma shr_rows:
  fixes a :: base_uint and k sh n :: nat
  assumes "n \<le> WIDTH"
  defines "r \<equiv> \<lambda>n. fold (shr_body a k sh) [0..<n] (replicate WIDTH 0)"
  shows "length (r n) = WIDTH \<and> (\<forall>m < WIDTH. r n ! m =
     (if m + k < n then drop_bit sh (a ! (m + k)) else 0) OR
     (if m + k + 1 < n \<and> sh \<noteq> 0 then push_bit (32 - sh) (a ! (m + k + 1)) else 0))"
  using assms(1)
proof (induction n)
  case (Suc n)
  have r: "r (Suc n) = shr_body a k sh n (r n)"
    by (simp add: r_def)
  have len: "length (r n) = WIDTH" using Suc by simp
  have IH: "r n ! m = (if m + k < n then drop_bit sh (a ! (m + k)) else 0) OR
     (if m + k + 1 < n \<and> sh \<noteq> 0 then push_bit (32 - sh) (a ! (m + k + 1)) else 0)"
    if "m < WIDTH" for m using Suc that by simp
  have "r (Suc n) ! m = (if m + k < Suc n then drop_bit sh (a ! (m + k)) else 0) OR
     (if m + k + 1 < Suc n \<and> sh \<noteq> 0 then push_bit (32 - sh) (a ! (m + k + 1)) else 0)"
    if m: "m < WIDTH" for m
  proof -
    consider "m + k + 1 = n" | "m + k = n" | "m + k + 1 < n" | "n < m + k" by linarith
    then show ?thesis
    proof cases
      case 1
      then have "n - k - 1 = m" "n - k = m + 1" "k + 1 \<le> n" "k \<le> n" by linarith+
      with 1 show ?thesis using IH[OF m] m len by (simp add: r shr_body_def Let_def nth_list_update)
    next
      case 2
      then have "n - k = m" "k \<le> n" "k + 1 \<le> n \<Longrightarrow> n - k - 1 \<noteq> m" by linarith+
      with 2 show ?thesis using IH[OF m] m len by (auto simp: r shr_body_def Let_def nth_list_update)
    next
      case 3
      then have "n - k - 1 \<noteq> m" "n - k \<noteq> m" by linarith+
      with 3 show ?thesis using IH[OF m] m len by (simp add: r shr_body_def Let_def nth_list_update)
    next
      case 4
      then have "k \<le> n \<Longrightarrow> n - k \<noteq> m" "k + 1 \<le> n \<Longrightarrow> n - k - 1 \<noteq> m" by linarith+
      with 4 show ?thesis using IH[OF m] m len by (auto simp: r shr_body_def Let_def nth_list_update)
    qed
  qed
  then show ?case by (simp add: r shr_body_def Let_def len)
qed (auto simp: r_def)

lemma nth_shr:
  assumes "m < WIDTH"
  shows "op_shr a s ! m =
     (if m + s div 32 < WIDTH then drop_bit (s mod 32) (a ! (m + s div 32)) else 0) OR
     (if m + s div 32 + 1 < WIDTH \<and> s mod 32 \<noteq> 0 then push_bit (32 - s mod 32) (a ! (m + s div 32 + 1)) else 0)"
  using shr_rows[OF order_refl, of a "s div 32" "s mod 32"] assms
  unfolding op_shr_def by auto

lemma length_shr [simp]: "length (op_shr a s) = WIDTH"
  using shr_rows[OF order_refl, of a "s div 32" "s mod 32"] unfolding op_shr_def by auto

lemma div_mod32I: "x = 32 * q + t \<Longrightarrow> t < 32 \<Longrightarrow> x div 32 = q \<and> x mod 32 = (t::nat)"
  by simp

lemma div_mod_sub32:
  fixes n s :: nat
  assumes "s \<le> n"
  shows "(n - s) div 32 = (if s mod 32 \<le> n mod 32 then n div 32 - s div 32 else n div 32 - s div 32 - 1)"
    and "(n - s) mod 32 = (if s mod 32 \<le> n mod 32 then n mod 32 - s mod 32 else 32 + n mod 32 - s mod 32)"
proof -
  define k h m r where d: "k = s div 32" "h = s mod 32" "m = n div 32" "r = n mod 32"
  have s: "s = 32 * k + h" and n: "n = 32 * m + r" and b: "h < 32" "r < 32" by (auto simp: d)
  have "(n - s) div 32 = (if h \<le> r then m - k else m - k - 1) \<and>
        (n - s) mod 32 = (if h \<le> r then r - h else 32 + r - h)"
  proof (cases "h \<le> r")
    case True
    then have "k \<le> m" using assms s n b by linarith
    then have "n - s = 32 * (m - k) + (r - h)" using s n True by (simp add: algebra_simps)
    then have "(n - s) div 32 = m - k \<and> (n - s) mod 32 = r - h" using b by (intro div_mod32I) auto
    with True show ?thesis by simp
  next
    case False
    then have "k + 1 \<le> m" using assms s n b by linarith
    then have "n - s = 32 * (m - k - 1) + (32 + r - h)" using s n False b by (simp add: algebra_simps)
    then have "(n - s) div 32 = m - k - 1 \<and> (n - s) mod 32 = 32 + r - h" using False b by (intro div_mod32I) auto
    with False show ?thesis by simp
  qed
  then show "(n - s) div 32 = (if s mod 32 \<le> n mod 32 then n div 32 - s div 32 else n div 32 - s div 32 - 1)"
    and "(n - s) mod 32 = (if s mod 32 \<le> n mod 32 then n mod 32 - s mod 32 else 32 + n mod 32 - s mod 32)"
    by (simp_all add: d)
qed

lemma le_div_mod32:
  fixes n s :: nat
  shows "s \<le> n \<longleftrightarrow> (if s mod 32 \<le> n mod 32 then s div 32 \<le> n div 32 else s div 32 + 1 \<le> n div 32)"
proof -
  define k h m r where d: "k = s div 32" "h = s mod 32" "m = n div 32" "r = n mod 32"
  have "s = 32 * k + h" "n = 32 * m + r" "h < 32" "r < 32" by (auto simp: d)
  then have "s \<le> n \<longleftrightarrow> (if h \<le> r then k \<le> m else k + 1 \<le> m)" by (simp; linarith)
  then show ?thesis by (simp add: d)
qed

lemma bit_push_u32: "r < 32 \<Longrightarrow> bit (push_bit sh (w::u32)) r \<longleftrightarrow> sh \<le> r \<and> bit w (r - sh)"
  by (simp add: bit_push_bit_iff)

lemma bit_if_0: "bit (if c then x else 0) r \<longleftrightarrow> c \<and> bit (x::u32) r"
  by simp

lemma bit_shl:
  assumes len: "length a = WIDTH" and n: "n < 256"
  shows "bit (valu (op_shl a s)) n \<longleftrightarrow> s \<le> n \<and> bit (valu a) (n - s)"
proof -
  let ?m = "n div 32" and ?r = "n mod 32" and ?k = "s div 32" and ?h = "s mod 32"
  have m: "?m < WIDTH" using n by (simp add: WIDTH_def)
  have lhs: "bit (valu (op_shl a s)) n \<longleftrightarrow> ?k \<le> ?m \<and> ?h \<le> ?r \<and> bit (a ! (?m - ?k)) (?r - ?h) \<or>
     ?k + 1 \<le> ?m \<and> ?h \<noteq> 0 \<and> bit (a ! (?m - ?k - 1)) (32 - ?h + ?r)"
    using m by (auto simp: bit_valu nth_shl bit_or_iff bit_push_u32 bit_drop_bit_eq)
  show ?thesis
  proof (cases "?h \<le> ?r")
    case True
    then have "\<not> bit w (32 - ?h + ?r)" for w :: u32 by (intro bit_u32_high) simp
    moreover have "s \<le> n \<longleftrightarrow> ?k \<le> ?m" using le_div_mod32[of s n] True by (simp only: if_True)
    moreover have "(n - s) div 32 = ?m - ?k" "(n - s) mod 32 = ?r - ?h" if "s \<le> n"
      using True that by (simp_all add: div_mod_sub32)
    moreover have "?m - ?k < WIDTH" using m by simp
    ultimately show ?thesis
      using True len unfolding lhs bit_valu[of a] by metis
  next
    case False
    have "s \<le> n \<longleftrightarrow> ?k + 1 \<le> ?m" using le_div_mod32[of s n] False by (simp only: if_False)
    moreover have "?h \<noteq> 0" "32 + ?r - ?h = 32 - ?h + ?r" using False by auto
    moreover have "(n - s) div 32 = ?m - ?k - 1" "(n - s) mod 32 = 32 + ?r - ?h" if "s \<le> n"
      using False that by (simp_all add: div_mod_sub32)
    moreover have "?m - ?k - 1 < WIDTH" using m by simp
    ultimately show ?thesis
      using False len unfolding lhs bit_valu[of a] by metis
  qed
qed

lemma bit_valu_high: "length a = WIDTH \<Longrightarrow> 256 \<le> n \<Longrightarrow> \<not> bit (valu a) n"
  by (auto simp: bit_valu WIDTH_def)

lemma valu_shl:
  assumes "length a = WIDTH"
  shows "valu (op_shl a s) = (valu a * 2 ^ s) mod 2 ^ 256"
proof -
  have "valu (op_shl a s) = take_bit 256 (push_bit s (valu a))"
  proof (rule bit_eqI)
    fix n
    show "bit (valu (op_shl a s)) n = bit (take_bit 256 (push_bit s (valu a))) n"
    proof (cases "n < 256")
      case True
      then show ?thesis using bit_shl[OF assms True] by (simp add: bit_take_bit_iff bit_push_bit_iff)
    next
      case False
      then show ?thesis using bit_valu_high[of "op_shl a s" n] by (simp add: bit_take_bit_iff)
    qed
  qed
  then show ?thesis by (simp add: take_bit_eq_mod push_bit_eq_mult)
qed

lemma div_mod_add32:
  fixes n s :: nat
  shows "(n + s) div 32 = (if s mod 32 + n mod 32 < 32 then n div 32 + s div 32 else n div 32 + s div 32 + 1)"
    and "(n + s) mod 32 = (if s mod 32 + n mod 32 < 32 then n mod 32 + s mod 32 else n mod 32 + s mod 32 - 32)"
proof -
  define k h m r where d: "k = s div 32" "h = s mod 32" "m = n div 32" "r = n mod 32"
  have e: "n + s = 32 * (m + k) + (r + h)" and b: "h < 32" "r < 32" by (auto simp: d)
  have "(n + s) div 32 = (if h + r < 32 then m + k else m + k + 1) \<and>
        (n + s) mod 32 = (if h + r < 32 then r + h else r + h - 32)"
  proof (cases "h + r < 32")
    case False
    then have "n + s = 32 * (m + k + 1) + (r + h - 32)" using e by (simp add: algebra_simps)
    then have "(n + s) div 32 = m + k + 1 \<and> (n + s) mod 32 = r + h - 32" using b by (intro div_mod32I) auto
    with False show ?thesis by simp
  next
    case True
    then have "(n + s) div 32 = m + k \<and> (n + s) mod 32 = r + h" using e by (intro div_mod32I) auto
    with True show ?thesis by simp
  qed
  then show "(n + s) div 32 = (if s mod 32 + n mod 32 < 32 then n div 32 + s div 32 else n div 32 + s div 32 + 1)"
    and "(n + s) mod 32 = (if s mod 32 + n mod 32 < 32 then n mod 32 + s mod 32 else n mod 32 + s mod 32 - 32)"
    unfolding d by (rule conjunct1, rule conjunct2)
qed

lemma bit_shr:
  assumes len: "length a = WIDTH" and n: "n < 256"
  shows "bit (valu (op_shr a s)) n \<longleftrightarrow> bit (valu a) (n + s)"
proof -
  define k h m r where d: "k = s div 32" "h = s mod 32" "m = n div 32" "r = n mod 32"
  have m: "m < WIDTH" and b: "h < 32" "r < 32" using n by (auto simp: d WIDTH_def)
  have "op_shr a s ! m = (if m + k < WIDTH then drop_bit h (a ! (m + k)) else 0) OR
     (if m + k + 1 < WIDTH \<and> h \<noteq> 0 then push_bit (32 - h) (a ! (m + k + 1)) else 0)"
    using nth_shr[OF m] unfolding d .
  then have "bit (op_shr a s ! m) r \<longleftrightarrow> m + k < WIDTH \<and> bit (a ! (m + k)) (h + r) \<or>
     (m + k + 1 < WIDTH \<and> h \<noteq> 0) \<and> 32 - h \<le> r \<and> bit (a ! (m + k + 1)) (r - (32 - h))"
    by (simp only: bit_or_iff bit_if_0 bit_drop_bit_eq bit_push_u32[OF b(2)] comp_apply)
  then have lhs: "bit (valu (op_shr a s)) n \<longleftrightarrow> m + k < WIDTH \<and> bit (a ! (m + k)) (h + r) \<or>
     (m + k + 1 < WIDTH \<and> h \<noteq> 0) \<and> 32 - h \<le> r \<and> bit (a ! (m + k + 1)) (r - (32 - h))"
    using m unfolding bit_valu d(3,4) [symmetric] by simp
  show ?thesis
  proof (cases "h + r < 32")
    case True
    then have z: "((m + k + 1 < WIDTH \<and> h \<noteq> 0) \<and> 32 - h \<le> r \<and> P) = False" for P by auto
    have "(n + s) div 32 = m + k" "(n + s) mod 32 = h + r"
      using div_mod_add32[of n s] True unfolding d by (simp_all only: if_True add.commute)
    then show ?thesis
      by (simp only: lhs bit_valu[of a] len z simp_thms)
  next
    case False
    then have z: "bit w (h + r) = False" for w :: u32 using bit_u32_high[of "h + r" w] by simp
    have h: "(h \<noteq> 0) = True" "(32 - h \<le> r) = True" "r - (32 - h) = r + h - 32" using False b by auto
    have "(n + s) div 32 = m + k + 1" "(n + s) mod 32 = r + h - 32"
      using div_mod_add32[of n s] False unfolding d by (simp_all only: if_False)
    then show ?thesis
      by (simp only: lhs bit_valu[of a] len z h simp_thms)
  qed
qed

lemma valu_shr:
  assumes "length a = WIDTH"
  shows "valu (op_shr a s) = valu a div 2 ^ s"
proof -
  have "valu (op_shr a s) = drop_bit s (valu a)"
  proof (rule bit_eqI)
    fix n
    show "bit (valu (op_shr a s)) n = bit (drop_bit s (valu a)) n"
      using bit_shr[OF assms, of n s] bit_valu_high[of "op_shr a s" n] bit_valu_high[OF assms, of "s + n"]
      by (cases "n < 256") (simp_all add: bit_drop_bit_eq add.commute)
  qed
  then show ?thesis by (simp add: drop_bit_eq_div)
qed

subsection \<open>Bit length and division\<close>

lemma and_push_1_u32: "n < 32 \<Longrightarrow> (x AND push_bit n (1::u32) \<noteq> 0) = bit x n"
  by (metis and_exp_eq_0_iff_not_bit push_bit_eq_mult mult_1)

lemma nbits_loop_spec:
  "x \<noteq> 0 \<Longrightarrow> n < 32 \<Longrightarrow> unat (x::u32) < 2 ^ Suc n \<Longrightarrow>
   0 < nbits_loop n x \<and> unat x < 2 ^ nbits_loop n x \<and> 2 ^ (nbits_loop n x - 1) \<le> unat x"
proof (induction n)
  case 0
  then show ?case by (simp add: unat_gt_0 Suc_leI)
next
  case (Suc n)
  show ?case
  proof (cases "bit x (Suc n)")
    case True
    then have "bit (unat x) (Suc n)" by (simp add: bit_unsigned_iff)
    then have "2 ^ Suc n \<le> unat x"
      by (metis bit_take_bit_iff leI less_irrefl take_bit_nat_eq_self)
    then show ?thesis
      using True Suc.prems and_push_1_u32[of "Suc n" x] by simp
  next
    case False
    then have "\<not> bit (unat x) (Suc n)" by (simp add: bit_unsigned_iff)
    moreover have "take_bit (Suc (Suc n)) (unat x) = unat x"
      using Suc.prems by (simp add: take_bit_nat_eq_self)
    ultimately have "take_bit (Suc n) (unat x) = unat x"
      by (metis take_bit_Suc_from_most mult_zero_right add_0 of_bool_eq(1))
    then have "unat x < 2 ^ Suc n" by (metis take_bit_nat_less_exp)
    then show ?thesis
      using False Suc and_push_1_u32[of "Suc n" x] by simp
  qed
qed

lemma bits_loop_spec:
  assumes "n \<le> length a"
  shows "valu (take n a) < 2 ^ bits_loop n a \<and>
    (valu (take n a) \<noteq> 0 \<longrightarrow> 0 < bits_loop n a \<and> 2 ^ (bits_loop n a - 1) \<le> valu (take n a))
    \<and> (valu (take n a) = 0 \<longrightarrow> bits_loop n a = 0)"
  using assms
proof (induction n)
  case (Suc n)
  have v: "valu (take (Suc n) a) = valu (take n a) + 2 ^ (32 * n) * unat (a ! n)"
    using Suc.prems by (simp add: take_Suc_conv_app_nth valu_append)
  show ?case
  proof (cases "a ! n = 0")
    case False
    let ?b = "nbits_loop 31 (a ! n)"
    have s: "0 < ?b" "unat (a ! n) < 2 ^ ?b" "2 ^ (?b - 1) \<le> unat (a ! n)"
      using nbits_loop_spec[OF False, of 31] u32_bound[of "a ! n"] by auto
    have lo: "valu (take n a) < 2 ^ (32 * n)"
      using valu_less[of "take n a"] Suc.prems by simp
    have "valu (take (Suc n) a) < 2 ^ (32 * n) * Suc (unat (a ! n))"
      using lo unfolding v by simp
    also have "\<dots> \<le> 2 ^ (32 * n) * 2 ^ ?b"
      using s(2) by (intro mult_le_mono2) simp
    finally have up: "valu (take (Suc n) a) < 2 ^ (32 * n + ?b)" by (simp add: power_add)
    have "2 ^ (32 * n) * 2 ^ (?b - 1) \<le> valu (take (Suc n) a)"
      using s(3) unfolding v by (simp add: trans_le_add2)
    then have dn: "2 ^ (32 * n + ?b - 1) \<le> valu (take (Suc n) a)"
      using s(1) by (simp add: power_add [symmetric])
    have "valu (take (Suc n) a) \<noteq> 0" using dn by (metis not_one_le_zero one_le_numeral one_le_power order_trans)
    with up dn s(1) False show ?thesis by simp
  qed (use Suc v in simp)
qed simp

lemma bits_spec:
  assumes "length a = WIDTH"
  shows "valu a < 2 ^ bits a" and "valu a \<noteq> 0 \<Longrightarrow> 0 < bits a \<and> 2 ^ (bits a - 1) \<le> valu a"
    and "bits a = 0 \<longleftrightarrow> valu a = 0" and "bits a \<le> 256"
proof -
  have s: "valu a < 2 ^ bits a" "valu a \<noteq> 0 \<Longrightarrow> 0 < bits a \<and> 2 ^ (bits a - 1) \<le> valu a"
    "bits a = 0 \<longleftrightarrow> valu a = 0"
    using bits_loop_spec[of WIDTH a] assms by (auto simp: bits_def)
  show "bits a \<le> 256"
  proof (cases "valu a = 0")
    case False
    then have "(2::nat) ^ (bits a - 1) < 2 ^ 256"
      using s(2) valu_less[of a] assms by (simp add: WIDTH_def)
    then have "bits a - 1 < 256" by (rule power_less_imp_less_exp [rotated]) simp
    then show ?thesis by simp
  qed (use s in simp)
  show "valu a < 2 ^ bits a" "valu a \<noteq> 0 \<Longrightarrow> 0 < bits a \<and> 2 ^ (bits a - 1) \<le> valu a"
    "bits a = 0 \<longleftrightarrow> valu a = 0"
    using s by auto
qed

lemma valu_list_update:
  "i < length q \<Longrightarrow> valu (q[i := x]) + 2 ^ (32 * i) * unat (q ! i) = valu q + 2 ^ (32 * i) * unat x"
proof (induction q arbitrary: i)
  case (Cons y ys)
  show ?case
  proof (cases i)
    case (Suc j)
    have "valu (ys[j := x]) + 2 ^ (32 * j) * unat (ys ! j) = valu ys + 2 ^ (32 * j) * unat x"
      using Cons.IH[of j] Cons.prems Suc by simp
    from arg_cong [where f = "\<lambda>v. 2 ^ 32 * v", OF this] show ?thesis
      by (simp add: Suc power_add algebra_simps)
  qed simp
qed simp

lemma valu_set_bit:
  assumes "length q = WIDTH" "s < 256" "2 ^ Suc s dvd valu q"
  shows "valu (q[s div 32 := q ! (s div 32) OR push_bit (s mod 32) 1]) = valu q + 2 ^ s"
proof -
  define i b where d: "i = s div 32" "b = s mod 32"
  have i: "i < length q" and b: "b < 32" and s: "s = 32 * i + b" using assms by (auto simp: d WIDTH_def)
  have "\<not> bit (valu q) s"
    using assms(3) by (auto simp: bit_iff_odd elim!: dvdE)
  then have nb: "\<not> bit (q ! i) b" using i by (simp add: bit_valu d)
  have "unat (q ! i OR push_bit b 1) = unat (q ! i) OR push_bit b 1"
    using b by (simp only: unsigned_or_eq unsigned_push_bit_eq take_bit_push_bit) simp
  also have "\<dots> = unat (q ! i) + push_bit b 1"
    using nb by (intro disjunctive_add [symmetric]) (auto simp: bit_exp_iff bit_unsigned_iff)
  finally have "unat (q ! i OR push_bit b 1) = unat (q ! i) + 2 ^ b"
    by (simp add: push_bit_eq_mult)
  then show ?thesis
    using valu_list_update[OF i, of "q ! i OR push_bit b 1"] unfolding d(1,2)[symmetric]
    by (simp add: s power_add algebra_simps)
qed

lemma valu_sub_le:
  assumes "length a = WIDTH" "length b = WIDTH" "valu b \<le> valu a"
  shows "valu (op_sub a b) = valu a - valu b"
  using valu_sub[of a b] valu_less[of a] assms by (simp add: WIDTH_def)

lemma div_loop_spec:
  assumes "length num = WIDTH" "length dv = WIDTH" "length q = WIDTH" "0 < D" "s < 256"
    "valu dv = D * 2 ^ s" "valu num < D * 2 ^ Suc s" "2 ^ Suc s dvd valu q"
  shows "length (div_loop (Suc s) num dv q) = WIDTH \<and>
    valu (div_loop (Suc s) num dv q) = valu q + valu num div D"
  using assms
proof (induction s arbitrary: num dv q)
  case 0
  have q: "valu (q[0 := q ! 0 OR push_bit 0 1]) = valu q + 1"
    using valu_set_bit[of q 0] 0 by simp
  have "valu num div D = of_bool (D \<le> valu num)"
    using 0 by (auto intro!: div_nat_eqI)
  then show ?case
    using 0 q CompareTo_spec[of num dv] by (auto simp: split: if_splits)
next
  case (Suc s)
  have sh: "valu (op_shr dv 1) = D * 2 ^ s" "length (op_shr dv 1) = WIDTH"
    using Suc.prems valu_shr[of dv 1] length_shr by auto
  let ?q = "q[Suc s div 32 := q ! (Suc s div 32) OR push_bit (Suc s mod 32) 1]"
  have q: "valu ?q = valu q + 2 ^ Suc s" "length ?q = WIDTH"
    using valu_set_bit[of q "Suc s"] Suc.prems by auto
  have d1: "2 ^ Suc s dvd valu q" using Suc.prems(8) by (rule dvd_trans [rotated]) simp
  have d2: "2 ^ Suc s dvd valu ?q" using d1 q by simp
  show ?case
  proof (cases "D * 2 ^ Suc s \<le> valu num")
    case True
    then have n: "valu (op_sub num dv) = valu num - D * 2 ^ Suc s" "length (op_sub num dv) = WIDTH"
      using valu_sub_le[of num dv] valu_sub[of num dv] Suc.prems by auto
    have "valu num div D = 2 ^ Suc s + valu (op_sub num dv) div D"
      using True Suc.prems(4) unfolding n(1) by (metis add_diff_inverse_nat div_mult_self4 leD less_irrefl_nat)
    moreover have "CompareTo num dv \<ge> 0" using CompareTo_spec[of num dv] True Suc.prems by auto
    moreover have "valu (op_sub num dv) < D * 2 ^ Suc s" using Suc.prems(7) True n by simp
    ultimately show ?thesis
      using Suc.IH[of "op_sub num dv" "op_shr dv 1" ?q] sh n q d2 Suc.prems by (simp del: power_Suc)
  next
    case False
    moreover have "\<not> CompareTo num dv \<ge> 0" using CompareTo_spec[of num dv] False Suc.prems by auto
    ultimately show ?thesis
      using Suc.IH[of num "op_shr dv 1" q] sh d1 Suc.prems by (simp del: power_Suc)
  qed
qed

theorem op_div_spec:
  assumes "length num = WIDTH" "length dv = WIDTH"
  shows "op_div num dv = None \<longleftrightarrow> valu dv = 0"
    and "op_div num dv = Some q \<Longrightarrow> length q = WIDTH \<and> valu q = valu num div valu dv"
proof -
  show "op_div num dv = None \<longleftrightarrow> valu dv = 0"
    using bits_spec(3)[of dv] assms by (simp add: op_div_def Let_def)
  assume q: "op_div num dv = Some q"
  then have nz: "valu dv \<noteq> 0" using bits_spec(3)[of dv] assms by (auto simp: op_div_def Let_def)
  show "length q = WIDTH \<and> valu q = valu num div valu dv"
  proof (cases "bits dv > bits num")
    case True
    have "valu num < 2 ^ bits num" using bits_spec(1)[of num] assms by simp
    also have "\<dots> \<le> 2 ^ (bits dv - 1)" using True by simp
    also have "\<dots> \<le> valu dv" using bits_spec(2)[of dv] assms nz by simp
    finally show ?thesis using q True by (auto simp: op_div_def Let_def valu_replicate_0)
  next
    case False
    define s where "s = bits num - bits dv"
    have b: "0 < bits dv" "2 ^ (bits dv - 1) \<le> valu dv" using bits_spec(2)[of dv] assms nz by auto
    have s: "s < 256" using b(1) False bits_spec(4)[of num] assms by (simp add: s_def)
    have "valu dv * 2 ^ s < 2 ^ bits dv * 2 ^ s" using bits_spec(1)[of dv] assms by simp
    also have "\<dots> = 2 ^ bits num" using False by (simp add: s_def power_add [symmetric])
    also have "\<dots> \<le> 2 ^ 256" using bits_spec(4)[of num] assms by (intro power_increasing) auto
    finally have sh: "valu (op_shl dv s) = valu dv * 2 ^ s"
      using valu_shl[of dv s] assms by simp
    have "valu num < 2 ^ bits num" using bits_spec(1)[of num] assms by simp
    also have "\<dots> = 2 ^ (bits dv - 1) * 2 ^ Suc s"
      using False b(1) by (simp add: s_def power_add [symmetric] del: power_Suc)
    also have "\<dots> \<le> valu dv * 2 ^ Suc s" using b(2) by (intro mult_le_mono1)
    finally have n: "valu num < valu dv * 2 ^ Suc s" .
    have "q = div_loop (Suc s) num (op_shl dv s) (replicate WIDTH 0)"
      using q False b(1) by (simp add: op_div_def Let_def s_def del: div_loop.simps)
    then show ?thesis
      using div_loop_spec[OF assms(1) _ _ _ s sh n, of "replicate WIDTH 0"] nz
      by (simp add: length_shl valu_replicate_0 del: div_loop.simps)
  qed
qed


lemma length_op_div: "op_div num dv = Some q \<Longrightarrow> length num = WIDTH \<Longrightarrow> length dv = WIDTH \<Longrightarrow> length q = WIDTH"
  using op_div_spec(2) by blast

lemma op_div_total: "length num = WIDTH \<Longrightarrow> length dv = WIDTH \<Longrightarrow> valu dv \<noteq> 0 \<Longrightarrow>
    \<exists>q. op_div num dv = Some q \<and> length q = WIDTH \<and> valu q = valu num div valu dv"
  using op_div_spec[of num dv] by (cases "op_div num dv") auto

subsection \<open>Bytes of a uint256\<close>

lemma length_WriteLE32 [simp]: "length (WriteLE32 x) = 4"
  by (simp add: WriteLE32_def)

lemma ReadLE32_WriteLE32: "ReadLE32 (WriteLE32 x) = x"
proof (rule bit_word_eqI)
  fix n
  assume "n < LENGTH(32)" 
  then consider "n < 8" | "8 \<le> n" "n < 16" | "16 \<le> n" "n < 24" | "24 \<le> n" "n < 32" by fastforce
  then show "bit (ReadLE32 (WriteLE32 x)) n = bit x n"
    by cases (auto simp: ReadLE32_def WriteLE32_def bit_or_iff bit_push_bit_iff bit_ucast_iff bit_drop_bit_eq nth_Cons')
qed

lemma concat_four: "\<lbrakk>\<And>x. length (f x) = 4; i < length xs\<rbrakk> \<Longrightarrow> take 4 (drop (i * 4) (concat (map f xs))) = f (xs ! i)"
proof (induction xs arbitrary: i)
  case (Cons x xs)
  then show ?case by (cases i) simp_all
qed simp

lemma UintToArith256_ArithToUint256: "length a = WIDTH \<Longrightarrow> UintToArith256 (ArithToUint256 a) = a"
  by (rule nth_equalityI) (simp_all add: UintToArith256_def ArithToUint256_def concat_four ReadLE32_WriteLE32)

lemma length_ArithToUint256: "length (ArithToUint256 a) = 32"
  by (simp add: ArithToUint256_def WIDTH_def length_concat comp_def sum_list_triv)

subsection \<open>Compact format\<close>

lemma compact_mantissa: "unat ((c::u32) AND 0x007fffff) = unat c mod 2 ^ 23"
proof -
  have c: "c AND 0x007fffff = take_bit 23 c" by (simp add: take_bit_eq_mask mask_numeral)
  show ?thesis unfolding c unsigned_take_bit_eq unfolding take_bit_eq_mod by (rule refl)
qed

lemma unat_drop_bit_u32: "unat (drop_bit n (c::u32)) = unat c div 2 ^ n"
proof -
  have "take_bit LENGTH(32) (unat c) = unat c" using u32_bound[of c] by (simp add: take_bit_nat_eq_self)
  then show ?thesis unfolding unsigned_drop_bit_eq unfolding drop_bit_eq_div by (simp only:)
qed

lemma compact_sign: "((c::u32) AND 0x00800000 \<noteq> 0) = odd (unat c div 2 ^ 23)"
proof -
  have "push_bit 23 (1::u32) = 0x00800000" by simp
  then have "(c AND 0x00800000 \<noteq> 0) = bit c 23" using and_push_1_u32[of 23 c] by (simp only:)
  also have "\<dots> = bit (unat c) 23" by (simp add: bit_unsigned_iff)
  finally show ?thesis unfolding bit_iff_odd .
qed

lemma or_exp_u32: "\<not> bit w k \<Longrightarrow> w OR push_bit k 1 = w + push_bit k (1::u32)"
  by (rule disjunctive_add [symmetric]) (auto simp only: bit_push_bit_iff bit_1_iff diff_is_0_eq dest: le_antisym)

lemma compact_pack:
  assumes "unat (m::u32) < 2 ^ 23" "n < 256"
  shows "unat (m OR push_bit 24 (of_nat n)) = unat m + n * 2 ^ 24"
    and "unat ((m OR push_bit 24 (of_nat n)) OR 0x00800000) = unat m + n * 2 ^ 24 + 2 ^ 23"
proof -
  have nb: "\<not> bit m k" if "23 \<le> k" for k
  proof -
    have "take_bit 23 (unat m) = unat m" using assms(1) by (rule take_bit_nat_eq_self)
    then have "\<not> bit (unat m) k" using that by (metis bit_take_bit_iff leD)
    then show ?thesis by (simp add: bit_unsigned_iff)
  qed
  have n: "unat (of_nat n :: u32) = n" using assms(2) by (simp add: unat_of_nat)
  have sh: "unat (push_bit 24 (of_nat n) :: u32) = n * 2 ^ 24"
    using assms(2) n by (simp add: push_bit_eq_mult unat_word_ariths(2))
  have 1: "m OR push_bit 24 (of_nat n) = m + push_bit 24 (of_nat n)"
    using nb by (intro disjunctive_add [symmetric]) (auto simp: bit_push_bit_iff)
  show u: "unat (m OR push_bit 24 (of_nat n)) = unat m + n * 2 ^ 24"
    unfolding 1 using assms sh by (simp add: unat_word_ariths(1))
  have "\<not> bit (m OR push_bit 24 (of_nat n)) 23" using nb[of 23] by (simp add: bit_or_iff bit_push_bit_iff)
  then have "(m OR push_bit 24 (of_nat n)) OR push_bit 23 1 = (m OR push_bit 24 (of_nat n)) + push_bit 23 1"
    by (rule or_exp_u32)
  moreover have "push_bit 23 (1::u32) = 0x00800000" by simp
  ultimately have "unat ((m OR push_bit 24 (of_nat n)) OR 0x00800000) = (unat (m OR push_bit 24 (of_nat n)) + 2 ^ 23) mod 2 ^ 32"
    by (simp add: unat_word_ariths(1))
  then show "unat ((m OR push_bit 24 (of_nat n)) OR 0x00800000) = unat m + n * 2 ^ 24 + 2 ^ 23"
    unfolding u using assms by simp
qed

definition compact_value :: "nat \<Rightarrow> nat \<Rightarrow> nat" where
  "compact_value n m = (if n \<le> 3 then m div 256 ^ (3 - n) else m * 256 ^ (n - 3))"

lemma compact_overflow_iff:
  fixes m n :: nat
  assumes "m < 2 ^ 23"
  shows "(m \<noteq> 0 \<and> (n > 34 \<or> (m > 0xff \<and> n > 33) \<or> (m > 0xffff \<and> n > 32))) \<longleftrightarrow> 2 ^ 256 \<le> m * 256 ^ (n - 3)"
proof -
  have p: "(256::nat) ^ k = 2 ^ (8 * k)" for k by (simp add: power_mult)
  have up: "m * 2 ^ (8 * (n - 3)) < 2 ^ 256" if "m < 2 ^ j" "j + 8 * (n - 3) \<le> 256" for j
  proof -
    have "m * 2 ^ (8 * (n - 3)) < 2 ^ j * 2 ^ (8 * (n - 3))" using that by simp
    also have "\<dots> = 2 ^ (j + 8 * (n - 3))" by (simp add: power_add)
    also have "\<dots> \<le> 2 ^ 256" using that(2) by (rule power_increasing) simp
    finally show ?thesis .
  qed
  have dn: "2 ^ 256 \<le> m * 2 ^ (8 * (n - 3))" if "2 ^ j \<le> m" "256 \<le> j + 8 * (n - 3)" for j
  proof -
    have "(2::nat) ^ 256 \<le> 2 ^ (j + 8 * (n - 3))" using that by (intro power_increasing) auto
    also have "\<dots> \<le> m * 2 ^ (8 * (n - 3))" using that by (simp add: power_add)
    finally show ?thesis .
  qed
  consider "m = 0" | "m \<noteq> 0" "n > 34" | "m \<noteq> 0" "n = 34" | "m \<noteq> 0" "n = 33" | "m \<noteq> 0" "n \<le> 32" by linarith
  then show ?thesis
  proof cases
    case 2 then show ?thesis using dn[of 0] unfolding p by simp
  next
    case 3 then show ?thesis using dn[of 8] up[of 8] unfolding p by (cases "m > 0xff") auto
  next
    case 4 then show ?thesis using dn[of 16] up[of 16] unfolding p by (cases "m > 0xffff") auto
  next
    case 5
    then have "23 + 8 * (n - 3) \<le> 256" by linarith
    with 5 show ?thesis using up[of 23] assms unfolding p by auto
  qed simp
qed

lemma SetCompact_spec:
  fixes c :: u32
  defines "n \<equiv> unat c div 2 ^ 24" and "m \<equiv> unat c mod 2 ^ 23"
  shows "length (fst (SetCompact c)) = WIDTH"
    and "valu (fst (SetCompact c)) = compact_value n m mod 2 ^ 256"
    and "even (unat c div 2 ^ 23) \<Longrightarrow> \<not> fst (snd (SetCompact c))"
    and "snd (snd (SetCompact c)) \<longleftrightarrow> 2 ^ 256 \<le> compact_value n m"
proof -
  define w where "w = c AND 0x007fffff"
  have n: "unat (drop_bit 24 c) = n" unfolding n_def by (rule unat_drop_bit_u32)
  have m: "unat w = m" unfolding w_def m_def by (rule compact_mantissa)
  have m23: "m < 2 ^ 23" unfolding m_def by simp
  have p: "(256::nat) ^ k = 2 ^ (8 * k)" for k by (simp add: power_mult)
  have o: "compact_value n m < 2 ^ 256" if "n \<le> 3"
    using le_less_trans[OF div_le_dividend[of m "256 ^ (3 - n)"], of "2 ^ 256"] m23 that
    by (simp add: compact_value_def)
  define x where "x = (if n \<le> 3 then drop_bit (8 * (3 - n)) w else w)"
  have S: "SetCompact c = (if n \<le> 3 then of_u64 (ucast x) else op_shl (of_u64 (ucast x)) (8 * (n - 3)),
      x \<noteq> 0 \<and> odd (unat c div 2 ^ 23),
      x \<noteq> 0 \<and> (n > 34 \<or> (x > 0xff \<and> n > 33) \<or> (x > 0xffff \<and> n > 32)))"
    unfolding SetCompact_def Let_def n compact_sign w_def [symmetric] x_def
    by (cases "n \<le> 3") (simp_all only: if_True if_False prod.case)
  show "length (fst (SetCompact c)) = WIDTH"
    unfolding S by (simp add: length_of_u64)
  show "even (unat c div 2 ^ 23) \<Longrightarrow> \<not> fst (snd (SetCompact c))"
    unfolding S by simp
  have x: "unat (ucast x :: u64) = (if n \<le> 3 then compact_value n m else m)"
    by (simp only: x_def compact_value_def unat_ucast_u32_u64 unat_drop_bit_u32 m p if_True if_False split: if_split) simp
  have v: "(if n \<le> 3 then compact_value n m else m) * 2 ^ (8 * (n - 3)) = compact_value n m"
    by (simp add: compact_value_def p)
  show "valu (fst (SetCompact c)) = compact_value n m mod 2 ^ 256"
  proof (cases "n \<le> 3")
    case True
    then show ?thesis unfolding S fst_conv using o x by (simp only: if_True valu_of_u64 mod_less)
  next
    case False
    then show ?thesis unfolding S fst_conv using x v by (simp only: if_False valu_shl length_of_u64 valu_of_u64)
  qed
  show "snd (snd (SetCompact c)) \<longleftrightarrow> 2 ^ 256 \<le> compact_value n m"
  proof (cases "n \<le> 3")
    case True
    then show ?thesis unfolding S using o[OF True] by auto
  next
    case False
    have z: "(x \<noteq> 0) = (m \<noteq> 0)" "(x > 0xff) = (m > 0xff)" "(x > 0xffff) = (m > 0xffff)"
      using False unfolding m [symmetric] x_def by (auto simp: word_less_nat_alt unat_eq_zero)
    have e: "compact_value n m = m * 256 ^ (n - 3)" using False by (simp only: compact_value_def if_False)
    show ?thesis
      unfolding S snd_conv z e by (rule compact_overflow_iff[OF m23])
  qed
qed

text \<open>The exponent and mantissa \<^verbatim>\<open>GetCompact\<close> chooses for the number \<open>v\<close> of \<open>b\<close> bits.\<close>

definition compact_raw :: "nat \<Rightarrow> nat \<Rightarrow> nat" where
  "compact_raw v b = (let N = (b + 7) div 8 in if N \<le> 3 then v * 256 ^ (3 - N) else v div 256 ^ (N - 3))"

definition compact_norm :: "nat \<Rightarrow> nat \<Rightarrow> nat \<times> nat" where
  "compact_norm v b = (let N = (b + 7) div 8; M = compact_raw v b in
     if 2 ^ 23 \<le> M then (N + 1, M div 256) else (N, M))"

lemma pow2_add: "a + b = c \<Longrightarrow> (2::nat) ^ a * 2 ^ b = 2 ^ c"
  by (simp flip: power_add)

lemma compact_raw_bounds:
  assumes "v < 2 ^ b" "v \<noteq> 0 \<Longrightarrow> 0 < b \<and> 2 ^ (b - 1) \<le> v"
  shows "compact_raw v b < 2 ^ 24" and "v \<noteq> 0 \<Longrightarrow> 2 ^ 16 \<le> compact_raw v b"
proof -
  define N where "N = (b + 7) div 8"
  have N: "b \<le> 8 * N" "8 * N \<le> b + 7" by (auto simp: N_def)
  have p: "(256::nat) ^ k = 2 ^ (8 * k)" for k by (simp add: power_mult)
  have up: "v < 2 ^ (8 * N)" using assms(1) N(1) by (meson le_less_trans less_le_trans one_le_numeral power_increasing)
  show "compact_raw v b < 2 ^ 24"
  proof (cases "N \<le> 3")
    case True
    then have "v * 2 ^ (8 * (3 - N)) < 2 ^ (8 * N) * 2 ^ (8 * (3 - N))" using up by simp
    also have "\<dots> = 2 ^ 24" using True by (intro pow2_add) simp
    finally show ?thesis using True by (simp add: compact_raw_def Let_def p flip: N_def)
  next
    case False
    then have "(2::nat) ^ 24 * 2 ^ (8 * (N - 3)) = 2 ^ (8 * N)" by (intro pow2_add) simp
    then have "v div 2 ^ (8 * (N - 3)) < 2 ^ 24" using up by (intro less_mult_imp_div_less) (simp only:)
    then show ?thesis using False by (simp add: compact_raw_def Let_def p flip: N_def)
  qed
  assume v: "v \<noteq> 0"
  have "(2::nat) ^ (8 * N - 8) \<le> 2 ^ (b - 1)" using assms(2)[OF v] N by (intro power_increasing) auto
  also have "\<dots> \<le> v" using assms(2)[OF v] by simp
  finally have dn: "2 ^ (8 * N - 8) \<le> v" .
  have N1: "1 \<le> N" using assms(2)[OF v] N by auto
  show "2 ^ 16 \<le> compact_raw v b"
  proof (cases "N \<le> 3")
    case True
    have "(2::nat) ^ 16 = 2 ^ (8 * N - 8) * 2 ^ (8 * (3 - N))" using True N1 by (intro pow2_add [symmetric]) simp
    also have "\<dots> \<le> v * 2 ^ (8 * (3 - N))" using dn by (rule mult_le_mono1)
    finally show ?thesis using True by (simp add: compact_raw_def Let_def p flip: N_def)
  next
    case False
    then have "(2::nat) ^ 16 * 2 ^ (8 * (N - 3)) = 2 ^ (8 * N - 8)" by (intro pow2_add) simp
    then have "2 ^ 16 * 2 ^ (8 * (N - 3)) \<le> v" using dn by (simp only:)
    then have "2 ^ 16 \<le> v div 2 ^ (8 * (N - 3))" by (simp only: less_eq_div_iff_mult_less_eq zero_less_power zero_less_numeral)
    then show ?thesis using False by (simp add: compact_raw_def Let_def p flip: N_def)
  qed
qed

lemma compact_norm_bounds:
  assumes "v < 2 ^ b" "v \<noteq> 0 \<Longrightarrow> 0 < b \<and> 2 ^ (b - 1) \<le> v" "b \<le> 256" "compact_norm v b = (n, m)"
  shows "m < 2 ^ 23" and "n \<le> 33" and "v \<noteq> 0 \<Longrightarrow> 2 ^ 15 \<le> m"
  using compact_raw_bounds[OF assms(1,2)] assms(3,4)
  by (auto simp: compact_norm_def Let_def split: if_splits)

lemma GetCompact_spec:
  assumes "length a = WIDTH" "compact_norm (valu a) (bits a) = (n, m)"
  shows "\<exists>c. GetCompact a f = Some c \<and> unat c = m + n * 2 ^ 24 + (if f \<and> m \<noteq> 0 then 2 ^ 23 else 0)"
proof -
  note b = bits_spec[OF assms(1)]
  define N where "N = (bits a + 7) div 8"
  define M where "M = compact_raw (valu a) (bits a)"
  have p: "(256::nat) ^ k = 2 ^ (8 * k)" for k by (simp add: power_mult)
  have rb: "M < 2 ^ 24" using compact_raw_bounds(1)[OF b(1)] b(2) unfolding M_def by blast
  have nb: "m < 2 ^ 23" "n \<le> 33" using compact_norm_bounds(1,2)[OF b(1) _ b(4) assms(2)] b(2) by blast+
  define x :: u32 where "x = (if N \<le> 3 then ucast (push_bit (8 * (3 - N)) (GetLow64 a))
                      else ucast (GetLow64 (op_shr a (8 * (N - 3)))))"
  have x: "unat x = M"
  proof (cases "N \<le> 3")
    case True
    then have M: "M = valu a * 2 ^ (8 * (3 - N))" by (simp add: M_def compact_raw_def Let_def p flip: N_def)
    have v: "valu a \<le> M" unfolding M by simp
    have "unat (push_bit (8 * (3 - N)) (GetLow64 a)) = (valu a * 2 ^ (8 * (3 - N))) mod 2 ^ 64"
    proof -
      have "valu a mod 2 ^ 64 = valu a" using v rb by simp
      then have "unat (GetLow64 a) = valu a" using GetLow64_spec[OF assms(1)] by (simp only:)
      then show ?thesis
        unfolding unsigned_push_bit_eq unfolding take_bit_eq_mod push_bit_eq_mult by (simp only:) simp
    qed
    then show ?thesis using True rb unfolding x_def M [symmetric]
      by (simp only: if_True unat_ucast_low32) simp
  next
    case False
    then have M: "M = valu a div 2 ^ (8 * (N - 3))" by (simp add: M_def compact_raw_def Let_def p flip: N_def)
    then show ?thesis using False rb GetLow64_spec[of "op_shr a (8 * (N - 3))"] valu_shr[OF assms(1)]
      unfolding x_def by (simp only: if_False unat_ucast_low32 length_shr M [symmetric]) simp
  qed
  have s: "(x AND 0x00800000 \<noteq> 0) = (2 ^ 23 \<le> M)"
  proof -
    have "M div 2 ^ 23 = (if 2 ^ 23 \<le> M then 1 else 0)" using rb by (auto intro!: div_nat_eqI)
    then show ?thesis unfolding compact_sign x by simp
  qed
  define y :: u32 where "y = (if 2 ^ 23 \<le> M then drop_bit 8 x else x)"
  have y: "unat y = m" and n: "n = (if 2 ^ 23 \<le> M then N + 1 else N)"
    using assms(2) by (auto simp: y_def x unat_drop_bit_u32 compact_norm_def Let_def N_def M_def split: if_splits)
  have z: "y AND NOT 0x007fffff = 0"
  proof -
    have "y AND 0x007fffff = y" using compact_mantissa[of y] nb(1) y by (simp add: word_unat_eq_iff)
    then show ?thesis by (metis and.assoc bit.conj_cancel_right and_zero_eq)
  qed
  have "GetCompact a f = Some (let c = y OR push_bit 24 (of_nat n) in
      c OR (if f \<and> c AND 0x007fffff \<noteq> 0 then 0x00800000 else 0))"
    unfolding GetCompact_def Let_def N_def [symmetric] x_def [symmetric] s
    using z nb(2) unfolding y_def n by (cases "2 ^ 23 \<le> M") (simp_all only: if_True if_False prod.case, simp_all)
  moreover have "((y OR push_bit 24 (of_nat n)) AND 0x007fffff \<noteq> 0) = (m \<noteq> 0)"
  proof -
    have "unat ((y OR push_bit 24 (of_nat n)) AND 0x007fffff) = (m + n * 2 * 2 ^ 23) mod 2 ^ 23"
      using compact_pack(1)[of y n] nb y unfolding compact_mantissa by (simp add: mult.commute)
    also have "\<dots> = m" using nb(1) by (simp only: mod_mult_self1 mod_less)
    finally show ?thesis by (simp only: word_unat_eq_iff unsigned_0)
  qed
  ultimately show ?thesis
    using compact_pack[of y n] nb y by (simp add: Let_def)
qed

lemma compact_value_norm:
  assumes "compact_norm v b = (n, m)" "v < 2 ^ b" "v \<noteq> 0 \<Longrightarrow> 0 < b \<and> 2 ^ (b - 1) \<le> v"
  shows "compact_value n m = v div 256 ^ (n - 3) * 256 ^ (n - 3)"
proof -
  define N where "N = (b + 7) div 8"
  define M where "M = compact_raw v b"
  have M: "M = (if N \<le> 3 then v * 256 ^ (3 - N) else v div 256 ^ (N - 3))"
    by (simp add: M_def compact_raw_def N_def Let_def)
  have nm: "(n, m) = (if 2 ^ 23 \<le> M then (N + 1, M div 256) else (N, M))"
    using assms(1) unfolding compact_norm_def Let_def N_def M_def by (rule sym)
  consider "2 ^ 23 \<le> M" "N < 3" | "2 ^ 23 \<le> M" "3 \<le> N" | "\<not> 2 ^ 23 \<le> M" "N \<le> 3" | "\<not> 2 ^ 23 \<le> M" "3 < N" by linarith
  then show ?thesis
  proof cases
    case 1
    then have "3 - N = Suc (3 - (N + 1))" by simp
    then have "M div 256 = v * 256 ^ (3 - (N + 1))" using 1(2) unfolding M by simp
    with 1 nm show ?thesis by (simp add: compact_value_def)
  next
    case 2
    then have "N + 1 - 3 = Suc (N - 3)" by simp
    then have "M div 256 = v div 256 ^ (N + 1 - 3)"
      using 2(2) unfolding M by (cases "N = 3") (simp_all add: div_mult2_eq [symmetric] mult.commute)
    with 2 nm show ?thesis by (simp add: compact_value_def)
  next
    case 3
    with nm show ?thesis by (simp add: compact_value_def M)
  next
    case 4
    with nm show ?thesis by (simp add: compact_value_def M)
  qed
qed

theorem compact_roundtrip_error:
  assumes "length a = WIDTH"
  shows "\<exists>c r. GetCompact a False = Some c \<and> SetCompact c = (r, False, False) \<and>
    length r = WIDTH \<and> valu r \<le> valu a \<and> (valu a - valu r) * 2 ^ 15 \<le> valu a"
proof -
  note b = bits_spec[OF assms]
  obtain n m where nm: "compact_norm (valu a) (bits a) = (n, m)" by fastforce
  have nb: "m < 2 ^ 23" "valu a \<noteq> 0 \<Longrightarrow> 2 ^ 15 \<le> m"
    using compact_norm_bounds[OF b(1) _ b(4) nm] b(2) by blast+
  obtain c where c: "GetCompact a False = Some c" "unat c = m + n * 2 ^ 24"
    using GetCompact_spec[OF assms nm, of False] by auto
  have d: "unat c div 2 ^ 24 = n" "unat c mod 2 ^ 23 = m" "even (unat c div 2 ^ 23)"
  proof -
    have e: "unat c = m + 2 ^ 23 * (2 * n)" using c(2) by simp
    show "unat c mod 2 ^ 23 = m" unfolding e using nb(1) by (simp only: mod_mult_self2 mod_less)
    have "unat c div 2 ^ 23 = 2 * n" unfolding e using nb(1) by (subst div_mult_self2) auto
    then show "even (unat c div 2 ^ 23)" by simp
    show "unat c div 2 ^ 24 = n" unfolding c(2) using nb(1) by (subst div_mult_self1) auto
  qed
  define K where "K = (256::nat) ^ (n - 3)"
  have v: "compact_value n m = valu a div K * K"
    using compact_value_norm[OF nm b(1)] b(2) unfolding K_def by blast
  have le: "valu a div K * K \<le> valu a" by simp
  have "valu a < 2 ^ 256" using valu_less[of a] assms by (simp add: WIDTH_def)
  then have lt: "valu a div K * K < 2 ^ 256" using le by (rule le_less_trans [rotated])
  obtain r g f where S: "SetCompact c = (r, g, f)" by (metis prod_cases3)
  have r: "length r = WIDTH" "valu r = valu a div K * K" "\<not> g" "\<not> f"
    using SetCompact_spec[of c] S lt d(3) unfolding d v by auto
  have "(valu a - valu r) * 2 ^ 15 \<le> valu a"
  proof (cases "n \<le> 3 \<or> valu a = 0")
    case True
    then show ?thesis using r(2) by (auto simp: K_def)
  next
    case False
    then have m: "2 ^ 15 \<le> m" and "compact_value n m = m * K" using nb by (auto simp: compact_value_def K_def)
    then have "valu r = m * K" using r(2) v by simp
    then have "2 ^ 15 * K \<le> valu a" using m le r(2) by (metis mult_le_mono1 order_trans)
    moreover have "valu a - valu r < K" unfolding r(2) K_def by (simp add: minus_div_mult_eq_mod)
    ultimately show ?thesis by (metis less_imp_le mult.commute mult_le_mono1 order_trans)
  qed
  with r le S c(1) show ?thesis by (simp only:) auto
qed
subsection \<open>The interface of the fixed point library\<close>

text \<open>What a client of 256 bit integers may rely on: \<open>num\<close> is the number a well formed value denotes.
  Products and sums wrap around at \<open>2^256\<close>, a quotient exists unless the divisor is zero.\<close>

locale uint256_arith =
  fixes wf :: "'a \<Rightarrow> bool" and num :: "'a \<Rightarrow> nat" and of64 :: "u64 \<Rightarrow> 'a"
    and plus2 :: "'a \<Rightarrow> 'a \<Rightarrow> 'a" and times2 :: "'a \<Rightarrow> 'a \<Rightarrow> 'a" and times32 :: "'a \<Rightarrow> u32 \<Rightarrow> 'a"
    and divide2 :: "'a \<Rightarrow> 'a \<Rightarrow> 'a option" and low64 :: "'a \<Rightarrow> u64"
  assumes wf_of64: "wf (of64 x)" and num_of64: "num (of64 x) = unat x"
    and wf_plus: "wf a \<Longrightarrow> wf b \<Longrightarrow> wf (plus2 a b)"
    and num_plus: "wf a \<Longrightarrow> wf b \<Longrightarrow> num (plus2 a b) = (num a + num b) mod 2 ^ 256"
    and wf_times: "wf a \<Longrightarrow> wf b \<Longrightarrow> wf (times2 a b)"
    and num_times: "wf a \<Longrightarrow> wf b \<Longrightarrow> num (times2 a b) = num a * num b mod 2 ^ 256"
    and wf_times32: "wf a \<Longrightarrow> wf (times32 a k)"
    and num_times32: "wf a \<Longrightarrow> num (times32 a k) = num a * unat k mod 2 ^ 256"
    and divide_zero: "wf a \<Longrightarrow> wf b \<Longrightarrow> num b = 0 \<Longrightarrow> divide2 a b = None"
    and divide_ex: "wf a \<Longrightarrow> wf b \<Longrightarrow> num b \<noteq> 0 \<Longrightarrow>
      \<exists>q. divide2 a b = Some q \<and> wf q \<and> num q = num a div num b"
    and low64_num: "wf a \<Longrightarrow> unat (low64 a) = num a mod 2 ^ 64"
begin

lemma low64_of_nat: "wf a \<Longrightarrow> low64 a = of_nat (num a)"
  using low64_num[of a] by (simp add: word_unat_eq_iff unat_of_nat)

text \<open>The low 64 bits of a quotient, the shape in which every fixed point operation ends.\<close>

lemma quotient_low64:
  assumes "wf a" "wf b"
  shows "map_option low64 (divide2 a b) = (if num b = 0 then None else Some (of_nat (num a div num b)))"
  using divide_zero[OF assms] divide_ex[OF assms] by (auto simp: low64_of_nat)

lemma num_product64: "num (times2 (of64 x) (of64 y)) = unat x * unat y"
proof -
  have "unat x * unat y \<le> 2 ^ 64 * 2 ^ 64"
    using u64_bound[of x] u64_bound[of y] by (intro mult_le_mono) auto
  then show ?thesis by (simp add: num_times wf_of64 num_of64)
qed

lemma num_scaled: "wf a \<Longrightarrow> num a * unat k < 2 ^ 256 \<Longrightarrow> num (times32 a k) = num a * unat k"
  by (simp add: num_times32)

end

lemma length_op_mul32 [simp]: "length (op_mul32 a k) = length a"
  by (simp add: op_mul32_def mul32_loop_mul_row)

lemma valu_op_mul32: "length a = WIDTH \<Longrightarrow> valu (op_mul32 a k) = valu a * unat k mod 2 ^ 256"
  by (simp add: op_mul32_def valu_mul32_loop WIDTH_def mult.commute)

lemma valu_op_add: "length a = WIDTH \<Longrightarrow> length b = WIDTH \<Longrightarrow> valu (op_add a b) = (valu a + valu b) mod 2 ^ 256"
  by (simp add: op_add_def valu_add_loop WIDTH_def)

interpretation au: uint256_arith "\<lambda>a. length a = WIDTH" valu of_u64 op_add op_mul op_mul32 op_div GetLow64
proof unfold_locales
  fix a b :: base_uint
  assume "length a = WIDTH" "length b = WIDTH" "valu b \<noteq> 0"
  then show "\<exists>q. op_div a b = Some q \<and> length q = WIDTH \<and> valu q = valu a div valu b"
    by (rule op_div_total)
qed (simp_all add: length_of_u64 valu_of_u64 valu_op_add valu_mul valu_op_mul32 op_div_spec(1) GetLow64_spec)

end
