(* ===== verification/Ufp64.thy ===== *)
theory Ufp64
  imports ArithDivision
begin

section \<open>Unsigned 64 bit fixed point numbers\<close>

text \<open>
  The namespace \<^verbatim>\<open>ufp64\<close> of \<^verbatim>\<open>ufp64.cpp\<close>: a number is a 64 bit word that counts units of \<open>10^-8\<close>.
  The operations are translated on the limb arithmetic of \<^verbatim>\<open>ArithUint256\<close>, keeping which overload
  the sources call: \<^verbatim>\<open>* SCALE\<close> is the product with a \<^verbatim>\<open>uint32_t\<close>, \<^verbatim>\<open>/ SCALE\<close> and \<^verbatim>\<open>/ y\<close> convert the divisor
  to a 256 bit integer first. A quotient by zero is \<^const>\<open>None\<close>. The lemmas collected in \<open>ufp_spec\<close> give
  each operation as arithmetic on natural numbers, reduced to 64 bits.
\<close>

definition SCALE :: nat where
  "SCALE = 100000000"

definition SQRT_ITERATIONS :: nat where
  "SQRT_ITERATIONS = 60"

text \<open>\<^verbatim>\<open>uint * SCALE\<close> is a 32 bit product, the sum is a 64 bit one.\<close>

definition add_uint :: "u64 \<Rightarrow> u32 \<Rightarrow> u64" where
  "add_uint ufp x = ucast (x * of_nat SCALE :: u32) + ufp"

definition ufp_mul :: "u64 \<Rightarrow> u64 \<Rightarrow> u64 option" where
  "ufp_mul x y = map_option GetLow64 (op_div (op_mul (of_u64 x) (of_u64 y)) (of_u64 (of_nat SCALE)))"

definition mul_by_uint :: "u64 \<Rightarrow> u64 \<Rightarrow> u64" where
  "mul_by_uint x y = GetLow64 (op_mul (of_u64 x) (of_u64 y))"

definition mul_to_uint :: "u64 \<Rightarrow> u64 \<Rightarrow> u64 option" where
  "mul_to_uint x y = map_option GetLow64 (op_div (op_mul (of_u64 x) (of_u64 y)) (of_u64 (of_nat SCALE)))"

definition div_2uint :: "u64 \<Rightarrow> u64 \<Rightarrow> u64 option" where
  "div_2uint x y = map_option GetLow64 (op_div (op_mul32 (of_u64 x) (of_nat SCALE)) (of_u64 y))"

definition div_by_uint :: "u64 \<Rightarrow> u64 \<Rightarrow> u64 option" where
  "div_by_uint x y = map_option GetLow64 (op_div (of_u64 x) (of_u64 y))"

definition div_uint :: "u64 \<Rightarrow> u64 \<Rightarrow> u64 option" where
  "div_uint x y = map_option GetLow64
     (op_div (op_mul32 (op_mul32 (of_u64 x) (of_nat SCALE)) (of_nat SCALE)) (of_u64 y))"

definition div_to_uint :: "u64 \<Rightarrow> u64 \<Rightarrow> u64 option" where
  "div_to_uint x y = map_option GetLow64 (op_div (op_mul32 (of_u64 x) (of_nat SCALE)) (of_u64 y))"

definition ufp_div :: "u64 \<Rightarrow> u64 \<Rightarrow> u64 option" where
  "ufp_div x y = map_option GetLow64 (op_div (op_mul32 (of_u64 x) (of_nat SCALE)) (of_u64 y))"

definition ufp_add :: "u64 \<Rightarrow> u64 \<Rightarrow> u64" where
  "ufp_add x y = x + y"

definition ufp_sub :: "u64 \<Rightarrow> u64 \<Rightarrow> u64" where
  "ufp_sub x y = x - y"

definition ufp_min :: "u64 \<Rightarrow> u64 \<Rightarrow> u64" where
  "ufp_min x y = min x y"

definition ufp_max :: "u64 \<Rightarrow> u64 \<Rightarrow> u64" where
  "ufp_max x y = max x y"

text \<open>The Babylonian iterations of \<^verbatim>\<open>sqrt_uint\<close>, on the scaled argument \<open>y\<close>.\<close>

fun sqrt_loop :: "nat \<Rightarrow> base_uint \<Rightarrow> base_uint \<Rightarrow> base_uint option" where
  "sqrt_loop 0 y sqrt = Some sqrt"
| "sqrt_loop (Suc n) y sqrt = do {
     q \<leftarrow> op_div y sqrt;
     sqrt \<leftarrow> op_div (op_add sqrt q) (of_u64 2);
     sqrt_loop n y sqrt
   }"

definition sqrt_uint :: "u64 \<Rightarrow> u64 option" where
  "sqrt_uint x =
     (let y = op_mul32 (op_mul32 (of_u64 x) (of_nat SCALE)) (of_nat SCALE) in do {
        sqrt \<leftarrow> op_div y (of_u64 2);
        sqrt \<leftarrow> sqrt_loop SQRT_ITERATIONS y sqrt;
        Some (GetLow64 sqrt)
      })"

definition to_uint :: "u64 \<Rightarrow> u64" where
  "to_uint x = x div of_nat SCALE"

definition to_ufp64 :: "u64 \<Rightarrow> u64" where
  "to_ufp64 x = x * of_nat SCALE"

text \<open>\<^verbatim>\<open>std::to_string\<close> on the number, then the padding, the decimal point and the loop that drops the
  trailing zeros; that loop works on the reversed string, \<^verbatim>\<open>back()\<close> first.\<close>

fun to_string :: "nat \<Rightarrow> string" where
  "to_string n = (if n < 10 then [char_of (48 + n)] else to_string (n div 10) @ [char_of (48 + n mod 10)])"

declare to_string.simps [simp del]

fun strip_loop :: "nat \<Rightarrow> string \<Rightarrow> string" where
  "strip_loop dotIndex [] = []"
| "strip_loop dotIndex (back # rest) =
     (if length (back # rest) > dotIndex \<and> (back = CHR ''0'' \<or> back = CHR ''.'')
      then strip_loop dotIndex rest else back # rest)"

definition to_str :: "u64 \<Rightarrow> string" where
  "to_str x =
     (let unscaled = to_string (unat x);
          unscaled = (if length unscaled < 9 then replicate (9 - length unscaled) CHR ''0'' @ unscaled else unscaled);
          dotIndex = length unscaled - 8;
          result = take dotIndex unscaled @ ''.'' @ drop dotIndex unscaled
      in rev (strip_loop dotIndex (rev result)))"

subsection \<open>Operations as arithmetic on natural numbers\<close>

lemma SCALE_pos [simp]: "0 < SCALE"
  by (simp add: SCALE_def)

lemma unat_SCALE64 [simp]: "unat (of_nat SCALE :: u64) = SCALE"
  by (simp add: SCALE_def)

lemma unat_SCALE32 [simp]: "unat (of_nat SCALE :: u32) = SCALE"
  by (simp add: SCALE_def)

lemma scaled_bound: "unat (x::u64) * SCALE < 2 ^ 92" "unat (x::u64) * SCALE * SCALE < 2 ^ 118"
  using u64_bound[of x] by (simp_all add: SCALE_def)

lemma num_scale1: "valu (op_mul32 (of_u64 x) (of_nat SCALE)) = unat x * SCALE"
  using scaled_bound[of x] by (subst au.num_scaled) (simp_all add: length_of_u64 valu_of_u64)

lemma num_scale2: "valu (op_mul32 (op_mul32 (of_u64 x) (of_nat SCALE)) (of_nat SCALE)) = unat x * SCALE * SCALE"
  using scaled_bound[of x] by (subst au.num_scaled) (simp_all add: length_of_u64 num_scale1)

lemmas ufp_num = au.num_product64 num_scale1 num_scale2 valu_of_u64

lemma ufp_mul_spec [ufp_spec]: "ufp_mul x y = Some (of_nat (unat x * unat y div SCALE))"
  unfolding ufp_mul_def by (subst au.quotient_low64) (simp_all add: length_of_u64 ufp_num)

lemma mul_by_uint_spec [ufp_spec]: "mul_by_uint x y = x * y"
  unfolding mul_by_uint_def by (subst au.low64_of_nat) (simp_all add: length_of_u64 ufp_num)

lemma mul_to_uint_spec [ufp_spec]: "mul_to_uint x y = Some (of_nat (unat x * unat y div SCALE))"
  unfolding mul_to_uint_def by (subst au.quotient_low64) (simp_all add: length_of_u64 ufp_num)

lemma div_2uint_spec [ufp_spec]:
  "div_2uint x y = (if y = 0 then None else Some (of_nat (unat x * SCALE div unat y)))"
  unfolding div_2uint_def by (subst au.quotient_low64) (simp_all add: length_of_u64 ufp_num unat_eq_0)

lemma div_by_uint_spec [ufp_spec]: "div_by_uint x y = (if y = 0 then None else Some (x div y))"
  unfolding div_by_uint_def
  by (subst au.quotient_low64) (simp_all add: length_of_u64 ufp_num unat_eq_0 flip: unat_div)

lemma div_uint_spec [ufp_spec]:
  "div_uint x y = (if y = 0 then None else Some (of_nat (unat x * SCALE * SCALE div unat y)))"
  unfolding div_uint_def by (subst au.quotient_low64) (simp_all add: length_of_u64 ufp_num unat_eq_0)

lemma div_to_uint_spec [ufp_spec]:
  "div_to_uint x y = (if y = 0 then None else Some (of_nat (unat x * SCALE div unat y)))"
  unfolding div_to_uint_def by (subst au.quotient_low64) (simp_all add: length_of_u64 ufp_num unat_eq_0)

lemma ufp_div_spec [ufp_spec]:
  "ufp_div x y = (if y = 0 then None else Some (of_nat (unat x * SCALE div unat y)))"
  unfolding ufp_div_def by (subst au.quotient_low64) (simp_all add: length_of_u64 ufp_num unat_eq_0)


subsection \<open>Square root\<close>

fun newton :: "nat \<Rightarrow> nat \<Rightarrow> nat \<Rightarrow> nat" where
  "newton 0 y s = s"
| "newton (Suc n) y s = newton n y ((s + y div s) div 2)"

lemma newton_step_lower:
  fixes s y :: nat
  assumes "0 < s"
  shows "y < ((s + y div s) div 2 + 1)\<^sup>2"
proof -
  define q t where d: "q = y div s" "t = (s + q) div 2"
  have "y < s * (q + 1)" using assms dividend_less_div_times[of s y] by (simp add: d algebra_simps)
  moreover have "4 * (s * (q + 1)) \<le> (s + (q + 1))\<^sup>2"
  proof -
    have "0 \<le> (int s - int (q + 1))\<^sup>2" by simp
    then have "int (4 * (s * (q + 1))) \<le> int ((s + (q + 1))\<^sup>2)"
      by (simp add: power2_eq_square algebra_simps)
    then show ?thesis by linarith
  qed
  moreover have "(s + (q + 1))\<^sup>2 \<le> (2 * (t + 1))\<^sup>2" by (intro power_mono) (auto simp: d)
  moreover have "(2 * (t + 1))\<^sup>2 = 4 * (t + 1)\<^sup>2" by (simp only: power_mult_distrib) simp
  ultimately have "y < (t + 1)\<^sup>2" by linarith
  then show ?thesis by (simp only: d)
qed

lemma newton_step_upper:
  fixes s y R :: nat
  assumes "0 < R" "R \<le> s" "y < (R + 1)\<^sup>2"
  shows "(s + y div s) div 2 \<le> R + 1 + (s - (R + 1)) div 2"
proof (cases "s = R")
  case True
  have "y < Suc (R + 2) * R" using assms(1,3) by (simp add: power2_eq_square)
  then have "y div R < Suc (R + 2)" by (rule less_mult_imp_div_less)
  with True show ?thesis by simp
next
  case False
  then have "Suc R * Suc R \<le> Suc R * s" using assms(2) by (intro mult_le_mono2) simp
  then have "y < Suc R * s" using assms(3) by (simp only: power2_eq_square Suc_eq_plus1)
  then have "y div s < Suc R" by (rule less_mult_imp_div_less)
  then show ?thesis using False assms(2) by linarith
qed

lemma newton_bounds:
  fixes s y R :: nat
  assumes "0 < R" "R\<^sup>2 \<le> y" "y < (R + 1)\<^sup>2" "R \<le> s"
  shows "R \<le> newton n y s \<and> newton n y s \<le> R + 1 + (s - (R + 1)) div 2 ^ n"
  using assms(4)
proof (induction n arbitrary: s)
  case (Suc n)
  let ?t = "(s + y div s) div 2"
  have "R\<^sup>2 < (?t + 1)\<^sup>2" using newton_step_lower[of s y] assms Suc.prems by simp
  then have t: "R \<le> ?t" by (metis less_Suc_eq_le Suc_eq_plus1 power_less_imp_less_base zero_le)
  have "(?t - (R + 1)) div 2 ^ n \<le> (s - (R + 1)) div 2 div 2 ^ n"
    using newton_step_upper[OF assms(1) Suc.prems assms(3)] by (intro div_le_mono) simp
  also have "\<dots> = (s - (R + 1)) div 2 ^ Suc n" by (simp add: div_mult2_eq)
  finally show ?case using Suc.IH[OF t] by simp
qed simp

lemma sqrt_loop_newton:
  assumes "length y = WIDTH" "length s = WIDTH" "0 < R" "R\<^sup>2 \<le> valu y" "valu y < (R + 1)\<^sup>2" "R \<le> valu s"
    "valu s < 2 ^ 118" "valu y < 2 ^ 118"
  shows "\<exists>r. sqrt_loop n y s = Some r \<and> length r = WIDTH \<and> valu r = newton n (valu y) (valu s)"
  using assms(2,6,7)
proof (induction n arbitrary: s)
  case (Suc n)
  obtain q where q: "op_div y s = Some q" "length q = WIDTH" "valu q = valu y div valu s"
    using au.divide_ex[of y s] assms(1,3) Suc.prems by auto
  have "valu q \<le> valu y" unfolding q(3) by (rule div_le_dividend)
  then have a: "valu (op_add s q) = valu s + valu q" using Suc.prems assms(8) q(2) by (simp add: valu_op_add)
  obtain t where t: "op_div (op_add s q) (of_u64 2) = Some t" "length t = WIDTH" "valu t = (valu s + valu q) div 2"
    using au.divide_ex[of "op_add s q" "of_u64 2"] Suc.prems q(2) by (auto simp: a length_of_u64 valu_of_u64)
  have "valu t < 2 ^ 118" using t(3) Suc.prems assms(8) \<open>valu q \<le> valu y\<close> by simp
  moreover have "R \<le> valu t"
    using newton_bounds[OF assms(3,4,5) Suc.prems(2), of 1] t(3) q(3) by simp
  ultimately show ?case using Suc.IH[OF t(2)] q t by simp
qed simp

lemma nat_sqrt_ex: "\<exists>R. R\<^sup>2 \<le> (y::nat) \<and> y < (R + 1)\<^sup>2"
proof (induction y)
  case (Suc y)
  then obtain R where R: "R\<^sup>2 \<le> y" "y < (R + 1)\<^sup>2" by blast
  show ?case
  proof (cases "Suc y < (R + 1)\<^sup>2")
    case True
    with R show ?thesis by (intro exI[of _ R]) simp
  next
    case False
    then have "Suc y = (R + 1)\<^sup>2" using R(2) by simp
    then show ?thesis by (intro exI[of _ "R + 1"]) (simp add: power2_eq_square)
  qed
qed (auto intro: exI[of _ 0])

lemma sqrt_ge_2:
  assumes "x \<noteq> 0" "unat (x::u64) * 10 ^ 16 < (R + 1)\<^sup>2"
  shows "2 \<le> R"
proof (rule ccontr)
  assume "\<not> 2 \<le> R"
  then have "(R + 1)\<^sup>2 \<le> 2\<^sup>2" by (intro power_mono) auto
  moreover have "1 \<le> unat x" using assms(1) unat_gt_0[of x] by simp
  ultimately show False using assms(2) by simp
qed

lemma half_ge_sqrt: "2 \<le> R \<Longrightarrow> R\<^sup>2 \<le> y \<Longrightarrow> R \<le> y div (2::nat)"
proof -
  assume "2 \<le> R" "R\<^sup>2 \<le> y"
  moreover from this have "R * 2 \<le> R\<^sup>2" by (simp add: power2_eq_square)
  ultimately show ?thesis by linarith
qed

lemma sqrt_uint_newton:
  assumes "x \<noteq> 0"
  shows "sqrt_uint x = Some (of_nat (newton SQRT_ITERATIONS (unat x * SCALE * SCALE) (unat x * SCALE * SCALE div 2)))"
proof -
  define y where "y = op_mul32 (op_mul32 (of_u64 x) (of_nat SCALE)) (of_nat SCALE)"
  have y: "length y = WIDTH" "valu y = unat x * SCALE * SCALE"
    by (simp_all add: y_def length_of_u64 num_scale2)
  have lt: "valu y < 2 ^ 118" using scaled_bound[of x] y by simp
  obtain R where R: "R\<^sup>2 \<le> valu y" "valu y < (R + 1)\<^sup>2" using nat_sqrt_ex by blast
  have R2: "2 \<le> R" using sqrt_ge_2[OF assms] R(2) y(2) by (simp add: SCALE_def)
  obtain s where s: "op_div y (of_u64 2) = Some s" "length s = WIDTH" "valu s = valu y div 2"
    using au.divide_ex[of y "of_u64 2"] y(1) by (auto simp: length_of_u64 valu_of_u64)
  have "R \<le> valu s" "valu s < 2 ^ 118"
    using half_ge_sqrt[OF R2 R(1)] le_less_trans[OF div_le_dividend lt, of 2] s(3) by simp_all
  then obtain r where "sqrt_loop SQRT_ITERATIONS y s = Some r" "length r = WIDTH"
      "valu r = newton SQRT_ITERATIONS (valu y) (valu s)"
    using sqrt_loop_newton[OF y(1) s(2) _ R, of SQRT_ITERATIONS] R2 lt s(3) by auto
  then show ?thesis
    using s y(2) unfolding sqrt_uint_def y_def [symmetric] by (simp add: au.low64_of_nat)
qed

lemma sqrt_uint_zero: "sqrt_uint 0 = None"
proof -
  define y where "y = op_mul32 (op_mul32 (of_u64 0) (of_nat SCALE)) (of_nat SCALE)"
  have y: "length y = WIDTH" "valu y = 0"
    unfolding y_def num_scale2 by (simp_all add: length_of_u64)
  obtain s where s: "op_div y (of_u64 2) = Some s" "length s = WIDTH" "valu s = 0"
    using au.divide_ex[of y "of_u64 2"] y by (auto simp: length_of_u64 valu_of_u64)
  have "sqrt_loop (Suc 59) y s = None"
    using au.divide_zero[OF y(1) s(2,3)] by (simp only: sqrt_loop.simps bind.bind_lzero)
  moreover have "Suc 59 = SQRT_ITERATIONS" by (simp add: SQRT_ITERATIONS_def)
  ultimately have "sqrt_loop SQRT_ITERATIONS y s = None" by (simp only:)
  then show ?thesis
    using s(1) unfolding sqrt_uint_def y_def [symmetric] by simp
qed

text \<open>The square root is never below the integer square root of the scaled argument, and at most one
  above it but for the distance the 60 iterations leave of the start value.\<close>

lemma sqrt_uint_bounds:
  assumes "x \<noteq> 0" "R\<^sup>2 \<le> unat x * 10 ^ 16" "unat x * 10 ^ 16 < (R + 1)\<^sup>2"
  shows "\<exists>r. sqrt_uint x = Some r \<and> R \<le> unat r \<and> unat r \<le> R + 1 + unat x * 10 ^ 16 div 2 ^ 61"
proof -
  define y where "y = unat x * 10 ^ 16"
  define r where "r = newton SQRT_ITERATIONS y (y div 2)"
  have R2: "2 \<le> R" using sqrt_ge_2[OF assms(1,3)] .
  have R: "R\<^sup>2 \<le> y" "y < (R + 1)\<^sup>2" "R \<le> y div 2"
    using assms half_ge_sqrt[OF R2, of y] by (simp_all only: y_def)
  have b: "R \<le> r" "r \<le> R + 1 + (y div 2 - (R + 1)) div 2 ^ 60"
    using newton_bounds[OF _ R, of SQRT_ITERATIONS] R2 unfolding r_def by (simp_all add: SQRT_ITERATIONS_def)
  have "(y div 2 - (R + 1)) div 2 ^ 60 \<le> y div 2 div 2 ^ 60" by (intro div_le_mono) simp
  also have "\<dots> = y div 2 ^ 61" by (simp add: div_mult2_eq [symmetric])
  finally have u: "r \<le> R + 1 + y div 2 ^ 61" using b(2) by linarith
  have lt: "y < 2 ^ 118" using scaled_bound(2)[of x] by (simp add: y_def SCALE_def)
  then have "R\<^sup>2 < (2 ^ 59)\<^sup>2" using R(1) by simp
  then have "R < 2 ^ 59" by (rule power_less_imp_less_base) simp
  moreover have "y div 2 ^ 61 < 2 ^ 57" using lt by (intro less_mult_imp_div_less) simp
  ultimately have "unat (of_nat r :: u64) = r" using u by (simp add: unat_of_nat)
  moreover have "sqrt_uint x = Some (of_nat r)"
  proof -
    have "unat x * SCALE * SCALE = y" by (simp add: y_def SCALE_def)
    then show ?thesis using sqrt_uint_newton[OF assms(1)] by (simp only: r_def)
  qed
  ultimately show ?thesis using b(1) u by (simp add: y_def)
qed

end
