(* ===== verification/Primitives.thy ===== *)
theory Primitives
  imports ArithDivision
begin

unbundle bit_operations_syntax

section \<open>Transactions, votes and public keys\<close>

text \<open>
  The data the finalization code reads: transaction types (\<^verbatim>\<open>primitives/txtype.h\<close>), transactions
  (\<^verbatim>\<open>primitives/transaction.h\<close>), amounts (\<^verbatim>\<open>amount.h\<close>), public keys (\<^verbatim>\<open>pubkey.h\<close>), votes
  (\<^verbatim>\<open>esperanza/vote.h\<close>).

  \<^item> A \<^verbatim>\<open>uint160\<close> or \<^verbatim>\<open>uint256\<close> is the word whose big endian bytes are the byte array of the object, so
    the \<^verbatim>\<open>memcmp\<close> order of the sources is the order of the words.
  \<^item> The hash of a transaction is a field of it, as in the sources, where it is computed at construction.
  \<^item> A \<^verbatim>\<open>CPubKey\<close> is the list of the bytes of its array that have been written; reading a byte beyond
    them is a read of uninitialised memory and ends the operation with \<^const>\<open>None\<close>.
  \<^item> \<^verbatim>\<open>Hash160\<close> is a parameter of the operations that use it.
\<close>

type_synonym bytes = "u8 list"

subsection \<open>Byte arrays\<close>

fun be_bytes :: "nat \<Rightarrow> 'a::len word \<Rightarrow> bytes" where
  "be_bytes 0 w = []"
| "be_bytes (Suc n) w = be_bytes n (drop_bit 8 w) @ [ucast w]"

definition of_be :: "bytes \<Rightarrow> 'a::len word" where
  "of_be bs = foldl (\<lambda>acc b. push_bit 8 acc OR ucast b) 0 bs"

definition uint160_of_bytes :: "bytes \<Rightarrow> u160" where
  "uint160_of_bytes = of_be"

definition uint256_of_bytes :: "bytes \<Rightarrow> u256" where
  "uint256_of_bytes = of_be"

definition bytes_of_uint160 :: "u160 \<Rightarrow> bytes" where
  "bytes_of_uint160 = be_bytes 20"

definition bytes_of_uint256 :: "u256 \<Rightarrow> bytes" where
  "bytes_of_uint256 = be_bytes 32"

subsection \<open>Amounts\<close>

definition UNIT :: amount where
  "UNIT = 100000000"

definition MAX_MONEY :: amount where
  "MAX_MONEY = 2718275100 * UNIT"

definition MoneyRange :: "amount \<Rightarrow> bool" where
  "MoneyRange nValue \<longleftrightarrow> 0 \<le> sint nValue \<and> sint nValue \<le> sint MAX_MONEY"

subsection \<open>Transactions\<close>

datatype TxType = REGULAR | COINBASE | DEPOSIT | VOTE | LOGOUT | SLASH | WITHDRAW | ADMIN

definition TxTypes :: "TxType list" where
  "TxTypes = [REGULAR, COINBASE, DEPOSIT, VOTE, LOGOUT, SLASH, WITHDRAW, ADMIN]"

record COutPoint =
  out_hash :: u256
  out_n :: u32

definition COutPoint_less :: "COutPoint \<Rightarrow> COutPoint \<Rightarrow> bool" where
  "COutPoint_less a b \<longleftrightarrow> out_hash a < out_hash b \<or> (out_hash a = out_hash b \<and> out_n a < out_n b)"

definition COutPoint_IsNull :: "COutPoint \<Rightarrow> bool" where
  "COutPoint_IsNull o1 \<longleftrightarrow> out_hash o1 = 0 \<and> out_n o1 = - 1"

record CTxIn =
  prevout :: COutPoint
  scriptSig :: bytes
  nSequence :: u32
  scriptWitness :: "bytes list"

record CTxOut =
  nValue :: amount
  scriptPubKey :: bytes

record CTransaction =
  vin :: "CTxIn list"
  vout :: "CTxOut list"
  nVersion :: u32
  nLockTime :: u32
  tx_hash :: u256

text \<open>\<^verbatim>\<open>_from_index_unchecked\<close> reads the table of enumerators at the given index; an index past its end
  is a read out of bounds, \<^const>\<open>None\<close>.\<close>

definition GetType :: "CTransaction \<Rightarrow> TxType option" where
  "GetType tx = (let i = unat (drop_bit 16 (nVersion tx)) in if i < length TxTypes then Some (TxTypes ! i) else None)"

definition GetVersion :: "CTransaction \<Rightarrow> 16 word" where
  "GetVersion tx = ucast (nVersion tx)"

fun IsFinalizerCommit_type :: "TxType \<Rightarrow> bool" where
  "IsFinalizerCommit_type DEPOSIT = True"
| "IsFinalizerCommit_type VOTE = True"
| "IsFinalizerCommit_type LOGOUT = True"
| "IsFinalizerCommit_type SLASH = True"
| "IsFinalizerCommit_type WITHDRAW = True"
| "IsFinalizerCommit_type ADMIN = True"
| "IsFinalizerCommit_type REGULAR = False"
| "IsFinalizerCommit_type COINBASE = False"

definition IsFinalizerCommit :: "CTransaction \<Rightarrow> bool option" where
  "IsFinalizerCommit tx = map_option IsFinalizerCommit_type (GetType tx)"

definition HasWitness :: "CTransaction \<Rightarrow> bool" where
  "HasWitness tx \<longleftrightarrow> list_ex (\<lambda>i. scriptWitness i \<noteq> []) (vin tx)"

definition TxType_code :: "TxType \<Rightarrow> 16 word" where
  "TxType_code t = (case t of REGULAR \<Rightarrow> 0 | COINBASE \<Rightarrow> 1 | DEPOSIT \<Rightarrow> 2 | VOTE \<Rightarrow> 3 | LOGOUT \<Rightarrow> 4
     | SLASH \<Rightarrow> 5 | WITHDRAW \<Rightarrow> 6 | ADMIN \<Rightarrow> 7)"

definition SetType :: "TxType \<Rightarrow> CTransaction \<Rightarrow> CTransaction" where
  "SetType t tx = tx\<lparr>nVersion := (nVersion tx AND 0x0000FFFF) OR push_bit 16 (ucast (TxType_code t))\<rparr>"

definition SetVersion :: "16 word \<Rightarrow> CTransaction \<Rightarrow> CTransaction" where
  "SetVersion v tx = tx\<lparr>nVersion := (nVersion tx AND 0xFFFF0000) OR ucast v\<rparr>"

text \<open>The loop of \<^verbatim>\<open>CTransaction::GetValueOut\<close>; \<^const>\<open>None\<close> is the thrown \<^verbatim>\<open>runtime_error\<close>.\<close>

fun GetValueOut_loop :: "amount \<Rightarrow> CTxOut list \<Rightarrow> amount option" where
  "GetValueOut_loop nValueOut [] = Some nValueOut"
| "GetValueOut_loop nValueOut (tx_out # r) =
     (let nValueOut = nValueOut + nValue tx_out in
      if \<not> MoneyRange (nValue tx_out) \<or> \<not> MoneyRange nValueOut then None
      else GetValueOut_loop nValueOut r)"

definition GetValueOut :: "CTransaction \<Rightarrow> amount option" where
  "GetValueOut tx = GetValueOut_loop 0 (vout tx)"

subsection \<open>Votes\<close>

text \<open>The field \<open>v_validator_address\<close> is \<^verbatim>\<open>Vote::m_validator_address\<close>.\<close>

record Vote =
  v_validator_address :: u160
  m_target_hash :: u256
  m_source_epoch :: u32
  m_target_epoch :: u32

subsection \<open>Public keys\<close>

type_synonym CPubKey = bytes

definition GetLen :: "u8 \<Rightarrow> nat" where
  "GetLen chHeader = (if chHeader = 2 \<or> chHeader = 3 then 33
     else if chHeader = 4 \<or> chHeader = 6 \<or> chHeader = 7 then 65 else 0)"

definition ValidSize :: "bytes \<Rightarrow> bool" where
  "ValidSize vch \<longleftrightarrow> length vch > 0 \<and> GetLen (vch ! 0) = length vch"

text \<open>The default constructor, which only writes the first byte, and \<^verbatim>\<open>Set\<close>.\<close>

definition CPubKey_invalid :: CPubKey where
  "CPubKey_invalid = [0xFF]"

definition CPubKey_of :: "bytes \<Rightarrow> CPubKey" where
  "CPubKey_of p = (let len = (if p = [] then 0 else GetLen (p ! 0))
     in if len \<noteq> 0 \<and> len = length p then p else CPubKey_invalid)"

definition pubkey_size :: "CPubKey \<Rightarrow> nat" where
  "pubkey_size k = GetLen (k ! 0)"

definition pubkey_IsValid :: "CPubKey \<Rightarrow> bool" where
  "pubkey_IsValid k \<longleftrightarrow> pubkey_size k > 0"

definition pubkey_IsCompressed :: "CPubKey \<Rightarrow> bool" where
  "pubkey_IsCompressed k \<longleftrightarrow> pubkey_size k = 33"

definition pubkey_data :: "CPubKey \<Rightarrow> bytes option" where
  "pubkey_data k = (if length k < pubkey_size k then None else Some (take (pubkey_size k) k))"

definition GetID :: "(bytes \<Rightarrow> u160) \<Rightarrow> CPubKey \<Rightarrow> u160 option" where
  "GetID Hash160 k = map_option Hash160 (pubkey_data k)"

definition pubkey_eq :: "CPubKey \<Rightarrow> CPubKey \<Rightarrow> bool option" where
  "pubkey_eq a b =
     (if a ! 0 \<noteq> b ! 0 then Some False
      else do { x \<leftarrow> pubkey_data a; y \<leftarrow> pubkey_data b; Some (x = y) })"

subsection \<open>Lemmas on byte arrays\<close>

lemma length_be_bytes [simp]: "length (be_bytes n w) = n"
  by (induction n arbitrary: w) auto

lemma of_be_snoc: "of_be (bs @ [b]) = push_bit 8 (of_be bs) OR ucast b"
  by (simp add: of_be_def)

lemma of_be_be_bytes: "of_be (be_bytes n w) = take_bit (8 * n) (w :: 'a::len word)" if "8 \<le> LENGTH('a)"
proof (induction n arbitrary: w)
  case (Suc n)
  show ?case
  proof (rule bit_word_eqI)
    fix i assume "i < LENGTH('a)"
    then show "bit (of_be (be_bytes (Suc n) w) :: 'a word) i = bit (take_bit (8 * Suc n) w) i"
      using that
      by (auto simp: of_be_snoc Suc.IH bit_or_iff bit_push_bit_iff bit_take_bit_iff bit_drop_bit_eq bit_ucast_iff)
  qed
qed (simp add: of_be_def)

lemma uint160_roundtrip [simp]: "uint160_of_bytes (bytes_of_uint160 a) = a"
  by (simp add: uint160_of_bytes_def bytes_of_uint160_def of_be_be_bytes take_bit_word_eq_self)

lemma uint256_roundtrip [simp]: "uint256_of_bytes (bytes_of_uint256 a) = a"
  by (simp add: uint256_of_bytes_def bytes_of_uint256_def of_be_be_bytes take_bit_word_eq_self)

lemma length_bytes_of_uint160 [simp]: "length (bytes_of_uint160 a) = 20"
  by (simp add: bytes_of_uint160_def)

lemma length_bytes_of_uint256 [simp]: "length (bytes_of_uint256 a) = 32"
  by (simp add: bytes_of_uint256_def)

lemma GetLen_pos: "GetLen h \<noteq> 0 \<Longrightarrow> GetLen h = 33 \<or> GetLen h = 65"
  by (simp add: GetLen_def split: if_splits)

text \<open>A key built from a byte vector is either entirely initialised or invalid, so it always has an
  identifier.\<close>

lemma pubkey_data_CPubKey_of: "pubkey_data (CPubKey_of p) = Some (if ValidSize p then p else [])"
  by (auto simp: pubkey_data_def CPubKey_of_def pubkey_size_def CPubKey_invalid_def ValidSize_def Let_def GetLen_def)

lemma GetID_CPubKey_of: "GetID h (CPubKey_of p) = Some (h (if ValidSize p then p else []))"
  by (simp add: GetID_def pubkey_data_CPubKey_of)

subsection \<open>Transaction types and versions\<close>

lemma GetType_SetType: "GetType (SetType t tx) = Some t"
proof -
  have c: "unat (TxType_code t) < 8" by (cases t) (simp_all add: TxType_code_def)
  have "drop_bit 16 ((nVersion tx AND 0x0000FFFF) OR push_bit 16 (ucast (TxType_code t) :: u32)) = ucast (TxType_code t)"
  proof (rule bit_word_eqI)
    fix n assume "n < LENGTH(32)"
    have m: "(0xFFFF :: u32) = mask 16" by (simp add: mask_numeral)
    show "bit (drop_bit 16 ((nVersion tx AND 0x0000FFFF) OR push_bit 16 (ucast (TxType_code t) :: u32))) n
        = bit (ucast (TxType_code t) :: u32) n"
      unfolding m
      by (auto simp: bit_drop_bit_eq bit_or_iff bit_and_iff bit_push_bit_iff bit_mask_iff bit_ucast_iff dest: bit_imp_le_length)
  qed
  moreover have "unat (ucast (TxType_code t) :: u32) = unat (TxType_code t)"
    by (cases t) (simp_all add: TxType_code_def)
  moreover have "TxTypes ! unat (TxType_code t) = t"
    by (cases t) (simp_all add: TxType_code_def TxTypes_def)
  ultimately show ?thesis using c by (simp add: GetType_def SetType_def TxTypes_def)
qed

lemma sint_MAX_MONEY: "sint MAX_MONEY = 271827510000000000"
  by (simp add: MAX_MONEY_def UNIT_def)

lemma sint_add_money: "MoneyRange a \<Longrightarrow> MoneyRange b \<Longrightarrow> sint (a + b) = sint a + sint b"
  by (simp add: MoneyRange_def sint_MAX_MONEY sint_word_ariths signed_take_bit_int_eq_self)

lemma GetValueOut_loop_range:
  "GetValueOut_loop a os = Some v \<Longrightarrow> MoneyRange a \<Longrightarrow>
   MoneyRange v \<and> list_all (\<lambda>x. MoneyRange (nValue x)) os \<and> sint v = sint a + (\<Sum>x\<leftarrow>os. sint (nValue x))"
  by (induction a os rule: GetValueOut_loop.induct) (auto simp: Let_def sint_add_money split: if_splits)

end
