(* ===== verification/Script.thy ===== *)
theory Script
  imports Primitives
begin

unbundle bit_operations_syntax

section \<open>Scripts\<close>

text \<open>
  The parts of \<^verbatim>\<open>script/script.h\<close>, \<^verbatim>\<open>script/script.cpp\<close> the finalization and staking code uses: reading
  and appending operations, script numbers, the fixed script templates, witness programs, and the
  encoding of votes. A \<^verbatim>\<open>CScript\<close> is its byte list, an iterator \<^verbatim>\<open>pc\<close> into it is the list of the bytes
  from \<^verbatim>\<open>pc\<close> to the end. Where the sources leave a result undefined (a shift by the width of the type)
  the definition ends with \<^const>\<open>None\<close>.
\<close>

abbreviation (input) OP_0 :: u8 where "OP_0 \<equiv> 0x00"
abbreviation (input) OP_PUSHDATA1 :: u8 where "OP_PUSHDATA1 \<equiv> 0x4c"
abbreviation (input) OP_PUSHDATA2 :: u8 where "OP_PUSHDATA2 \<equiv> 0x4d"
abbreviation (input) OP_PUSHDATA4 :: u8 where "OP_PUSHDATA4 \<equiv> 0x4e"
abbreviation (input) OP_1 :: u8 where "OP_1 \<equiv> 0x51"
abbreviation (input) OP_TRUE :: u8 where "OP_TRUE \<equiv> 0x51"
abbreviation (input) OP_2 :: u8 where "OP_2 \<equiv> 0x52"
abbreviation (input) OP_16 :: u8 where "OP_16 \<equiv> 0x60"
abbreviation (input) OP_IF :: u8 where "OP_IF \<equiv> 0x63"
abbreviation (input) OP_ELSE :: u8 where "OP_ELSE \<equiv> 0x67"
abbreviation (input) OP_ENDIF :: u8 where "OP_ENDIF \<equiv> 0x68"
abbreviation (input) OP_RETURN :: u8 where "OP_RETURN \<equiv> 0x6a"
abbreviation (input) OP_DUP :: u8 where "OP_DUP \<equiv> 0x76"
abbreviation (input) OP_EQUAL :: u8 where "OP_EQUAL \<equiv> 0x87"
abbreviation (input) OP_EQUALVERIFY :: u8 where "OP_EQUALVERIFY \<equiv> 0x88"
abbreviation (input) OP_HASH160 :: u8 where "OP_HASH160 \<equiv> 0xa9"
abbreviation (input) OP_CHECKSIG :: u8 where "OP_CHECKSIG \<equiv> 0xac"
abbreviation (input) OP_CHECKSIGVERIFY :: u8 where "OP_CHECKSIGVERIFY \<equiv> 0xad"
abbreviation (input) OP_CHECKMULTISIG :: u8 where "OP_CHECKMULTISIG \<equiv> 0xae"
abbreviation (input) OP_CHECKMULTISIGVERIFY :: u8 where "OP_CHECKMULTISIGVERIFY \<equiv> 0xaf"
abbreviation (input) OP_CHECKCOMMIT :: u8 where "OP_CHECKCOMMIT \<equiv> 0xb3"
abbreviation (input) MAX_OPCODE :: u8 where "MAX_OPCODE \<equiv> 0xb9"
abbreviation (input) OP_INVALIDOPCODE :: u8 where "OP_INVALIDOPCODE \<equiv> 0xff"

definition MAX_SCRIPT_ELEMENT_SIZE :: nat where
  "MAX_SCRIPT_ELEMENT_SIZE = 520"

definition MAX_PUBKEYS_PER_MULTISIG :: nat where
  "MAX_PUBKEYS_PER_MULTISIG = 20"

subsection \<open>Reading operations\<close>

text \<open>\<^verbatim>\<open>ReadLE16\<close> and \<^verbatim>\<open>WriteLE16\<close> on two bytes.\<close>

definition ReadLE16 :: "bytes \<Rightarrow> 16 word" where
  "ReadLE16 p = ucast (p ! 0) OR push_bit 8 (ucast (p ! 1))"

definition WriteLE16 :: "16 word \<Rightarrow> bytes" where
  "WriteLE16 x = [ucast x, ucast (drop_bit 8 x)]"

text \<open>The size of the operand of a push opcode and the position behind it; \<^const>\<open>None\<close> when the size
  field is cut off, in which case \<^verbatim>\<open>pc\<close> stays behind the opcode.\<close>

definition push_size :: "u8 \<Rightarrow> bytes \<Rightarrow> (nat \<times> bytes) option" where
  "push_size opcode pc =
     (if opcode < OP_PUSHDATA1 then Some (unat opcode, pc)
      else if opcode = OP_PUSHDATA1 then
        (if length pc < 1 then None else Some (unat (pc ! 0), drop 1 pc))
      else if opcode = OP_PUSHDATA2 then
        (if length pc < 2 then None else Some (unat (ReadLE16 (take 2 pc)), drop 2 pc))
      else
        (if length pc < 4 then None else Some (unat (ReadLE32 (take 4 pc)), drop 4 pc)))"

text \<open>\<^verbatim>\<open>GetScriptOp\<close>: whether an operation was read, its opcode, its operand, and the new \<^verbatim>\<open>pc\<close>, which
  has moved also when the operation is cut off.\<close>

fun GetScriptOp :: "bytes \<Rightarrow> bool \<times> u8 \<times> bytes \<times> bytes" where
  "GetScriptOp [] = (False, OP_INVALIDOPCODE, [], [])"
| "GetScriptOp (opcode # pc) =
     (if opcode \<le> OP_PUSHDATA4 then
        (case push_size opcode pc of
           None \<Rightarrow> (False, OP_INVALIDOPCODE, [], pc)
         | Some (nSize, pc1) \<Rightarrow>
             if length pc1 < nSize then (False, OP_INVALIDOPCODE, [], pc1)
             else (True, opcode, take nSize pc1, drop nSize pc1))
      else (True, opcode, [], pc))"

subsection \<open>Script numbers\<close>

function abs_bytes :: "u64 \<Rightarrow> bytes" where
  "abs_bytes absvalue = (if absvalue = 0 then [] else ucast (absvalue AND 0xff) # abs_bytes (drop_bit 8 absvalue))"
  by auto

termination abs_bytes
proof (relation "measure unat")
  fix a :: u64
  assume "a \<noteq> 0"
  then have "0 < unat a" by (simp add: unat_gt_0)
  moreover have "unat (drop_bit 8 a) = unat a div 2 ^ 8"
    using u64_bound[of a] unfolding unsigned_drop_bit_eq unfolding drop_bit_eq_div by (simp add: take_bit_nat_eq_self)
  ultimately show "(drop_bit 8 a, a) \<in> measure unat" by simp
qed simp

declare abs_bytes.simps [simp del]

definition serialize :: "u64 \<Rightarrow> bytes" where
  "serialize value =
     (if value = 0 then []
      else (let neg = sint value < 0;
                result = abs_bytes (if neg then - value else value)
            in if last result AND 0x80 \<noteq> 0 then result @ [if neg then 0x80 else 0]
               else if neg then butlast result @ [last result OR 0x80]
               else result))"

definition set_vch_bits :: "bytes \<Rightarrow> u64" where
  "set_vch_bits vch = fold (\<lambda>i result. result OR push_bit (8 * i) (ucast (vch ! i))) [0..<min (length vch) 8] 0"

text \<open>The result of \<^verbatim>\<open>set_vch\<close> is an \<^verbatim>\<open>int64_t\<close>. For nine bytes the mask of the negative branch is a
  shift by 64.\<close>

definition set_vch :: "bytes \<Rightarrow> u64 option" where
  "set_vch vch =
     (if vch = [] then Some 0
      else (let result = set_vch_bits vch in
        if last vch AND 0x80 \<noteq> 0 then
          (if result = push_bit 63 1 then Some (push_bit 63 1)
           else if 64 \<le> 8 * (length vch - 1) then None
           else Some (- (result AND NOT (push_bit (8 * (length vch - 1)) 0x80))))
        else Some result))"

text \<open>\<^verbatim>\<open>deserialize\<close> at \<^verbatim>\<open>uint32_t\<close>: the inner option is whether it returns true.\<close>

definition deserialize_u32 :: "bytes \<Rightarrow> u32 option option" where
  "deserialize_u32 vch =
     (if length vch > 8 \<and> (last vch AND 0x80 = 0 \<or> length vch \<noteq> 9) then Some None
      else do {
        num \<leftarrow> set_vch vch;
        Some (if sint num > 2 ^ 32 - 1 then None
              else if sint num < 0 then None
              else Some (ucast num))
      })"

subsection \<open>Appending operations\<close>

definition push_data :: "bytes \<Rightarrow> bytes" where
  "push_data b =
     (if length b < 0x4c then [of_nat (length b)]
      else if length b \<le> 0xff then [OP_PUSHDATA1, of_nat (length b)]
      else if length b \<le> 0xffff then OP_PUSHDATA2 # WriteLE16 (of_nat (length b))
      else OP_PUSHDATA4 # WriteLE32 (of_nat (length b))) @ b"

definition push_int64 :: "u64 \<Rightarrow> bytes" where
  "push_int64 n =
     (if n = - 1 \<or> (1 \<le> sint n \<and> sint n \<le> 16) then [ucast (n + (ucast OP_1 - 1))]
      else if n = 0 then [OP_0]
      else push_data (serialize n))"

definition DecodeOP_N :: "u8 \<Rightarrow> nat option" where
  "DecodeOP_N opcode = (if opcode = OP_0 then Some 0
     else do { require (OP_1 \<le> opcode \<and> opcode \<le> OP_16); Some (unat opcode - (unat OP_1 - 1)) })"

definition EncodeOP_N :: "nat \<Rightarrow> u8 option" where
  "EncodeOP_N n = do { require (n \<le> 16); Some (if n = 0 then OP_0 else OP_1 + of_nat n - 1) }"

subsection \<open>Templates\<close>

definition IsPayToPublicKeyHash :: "bytes \<Rightarrow> bool" where
  "IsPayToPublicKeyHash s \<longleftrightarrow> length s = 25 \<and> s ! 0 = OP_DUP \<and> s ! 1 = OP_HASH160 \<and> s ! 2 = 0x14 \<and>
     s ! 23 = OP_EQUALVERIFY \<and> s ! 24 = OP_CHECKSIG"

text \<open>The size difference is one of unsigned 64 bit numbers.\<close>

definition MatchPayToPublicKeyHash :: "nat \<Rightarrow> bytes \<Rightarrow> bool" where
  "MatchPayToPublicKeyHash ofs s \<longleftrightarrow> unat (of_nat (length s) - of_nat ofs :: u64) \<ge> 25 \<and>
     s ! (ofs + 0) = OP_DUP \<and> s ! (ofs + 1) = OP_HASH160 \<and> s ! (ofs + 2) = 0x14 \<and>
     s ! (ofs + 23) = OP_EQUALVERIFY \<and> s ! (ofs + 24) = OP_CHECKSIG"

definition MatchFinalizerCommitScript :: "nat \<Rightarrow> bytes \<Rightarrow> bool" where
  "MatchFinalizerCommitScript ofs s \<longleftrightarrow>
     (of_nat (length s) - of_nat ofs :: u64) = 64 \<and> s ! (ofs + 0) = 0x21 \<and> s ! (ofs + 34) = OP_CHECKCOMMIT \<and>
     s ! (ofs + 35) = OP_IF \<and> s ! (ofs + 36) = OP_TRUE \<and> s ! (ofs + 37) = OP_ELSE \<and>
     MatchPayToPublicKeyHash 38 s \<and> s ! (ofs + 63) = OP_ENDIF"

definition IsFinalizerCommitScript :: "bytes \<Rightarrow> bool" where
  "IsFinalizerCommitScript s = MatchFinalizerCommitScript 0 s"

definition IsPayToScriptHash :: "bytes \<Rightarrow> bool" where
  "IsPayToScriptHash s \<longleftrightarrow> length s = 23 \<and> s ! 0 = OP_HASH160 \<and> s ! 1 = 0x14 \<and> s ! 22 = OP_EQUAL"

definition IsPayToWitnessScriptHash :: "bytes \<Rightarrow> bool" where
  "IsPayToWitnessScriptHash s \<longleftrightarrow> length s = 34 \<and> s ! 0 = OP_0 \<and> s ! 1 = 0x20"

definition IsPayToWitnessPublicKeyHash :: "bytes \<Rightarrow> bool" where
  "IsPayToWitnessPublicKeyHash s \<longleftrightarrow> length s = 22 \<and> s ! 0 = OP_0 \<and> s ! 1 = 0x14"

definition CreateFinalizerCommitScript :: "(bytes \<Rightarrow> u160) \<Rightarrow> CPubKey \<Rightarrow> bytes option" where
  "CreateFinalizerCommitScript Hash160 pubkey = do {
     key \<leftarrow> pubkey_data pubkey;
     keyid \<leftarrow> GetID Hash160 pubkey;
     Some (push_data key @ [OP_CHECKCOMMIT] @ [OP_IF] @ [OP_TRUE] @ [OP_ELSE] @ [OP_DUP] @ [OP_HASH160] @
       push_data (bytes_of_uint160 keyid) @ [OP_EQUALVERIFY] @ [OP_CHECKSIG] @ [OP_ENDIF])
   }"

definition CreateUnspendableScript :: bytes where
  "CreateUnspendableScript = [OP_RETURN]"

definition CreateP2PKHScript :: "bytes \<Rightarrow> bytes" where
  "CreateP2PKHScript publicKeyHash = [OP_DUP] @ [OP_HASH160] @ push_data publicKeyHash @ [OP_EQUALVERIFY] @ [OP_CHECKSIG]"

definition CreateRemoteStakingKeyhashScript :: "bytes \<Rightarrow> bytes \<Rightarrow> bytes option" where
  "CreateRemoteStakingKeyhashScript staking_key_hash spending_key_hash = do {
     require (length staking_key_hash = 20);
     require (length spending_key_hash = 32);
     Some ([OP_1] @ push_data staking_key_hash @ push_data spending_key_hash)
   }"

definition CreateRemoteStakingScripthashScript :: "bytes \<Rightarrow> bytes \<Rightarrow> bytes option" where
  "CreateRemoteStakingScripthashScript staking_key_hash spending_script_hash = do {
     require (length staking_key_hash = 20);
     require (length spending_script_hash = 32);
     Some ([OP_2] @ push_data staking_key_hash @ push_data spending_script_hash)
   }"

lemma push_size_length: "push_size opcode pc = Some (n, pc1) \<Longrightarrow> length pc1 \<le> length pc"
  by (auto simp: push_size_def split: if_splits)

lemma GetScriptOp_length: "pc \<noteq> [] \<Longrightarrow> GetScriptOp pc = (ok, opcode, data, pc1) \<Longrightarrow> length pc1 < length pc"
  by (cases pc) (auto split: if_splits option.splits dest!: push_size_length)

lemma GetScriptOp_ok_length: "(ok, opcode, data, pc1) = GetScriptOp pc \<Longrightarrow> ok \<Longrightarrow> length pc1 < length pc"
  using GetScriptOp_length[of pc ok opcode data pc1] by (cases pc) auto

subsection \<open>Loops over a script\<close>

text \<open>The \<^verbatim>\<open>do ... while\<close> loop of \<^verbatim>\<open>IsWitnessProgram\<close> over the data pushes; \<open>pc\<close> is never empty when the
  loop is entered again.\<close>

function witness_pushes :: "bytes \<Rightarrow> bool" where
  "witness_pushes pc =
     (case GetScriptOp pc of (ok, opcode, _, pc1) \<Rightarrow>
        if \<not> ok \<or> opcode = OP_0 \<or> opcode > 40 then False
        else if pc1 = [] then True else witness_pushes pc1)"
  by auto

termination witness_pushes
  by (relation "measure length") (auto dest: GetScriptOp_ok_length)

declare witness_pushes.simps [simp del]

definition IsWitnessProgram :: "bytes \<Rightarrow> bool" where
  "IsWitnessProgram s =
     (if length s < 4 \<or> length s > 83 then False
      else (case GetScriptOp s of (ok, opcode, _, pc) \<Rightarrow>
        if \<not> ok then False
        else if opcode \<noteq> OP_0 \<and> (opcode < OP_1 \<or> opcode > OP_16) then False
        else if opcode = OP_0 then unat (s ! 1) + 2 = length s
        else witness_pushes pc))"

record WitnessProgram =
  wp_version :: nat
  wp_program :: "bytes list"

function witness_data :: "bytes \<Rightarrow> bytes list option" where
  "witness_data pc =
     (case GetScriptOp pc of (ok, opcode, data, pc1) \<Rightarrow>
        if \<not> ok then None
        else if pc1 = [] then Some [data] else map_option ((#) data) (witness_data pc1))"
  by auto

termination witness_data
  by (relation "measure length") (auto dest: GetScriptOp_ok_length)

declare witness_data.simps [simp del]

text \<open>The outer option is the assertion of \<^verbatim>\<open>DecodeOP_N\<close>, the inner one whether the function returns true.\<close>

definition ExtractWitnessProgram :: "bytes \<Rightarrow> WitnessProgram option option" where
  "ExtractWitnessProgram s =
     (if \<not> IsWitnessProgram s then Some None
      else (case GetScriptOp s of (ok, opcode, _, pc) \<Rightarrow>
        if \<not> ok then Some None
        else do {
          version \<leftarrow> DecodeOP_N opcode;
          Some (map_option (\<lambda>p. \<lparr>wp_version = version, wp_program = p\<rparr>) (witness_data pc))
        }))"

definition wp_IsPayToScriptHash :: "WitnessProgram \<Rightarrow> bool" where
  "wp_IsPayToScriptHash w \<longleftrightarrow> wp_version w = 0 \<and> length (wp_program w) = 1 \<and> length (wp_program w ! 0) = 32"

definition wp_IsPayToPubkeyHash :: "WitnessProgram \<Rightarrow> bool" where
  "wp_IsPayToPubkeyHash w \<longleftrightarrow> wp_version w = 0 \<and> length (wp_program w) = 1 \<and> length (wp_program w ! 0) = 20"

definition IsRemoteStakingP2WPKH :: "WitnessProgram \<Rightarrow> bool" where
  "IsRemoteStakingP2WPKH w \<longleftrightarrow> wp_version w = 1 \<and> length (wp_program w) = 2 \<and>
     length (wp_program w ! 0) = 20 \<and> length (wp_program w ! 1) = 32"

definition IsRemoteStakingP2WSH :: "WitnessProgram \<Rightarrow> bool" where
  "IsRemoteStakingP2WSH w \<longleftrightarrow> wp_version w = 2 \<and> length (wp_program w) = 2 \<and>
     length (wp_program w ! 0) = 20 \<and> length (wp_program w ! 1) = 32"

definition IsRemoteStaking :: "WitnessProgram \<Rightarrow> bool" where
  "IsRemoteStaking w \<longleftrightarrow> IsRemoteStakingP2WPKH w \<or> IsRemoteStakingP2WSH w"

function IsPushOnly :: "bytes \<Rightarrow> bool" where
  "IsPushOnly pc =
     (if pc = [] then True
      else (case GetScriptOp pc of (ok, opcode, _, pc1) \<Rightarrow>
        if \<not> ok then False else if opcode > OP_16 then False else IsPushOnly pc1))"
  by auto

termination IsPushOnly
  by (relation "measure length") (auto dest: GetScriptOp_ok_length)

declare IsPushOnly.simps [simp del]

function HasValidOps :: "bytes \<Rightarrow> bool" where
  "HasValidOps it =
     (if it = [] then True
      else (case GetScriptOp it of (ok, opcode, item, pc1) \<Rightarrow>
        if \<not> ok \<or> opcode > MAX_OPCODE \<or> length item > MAX_SCRIPT_ELEMENT_SIZE then False
        else HasValidOps pc1))"
  by auto

termination HasValidOps
  by (relation "measure length") (auto dest: GetScriptOp_ok_length)

declare HasValidOps.simps [simp del]

text \<open>The loop of \<^verbatim>\<open>GetSigOpCount(bool)\<close>, with \<open>lastOpcode\<close> and the running count. The test on
  \<^verbatim>\<open>lastOpcode\<close> implies the assertion of \<^verbatim>\<open>DecodeOP_N\<close>.\<close>

function sigop_loop :: "bool \<Rightarrow> u8 \<Rightarrow> nat \<Rightarrow> bytes \<Rightarrow> nat option" where
  "sigop_loop fAccurate lastOpcode n pc =
     (if pc = [] then Some n
      else (case GetScriptOp pc of (ok, opcode, _, pc1) \<Rightarrow>
        if \<not> ok then Some n
        else if opcode = OP_CHECKSIG \<or> opcode = OP_CHECKSIGVERIFY then sigop_loop fAccurate opcode (n + 1) pc1
        else if opcode = OP_CHECKMULTISIG \<or> opcode = OP_CHECKMULTISIGVERIFY then
          (if fAccurate \<and> OP_1 \<le> lastOpcode \<and> lastOpcode \<le> OP_16
           then Option.bind (DecodeOP_N lastOpcode) (\<lambda>k. sigop_loop fAccurate opcode (n + k) pc1)
           else sigop_loop fAccurate opcode (n + MAX_PUBKEYS_PER_MULTISIG) pc1)
        else sigop_loop fAccurate opcode n pc1))"
  by auto

termination sigop_loop
  by (relation "measure (\<lambda>(_, _, _, pc). length pc)") (auto dest: GetScriptOp_ok_length)

declare sigop_loop.simps [simp del]

definition GetSigOpCount :: "bool \<Rightarrow> bytes \<Rightarrow> nat option" where
  "GetSigOpCount fAccurate s = sigop_loop fAccurate OP_INVALIDOPCODE 0 s"

text \<open>The loop of \<^verbatim>\<open>GetSigOpCount(scriptSig)\<close> finds the last pushed item; the inner \<^const>\<open>None\<close> is the
  early \<^verbatim>\<open>return 0\<close>.\<close>

function last_push :: "bytes \<Rightarrow> bytes \<Rightarrow> bytes option" where
  "last_push vData pc =
     (if pc = [] then Some vData
      else (case GetScriptOp pc of (ok, opcode, vData1, pc1) \<Rightarrow>
        if \<not> ok then None else if opcode > OP_16 then None else last_push vData1 pc1))"
  by auto

termination last_push
  by (relation "measure (\<lambda>(_, pc). length pc)") (auto dest: GetScriptOp_ok_length)

declare last_push.simps [simp del]

definition GetSigOpCount_sig :: "bytes \<Rightarrow> bytes \<Rightarrow> nat option" where
  "GetSigOpCount_sig script sig =
     (if \<not> IsPayToScriptHash script then GetSigOpCount True script
      else (case last_push [] sig of None \<Rightarrow> Some 0 | Some vData \<Rightarrow> GetSigOpCount True vData))"

subsection \<open>Votes in scripts\<close>

text \<open>One \<^verbatim>\<open>if (!script.GetOp(it, opcode, v)) return false;\<close>: the operand and the new position.\<close>

definition read_push :: "bytes \<Rightarrow> (bytes \<times> bytes) option" where
  "read_push it = (case GetScriptOp it of (ok, _, v, it1) \<Rightarrow> if ok then Some (v, it1) else None)"

text \<open>\<^verbatim>\<open>DecodeVote\<close>: the inner option is whether it returns true, with the vote and the vote signature.\<close>

definition DecodeVote :: "bytes \<Rightarrow> (Vote \<times> bytes) option option" where
  "DecodeVote script =
     (case read_push script of None \<Rightarrow> Some None | Some (voteSig, it) \<Rightarrow>
      case read_push it of None \<Rightarrow> Some None | Some (validator, it) \<Rightarrow>
      if length validator \<noteq> 20 then Some None else
      case read_push it of None \<Rightarrow> Some None | Some (target, it) \<Rightarrow>
      if length target \<noteq> 32 then Some None else
      case read_push it of None \<Rightarrow> Some None | Some (sourceEpochVec, it) \<Rightarrow> do {
        source \<leftarrow> deserialize_u32 sourceEpochVec;
        case source of None \<Rightarrow> Some None | Some sourceEpoch \<Rightarrow>
        case read_push it of None \<Rightarrow> Some None | Some (targetEpochVec, it) \<Rightarrow> do {
          target_ep \<leftarrow> deserialize_u32 targetEpochVec;
          case target_ep of None \<Rightarrow> Some None | Some targetEpoch \<Rightarrow>
          Some (if it = [] then
            Some (\<lparr>v_validator_address = uint160_of_bytes validator, m_target_hash = uint256_of_bytes target,
                   m_source_epoch = sourceEpoch, m_target_epoch = targetEpoch\<rparr>, voteSig)
            else None)
        }
      })"

definition EncodeVote :: "Vote \<Rightarrow> bytes \<Rightarrow> bytes option" where
  "EncodeVote data voteSig = do {
     require (voteSig \<noteq> []);
     Some (push_data voteSig @ push_data (bytes_of_uint160 (v_validator_address data)) @
       push_data (bytes_of_uint256 (m_target_hash data)) @
       push_data (serialize (ucast (m_source_epoch data))) @
       push_data (serialize (ucast (m_target_epoch data))))
   }"

text \<open>The second element of the witness stack; a shorter stack is a read past the end.\<close>

definition ExtractVoteFromWitness :: "bytes list \<Rightarrow> (Vote \<times> bytes) option option" where
  "ExtractVoteFromWitness stack = (if length stack < 2 then None else DecodeVote (stack ! 1))"

definition ExtractVoteFromVoteSignature :: "bytes \<Rightarrow> (Vote \<times> bytes) option option" where
  "ExtractVoteFromVoteSignature sig =
     (case read_push sig of None \<Rightarrow> Some None | Some (_, pc) \<Rightarrow>
      case read_push pc of None \<Rightarrow> Some None | Some (vData, _) \<Rightarrow> DecodeVote vData)"

definition ExtractVotesFromSlashSignature :: "bytes \<Rightarrow> ((Vote \<times> bytes) \<times> (Vote \<times> bytes)) option option" where
  "ExtractVotesFromSlashSignature sig =
     (case read_push sig of None \<Rightarrow> Some None | Some (vData, pc) \<Rightarrow> do {
        vote1 \<leftarrow> DecodeVote vData;
        case vote1 of None \<Rightarrow> Some None | Some v1 \<Rightarrow>
        case read_push pc of None \<Rightarrow> Some None | Some (vData, _) \<Rightarrow> do {
          vote2 \<leftarrow> DecodeVote vData;
          Some (map_option (\<lambda>v2. (v1, v2)) vote2)
        }
      })"

text \<open>The loop of \<^verbatim>\<open>ExtractAdminKeysFromWitness\<close> that collects the keys; the position it leaves is behind
  the operation that ended it, read or cut off.\<close>

function admin_keys_loop :: "bytes \<Rightarrow> CPubKey list \<times> bytes" where
  "admin_keys_loop it =
     (case GetScriptOp it of (ok, opcode, buffer, it1) \<Rightarrow>
        if ok \<and> length buffer = 33 then
          (case admin_keys_loop it1 of (keys, it2) \<Rightarrow> (CPubKey_of buffer # keys, it2))
        else ([], it1))"
  by auto

termination admin_keys_loop
  by (relation "measure length") (auto dest: GetScriptOp_ok_length)

declare admin_keys_loop.simps [simp del]

definition ExtractAdminKeysFromWitness :: "bytes list \<Rightarrow> CPubKey list option" where
  "ExtractAdminKeysFromWitness stack =
     (if length stack < 2 then None
      else case GetScriptOp (last stack) of (ok, _, _, it) \<Rightarrow>
        if \<not> ok then None
        else case admin_keys_loop it of (outKeys, it) \<Rightarrow>
          case GetScriptOp it of (ok, opcode, _, it) \<Rightarrow>
            if \<not> ok \<or> opcode \<noteq> OP_CHECKMULTISIG then None
            else if it = [] then Some outKeys else None)"

subsection \<open>Reading back what was appended\<close>

lemma ReadLE16_WriteLE16: "ReadLE16 (WriteLE16 x) = x"
proof (rule bit_word_eqI)
  fix n
  assume "n < LENGTH(16)" 
  then consider "n < 8" | "8 \<le> n" "n < 16" by fastforce
  then show "bit (ReadLE16 (WriteLE16 x)) n = bit x n"
    by cases (auto simp: ReadLE16_def WriteLE16_def bit_or_iff bit_push_bit_iff bit_ucast_iff bit_drop_bit_eq nth_Cons')
qed

lemma length_WriteLE16 [simp]: "length (WriteLE16 x) = 2"
  by (simp add: WriteLE16_def)

lemma read_push_push_data:
  assumes "length b < 2 ^ 32"
  shows "read_push (push_data b @ r) = Some (b, r)"
proof -
  consider "length b < 0x4c" | "0x4c \<le> length b" "length b \<le> 0xff" | "0xff < length b" "length b \<le> 0xffff" | "0xffff < length b"
    by linarith
  then show ?thesis
  proof cases
    case 1
    then have "unat (of_nat (length b) :: u8) = length b" by (simp add: unat_of_nat)
    with 1 show ?thesis
      by (simp add: push_data_def read_push_def push_size_def word_less_nat_alt word_le_nat_alt)
  next
    case 2
    then have "unat (of_nat (length b) :: u8) = length b" by (simp add: unat_of_nat)
    with 2 show ?thesis by (simp add: push_data_def read_push_def push_size_def)
  next
    case 3
    then have "unat (of_nat (length b) :: 16 word) = length b" by (simp add: unat_of_nat)
    with 3 show ?thesis by (simp add: push_data_def read_push_def push_size_def ReadLE16_WriteLE16)
  next
    case 4
    then have "unat (of_nat (length b) :: u32) = length b" using assms by (simp add: unat_of_nat)
    with 4 show ?thesis by (simp add: push_data_def read_push_def push_size_def ReadLE32_WriteLE32)
  qed
qed

subsection \<open>Script numbers\<close>

fun le_word :: "bytes \<Rightarrow> u64" where
  "le_word [] = 0"
| "le_word (b # bs) = ucast b OR push_bit 8 (le_word bs)"

lemma le_word_append: "le_word (xs @ ys) = le_word xs OR push_bit (8 * length xs) (le_word ys)"
  by (induction xs) (auto simp: or.assoc push_bit_or push_bit_push_bit add.commute)

lemma set_vch_bits_le_word: "set_vch_bits vch = le_word (take 8 vch)"
proof -
  have "k \<le> length vch \<Longrightarrow>
      fold (\<lambda>i result. result OR push_bit (8 * i) (ucast (vch ! i))) [0..<k] 0 = le_word (take k vch)" for k
    by (induction k) (auto simp: take_Suc_conv_app_nth le_word_append)
  then show ?thesis by (simp add: set_vch_bits_def min_def)
qed

lemma le_word_abs_bytes: "le_word (abs_bytes a) = a"
proof (induction a rule: abs_bytes.induct)
  case (1 a)
  have "ucast (ucast (a AND 0xff) :: u8) OR push_bit 8 (drop_bit 8 a) = a"
  proof (rule bit_word_eqI)
    fix n assume "n < LENGTH(64)"
    have m: "(0xff :: u64) = mask 8" by (simp add: mask_numeral)
    show "bit (ucast (ucast (a AND 0xff) :: u8) OR push_bit 8 (drop_bit 8 a)) n = bit a n"
      using \<open>n < LENGTH(64)\<close> unfolding m
      by (cases "n < 8") (auto simp: bit_or_iff bit_push_bit_iff bit_drop_bit_eq bit_ucast_iff bit_and_iff bit_mask_iff)
  qed
  with 1 show ?case by (subst abs_bytes.simps) auto
qed

lemma abs_bytes_Nil [simp]: "abs_bytes a = [] \<longleftrightarrow> a = 0"
  by (subst abs_bytes.simps) simp

lemma length_abs_bytes: "unat a < 256 ^ k \<Longrightarrow> length (abs_bytes a) \<le> k"
proof (induction k arbitrary: a)
  case 0
  then show ?case by (simp add: unat_eq_0)
next
  case (Suc k)
  have "unat (drop_bit 8 a) = unat a div 256"
    using u64_bound[of a] unfolding unsigned_drop_bit_eq unfolding drop_bit_eq_div by (simp add: take_bit_nat_eq_self)
  then have "unat (drop_bit 8 a) < 256 ^ k" using Suc.prems by (simp add: less_mult_imp_div_less mult.commute)
  with Suc.IH show ?case by (subst abs_bytes.simps) simp
qed

lemma length_abs_bytes_8: "length (abs_bytes a) \<le> 8"
  using length_abs_bytes[of a 8] u64_bound[of a] by simp

lemma bit_le_word: "bit (le_word bs) n \<longleftrightarrow> n < 64 \<and> n div 8 < length bs \<and> bit (bs ! (n div 8)) (n mod 8)"
proof (induction bs arbitrary: n)
  case (Cons b bs)
  show ?case
  proof (cases "n < 8")
    case True
    then show ?thesis by (auto simp: bit_or_iff bit_push_bit_iff bit_ucast_iff)
  next
    case False
    then obtain m where "n = 8 + m" using le_Suc_ex by fastforce
    then show ?thesis using Cons.IH[of m]
      by (auto simp: bit_or_iff bit_push_bit_iff bit_ucast_iff dest: bit_imp_le_length)
  qed
qed simp

lemma bit_push_1: "bit (push_bit k (1 :: 'a::len word)) n \<longleftrightarrow> n = k \<and> n < LENGTH('a)"
  by (auto simp only: bit_push_bit_iff bit_1_iff possible_bit_word diff_is_0_eq dest: le_antisym)

lemma bit_0x80: "bit (0x80 :: u8) n \<longleftrightarrow> n = 7"
proof -
  have e: "push_bit 7 (1 :: u8) = 0x80" by simp
  show ?thesis unfolding e [symmetric] bit_push_1 by auto
qed

lemma and_0x80: "x AND 0x80 \<noteq> 0 \<longleftrightarrow> bit (x :: u8) 7"
proof -
  have e: "push_bit 7 (1 :: u8) = 0x80" by simp
  have "(x AND 2 ^ 7 = 0) = (\<not> bit x 7)" by (rule and_exp_eq_0_iff_not_bit)
  then show ?thesis unfolding e [symmetric] push_bit_eq_mult by simp
qed

lemma bit_sign_mask: "bit (push_bit k (0x80 :: u64)) n \<longleftrightarrow> n = k + 7 \<and> n < 64"
proof -
  have e: "push_bit 7 (1 :: u64) = 0x80" by simp
  show ?thesis unfolding e [symmetric] push_bit_push_bit bit_push_1 by (auto simp: add.commute)
qed

text \<open>Setting the sign bit above the top byte and clearing it again.\<close>

lemma mask_sign:
  assumes "a \<noteq> 0" "\<not> bit a (k + 7)" "r = a OR push_bit k 0x80" "k \<le> 56"
  shows "r \<noteq> push_bit 63 (1 :: u64)" and "r AND NOT (push_bit k 0x80) = a"
proof -
  obtain i where i: "bit a i"
    using assms(1) by (auto simp: bit_eq_iff)
  show "r \<noteq> push_bit 63 1"
  proof
    assume e: "r = push_bit 63 1"
    have "bit r n \<longleftrightarrow> n = 63" for n unfolding e bit_push_1 by auto
    then have b: "bit a n \<or> bit (push_bit k (0x80 :: u64)) n \<longleftrightarrow> n = 63" for n
      unfolding assms(3) bit_or_iff .
    then have "i = 63" using i by blast
    moreover have "k + 7 = 63" using b[of "k + 7"] assms(4) unfolding bit_sign_mask by simp
    ultimately show False using i assms(2) by simp
  qed
  show "r AND NOT (push_bit k 0x80) = a"
    using assms(2,3) by (intro bit_word_eqI) (auto simp: bit_and_iff bit_or_iff bit_not_iff bit_sign_mask)
qed

lemma top_bit_u64: "bit (x :: u64) 63 \<longleftrightarrow> 2 ^ 63 \<le> unat x"
proof -
  have "bit x 63 = bit (unat x) 63" by (simp add: bit_unsigned_iff)
  also have "\<dots> = odd (unat x div 2 ^ 63)" by (rule bit_iff_odd)
  also have "unat x div 2 ^ 63 = (if 2 ^ 63 \<le> unat x then 1 else 0)"
    using u64_bound[of x] by (auto intro!: div_nat_eqI)
  finally show ?thesis by simp
qed

lemma min_int64: "sint (v :: u64) < 0 \<Longrightarrow> bit (- v) 63 \<Longrightarrow> v = push_bit 63 1"
proof -
  assume "sint v < 0" "bit (- v) 63"
  then have v: "2 ^ 63 \<le> unat v" "2 ^ 63 \<le> unat (- v)"
    using bit_last_iff[of v] unfolding top_bit_u64 [symmetric] by auto
  have "unat (v + - v) = (unat v + unat (- v)) mod 2 ^ 64" by (simp only: unat_word_ariths(1)) simp
  then have "(unat v + unat (- v)) mod 2 ^ 64 = 0" by simp
  then obtain q where q: "unat v + unat (- v) = 2 ^ 64 * q" by (metis mod_0_imp_dvd dvdE)
  moreover have "q = 1" using q v u64_bound[of v] u64_bound[of "- v"] by simp
  ultimately have u: "unat v = 2 ^ 63" using v by simp
  have "unat (push_bit 63 1 :: u64) = 2 ^ 63" by simp
  with u show ?thesis by (simp only: word_unat_eq_iff)
qed

lemma set_vch_serialize: "set_vch (serialize v) = Some v"
proof (cases "v = 0")
  case False
  define neg where "neg \<longleftrightarrow> sint v < 0"
  define a where "a = (if neg then - v else v)"
  define r where "r = abs_bytes a"
  have a0: "a \<noteq> 0" using False by (simp add: a_def)
  have r: "r \<noteq> []" "le_word r = a" "length r \<le> 8" "r = butlast r @ [last r]"
    using a0 by (simp_all add: r_def le_word_abs_bytes length_abs_bytes_8)
  have ser: "serialize v = (if bit (last r) 7 then r @ [if neg then 0x80 else 0]
      else if neg then butlast r @ [last r OR 0x80] else r)"
    using False by (simp add: serialize_def Let_def neg_def a_def r_def and_0x80)
  define k where "k = 8 * (length r - 1)"
  have k: "k \<le> 56" using r(3) by (simp add: k_def)
  have top: "bit a (k + 7) = bit (last r) 7"
  proof -
    have "k < 57" using k by simp
    then show ?thesis
      using r(1) unfolding r(2)[symmetric] bit_le_word by (simp add: last_conv_nth k_def)
  qed
  consider "\<not> neg" "bit (last r) 7" | "\<not> neg" "\<not> bit (last r) 7" | "neg" "bit (last r) 7" "length r < 8"
    | "neg" "bit (last r) 7" "length r = 8" | "neg" "\<not> bit (last r) 7"
    using r(3) by linarith
  then show ?thesis
  proof cases
    case 1
    have "le_word (take 8 (r @ [0])) = a" using r(2,3) by (cases "length r = 8") (simp_all add: le_word_append)
    with 1 show ?thesis by (simp add: ser set_vch_def Let_def set_vch_bits_le_word a_def)
  next
    case 2
    with r show ?thesis by (simp add: ser set_vch_def Let_def set_vch_bits_le_word a_def and_0x80)
  next
    case 3
    have "\<not> bit a (8 * length r + 7)"
      unfolding r(2)[symmetric] bit_le_word by simp
    moreover have "le_word (take 8 (r @ [0x80])) = a OR push_bit (8 * length r) 0x80"
      using 3 r(2) by (simp add: le_word_append)
    ultimately show ?thesis
      using mask_sign[OF a0, of "8 * length r"] 3 by (simp add: ser set_vch_def Let_def set_vch_bits_le_word a_def and_0x80)
  next
    case 4
    have "k + 7 = 63" using 4 by (simp add: k_def)
    then have "bit (- v) 63" using top 4 by (simp add: a_def)
    then have v: "v = push_bit 63 1" using 4 min_int64 by (simp only: neg_def)
    then have "le_word (take 8 (r @ [0x80])) = push_bit 63 1" using 4 r(2) by (simp add: a_def)
    then have "set_vch (r @ [0x80]) = Some (push_bit 63 1)"
      by (simp add: set_vch_def Let_def set_vch_bits_le_word)
    moreover have "serialize v = r @ [0x80]" using ser 4 by simp
    ultimately show ?thesis using v by (simp only:)
  next
    case 5
    have "le_word (butlast r @ [last r OR 0x80]) = le_word (butlast r @ [last r]) OR push_bit k 0x80"
      by (simp add: le_word_append k_def push_bit_or or.assoc unsigned_or_eq)
    then have "le_word (take 8 (butlast r @ [last r OR 0x80])) = a OR push_bit k 0x80" using r by simp
    moreover have "bit (last r OR 0x80) 7" by (simp add: bit_or_iff bit_0x80)
    ultimately show ?thesis
      using mask_sign[OF a0, of k] 5 top k r(1) by (simp add: ser set_vch_def Let_def set_vch_bits_le_word a_def and_0x80 k_def)
  qed
qed (simp add: serialize_def set_vch_def)

lemma length_serialize: "length (serialize v) \<le> Suc (length (abs_bytes (if sint v < 0 then - v else v)))"
  by (auto simp: serialize_def Let_def)

lemma sint_small: "unat (x :: u64) < 2 ^ 63 \<Longrightarrow> sint x = int (unat x)"
proof -
  assume "unat x < 2 ^ 63"
  then have "int (unat x) < int (2 ^ 63)" by (simp only: of_nat_less_iff)
  then have b: "int (unat x) < 2 ^ 63" by (simp only: of_nat_power of_nat_numeral)
  have c: "- (2 ^ 63) \<le> int (unat x)" by (rule order_trans[of _ 0]) (simp_all only: of_nat_0_le_iff, simp)
  have "sint x = signed_take_bit 63 (int (unat x))" unfolding sint_uint by simp
  also have "\<dots> = int (unat x)" using c b by (rule signed_take_bit_int_eq_self)
  finally show ?thesis .
qed

lemma sint_ucast_u32: "sint (ucast (e :: u32) :: u64) = int (unat e)"
  using sint_small[of "ucast e"] u32_bound[of e] by simp

lemma deserialize_serialize_u32: "deserialize_u32 (serialize (ucast e)) = Some (Some e)"
proof -
  have "length (abs_bytes (ucast e)) \<le> 4" using length_abs_bytes[of "ucast e" 4] u32_bound[of e] by simp
  then have "length (serialize (ucast e)) \<le> 8"
    using length_serialize[of "ucast e"] sint_ucast_u32[of e] by simp
  moreover have "ucast (ucast e :: u64) = e"
    using u32_bound[of e] by (simp only: word_unat_eq_iff unat_ucast_low32 unat_ucast_u32_u64 mod_less)
  moreover have "\<not> sint (ucast e :: u64) > 2 ^ 32 - 1"
  proof -
    have "int (unat e) < int (2 ^ 32)" using u32_bound[of e] by (simp only: of_nat_less_iff)
    then show ?thesis unfolding sint_ucast_u32 by (simp only: of_nat_power of_nat_numeral)
  qed
  moreover have "\<not> sint (ucast e :: u64) < 0" unfolding sint_ucast_u32 by simp
  ultimately show ?thesis
    by (simp only: deserialize_u32_def set_vch_serialize) simp
qed

lemma length_serialize_u32: "length (serialize (ucast (e :: u32))) < 2 ^ 32"
  using length_serialize[of "ucast e"] length_abs_bytes_8[of "ucast e"] sint_ucast_u32[of e] by simp

subsection \<open>Votes\<close>

lemma DecodeVote_EncodeVote:
  assumes "sig \<noteq> []" "length sig < 2 ^ 32"
  shows "Option.bind (EncodeVote v sig) DecodeVote = Some (Some (v, sig))"
proof -
  have last: "read_push (push_data b) = Some (b, [])" if "length b < 2 ^ 32" for b
    using read_push_push_data[OF that, of "[]"] by simp
  show ?thesis
    using assms length_serialize_u32
    by (simp add: EncodeVote_def DecodeVote_def read_push_push_data last deserialize_serialize_u32)
qed

lemma length_push_data: "length (push_data b) \<le> length b + 5"
  by (simp add: push_data_def)

lemma length_EncodeVote:
  assumes "EncodeVote v sig = Some s"
  shows "length s \<le> length sig + 105"
proof -
  have ser: "length (push_data (serialize (ucast (e :: u32)))) \<le> 14" for e
    using length_serialize[of "ucast e"] length_abs_bytes_8[of "ucast e"] sint_ucast_u32[of e]
      length_push_data[of "serialize (ucast e)"] by simp
  have "s = push_data sig @ push_data (bytes_of_uint160 (v_validator_address v)) @
       push_data (bytes_of_uint256 (m_target_hash v)) @
       push_data (serialize (ucast (m_source_epoch v))) @ push_data (serialize (ucast (m_target_epoch v)))"
    using assms by (simp add: EncodeVote_def)
  then show ?thesis
    using length_push_data[of sig] length_push_data[of "bytes_of_uint160 (v_validator_address v)"]
      length_push_data[of "bytes_of_uint256 (m_target_hash v)"] ser[of "m_source_epoch v"] ser[of "m_target_epoch v"]
    by (simp only: length_append length_bytes_of_uint160 length_bytes_of_uint256)
qed

subsection \<open>Finalizer commit scripts\<close>

lemma CreateFinalizerCommitScript_matches:
  assumes "length k = 33" "pubkey_IsCompressed k"
  shows "\<exists>s. CreateFinalizerCommitScript h k = Some s \<and> IsFinalizerCommitScript s \<and>
    take 33 (drop 1 s) = k \<and> IsPayToPublicKeyHash (take 25 (drop 38 s))"
proof -
  have d: "pubkey_data k = Some k" using assms by (simp add: pubkey_data_def pubkey_IsCompressed_def)
  define a where "a = bytes_of_uint160 (h k)"
  have a: "length a = 20" by (simp add: a_def)
  obtain s where s: "s = 0x21 # k @ [OP_CHECKCOMMIT, OP_IF, OP_TRUE, OP_ELSE, OP_DUP, OP_HASH160, 0x14] @ a @
      [OP_EQUALVERIFY, OP_CHECKSIG, OP_ENDIF]" by blast
  have "CreateFinalizerCommitScript h k = Some s"
    using assms(1) a by (simp add: CreateFinalizerCommitScript_def d GetID_def push_data_def s a_def)
  moreover have "IsFinalizerCommitScript s \<and> take 33 (drop 1 s) = k \<and> IsPayToPublicKeyHash (take 25 (drop 38 s))"
    using assms(1) a
    by (simp add: s IsFinalizerCommitScript_def MatchFinalizerCommitScript_def MatchPayToPublicKeyHash_def
      IsPayToPublicKeyHash_def nth_append nth_Cons')
  ultimately show ?thesis by blast
qed

end
