(* ===== verification/Admin.thy ===== *)
theory Admin
  imports Script
begin

unbundle bit_operations_syntax

section \<open>Administration of the finalizer set\<close>

text \<open>
  \<^verbatim>\<open>esperanza/adminparams.h\<close>, \<^verbatim>\<open>esperanza/adminstate.cpp\<close> and \<^verbatim>\<open>esperanza/admincommand.cpp\<close>: the white list of
  finalizers, the administrator keys and the commands that change them, with their encoding in
  \<^verbatim>\<open>OP_RETURN\<close> outputs. The stream readers of \<^verbatim>\<open>serialize.h\<close> and \<^verbatim>\<open>pubkey.h\<close> return the value read and the
  bytes left, \<^const>\<open>None\<close> is a thrown \<^verbatim>\<open>ios_base::failure\<close>. Whether a key is a point of the curve
  (\<^verbatim>\<open>CPubKey::IsFullyValid\<close>, secp256k1) is a parameter.
\<close>

definition ADMIN_MULTISIG_KEYS :: nat where
  "ADMIN_MULTISIG_KEYS = 3"

type_synonym AdminKeySet = "CPubKey list"

record AdminParams =
  admin_keys :: "AdminKeySet option"
  white_list :: "u160 list"

record AdminState =
  m_admin_pub_keys :: AdminKeySet
  m_white_list :: "u160 fset"
  m_permissioning_is_active :: bool

subsection \<open>Admin state\<close>

definition AdminState_new :: "(CPubKey \<Rightarrow> bool) \<Rightarrow> AdminParams \<Rightarrow> AdminState option" where
  "AdminState_new IsFullyValid params =
     (case admin_keys params of
        Some keys \<Rightarrow> do {
          require (list_all IsFullyValid keys);
          Some \<lparr>m_admin_pub_keys = keys, m_white_list = fset_of_list (white_list params), m_permissioning_is_active = True\<rparr>
        }
      | None \<Rightarrow> do {
          require (fset_of_list (white_list params) = {||});
          Some \<lparr>m_admin_pub_keys = replicate ADMIN_MULTISIG_KEYS CPubKey_invalid,
                m_white_list = fset_of_list (white_list params), m_permissioning_is_active = False\<rparr>
        })"

text \<open>\<^verbatim>\<open>std::array::operator==\<close> compares the keys in order and stops at the first difference.\<close>

fun keyset_eq :: "AdminKeySet \<Rightarrow> AdminKeySet \<Rightarrow> bool option" where
  "keyset_eq (a # as) (b # bs) = do { e \<leftarrow> pubkey_eq a b; if e then keyset_eq as bs else Some False }"
| "keyset_eq _ _ = Some True"

definition IsAdminAuthorized :: "AdminState \<Rightarrow> AdminKeySet \<Rightarrow> bool option" where
  "IsAdminAuthorized s keys =
     (if \<not> m_permissioning_is_active s then Some False else keyset_eq keys (m_admin_pub_keys s))"

definition IsValidatorAuthorized :: "AdminState \<Rightarrow> u160 \<Rightarrow> bool" where
  "IsValidatorAuthorized s validatorAddress =
     (if \<not> m_permissioning_is_active s then True else validatorAddress |\<in>| m_white_list s)"

definition ResetAdmin :: "AdminKeySet \<Rightarrow> AdminState \<Rightarrow> AdminState" where
  "ResetAdmin newKeys s = s\<lparr>m_admin_pub_keys := newKeys\<rparr>"

definition AddValidator :: "u160 \<Rightarrow> AdminState \<Rightarrow> AdminState" where
  "AddValidator validatorAddress s = s\<lparr>m_white_list := finsert validatorAddress (m_white_list s)\<rparr>"

definition RemoveValidator :: "u160 \<Rightarrow> AdminState \<Rightarrow> AdminState" where
  "RemoveValidator validatorAddress s = s\<lparr>m_white_list := m_white_list s |-| {|validatorAddress|}\<rparr>"

definition EndPermissioning :: "AdminState \<Rightarrow> AdminState" where
  "EndPermissioning s = s\<lparr>m_permissioning_is_active := False\<rparr>"

subsection \<open>Admin commands\<close>

datatype AdminCommandType = ADD_TO_WHITELIST | REMOVE_FROM_WHITELIST | RESET_ADMINS | END_PERMISSIONING

record AdminCommand =
  m_command_type :: AdminCommandType
  m_payload :: "CPubKey list"

definition AdminCommand_IsValid :: "AdminCommand \<Rightarrow> bool" where
  "AdminCommand_IsValid c =
     (let keys_ok = list_all (\<lambda>key. pubkey_IsValid key \<and> pubkey_IsCompressed key) (m_payload c) in
      case m_command_type c of
        END_PERMISSIONING \<Rightarrow> m_payload c = []
      | ADD_TO_WHITELIST \<Rightarrow> if m_payload c = [] then False else keys_ok
      | REMOVE_FROM_WHITELIST \<Rightarrow> if m_payload c = [] then False else keys_ok
      | RESET_ADMINS \<Rightarrow> if length (m_payload c) \<noteq> ADMIN_MULTISIG_KEYS then False else keys_ok)"

definition MAX_SIZE :: nat where
  "MAX_SIZE = 0x02000000"

definition ReadLE64 :: "bytes \<Rightarrow> u64" where
  "ReadLE64 p = fold (\<lambda>i r. r OR push_bit (8 * i) (ucast (p ! i))) [0..<8] 0"

definition WriteLE64 :: "u64 \<Rightarrow> bytes" where
  "WriteLE64 x = map (\<lambda>i. ucast (drop_bit (8 * i) x)) [0..<8]"

text \<open>\<^verbatim>\<open>CDataStream::read\<close> of \<open>n\<close> bytes.\<close>

definition stream_read :: "nat \<Rightarrow> bytes \<Rightarrow> (bytes \<times> bytes) option" where
  "stream_read n s = (if length s < n then None else Some (take n s, drop n s))"

definition ReadCompactSize :: "bytes \<Rightarrow> (nat \<times> bytes) option" where
  "ReadCompactSize s = do {
     (h, s) \<leftarrow> stream_read 1 s;
     let chSize = h ! 0;
     (nSizeRet, s) \<leftarrow>
       (if chSize < 253 then Some (unat chSize, s)
        else if chSize = 253 then do {
          (b, s) \<leftarrow> stream_read 2 s;
          require (\<not> unat (ReadLE16 b) < 253);
          Some (unat (ReadLE16 b), s)
        } else if chSize = 254 then do {
          (b, s) \<leftarrow> stream_read 4 s;
          require (\<not> unat (ReadLE32 b) < 0x10000);
          Some (unat (ReadLE32 b), s)
        } else do {
          (b, s) \<leftarrow> stream_read 8 s;
          require (\<not> unat (ReadLE64 b) < 0x100000000);
          Some (unat (ReadLE64 b), s)
        });
     require (\<not> nSizeRet > MAX_SIZE);
     Some (nSizeRet, s)
   }"

definition WriteCompactSize :: "nat \<Rightarrow> bytes" where
  "WriteCompactSize n =
     (if n < 253 then [of_nat n]
      else if n \<le> 0xffff then 253 # WriteLE16 (of_nat n)
      else if n \<le> 0xffffffff then 254 # WriteLE32 (of_nat n)
      else 255 # WriteLE64 (of_nat n))"

text \<open>\<^verbatim>\<open>CPubKey::Unserialize\<close> into a default constructed key: up to 65 bytes overwrite the beginning of the
  array, whatever the header byte says about the length.\<close>

definition pubkey_Unserialize :: "bytes \<Rightarrow> (CPubKey \<times> bytes) option" where
  "pubkey_Unserialize s = do {
     (len, s) \<leftarrow> ReadCompactSize s;
     (data, s) \<leftarrow> stream_read len s;
     Some (if len \<le> 65 then data @ drop len CPubKey_invalid else CPubKey_invalid, s)
   }"

definition pubkey_Serialize :: "CPubKey \<Rightarrow> bytes option" where
  "pubkey_Serialize k = map_option (\<lambda>d. WriteCompactSize (pubkey_size k) @ d) (pubkey_data k)"

fun read_keys :: "nat \<Rightarrow> bytes \<Rightarrow> (CPubKey list \<times> bytes) option" where
  "read_keys 0 s = Some ([], s)"
| "read_keys (Suc n) s = do {
     (k, s) \<leftarrow> pubkey_Unserialize s;
     (ks, s) \<leftarrow> read_keys n s;
     Some (k # ks, s)
   }"

fun write_keys :: "CPubKey list \<Rightarrow> bytes option" where
  "write_keys [] = Some []"
| "write_keys (k # ks) = do { a \<leftarrow> pubkey_Serialize k; b \<leftarrow> write_keys ks; Some (a @ b) }"

definition command_code :: "AdminCommandType \<Rightarrow> u8" where
  "command_code t = (case t of ADD_TO_WHITELIST \<Rightarrow> 0 | REMOVE_FROM_WHITELIST \<Rightarrow> 1 | RESET_ADMINS \<Rightarrow> 2 | END_PERMISSIONING \<Rightarrow> 3)"

text \<open>\<^verbatim>\<open>_from_integral_nothrow\<close>\<close>

definition command_of_code :: "u8 \<Rightarrow> AdminCommandType option" where
  "command_of_code b = (if b = 0 then Some ADD_TO_WHITELIST else if b = 1 then Some REMOVE_FROM_WHITELIST
     else if b = 2 then Some RESET_ADMINS else if b = 3 then Some END_PERMISSIONING else None)"

text \<open>Reading into a default constructed command, whose type is \<^const>\<open>REMOVE_FROM_WHITELIST\<close>: a type byte
  that is no enumerator leaves it.\<close>

definition AdminCommand_Unserialize :: "bytes \<Rightarrow> (AdminCommand \<times> bytes) option" where
  "AdminCommand_Unserialize s = do {
     (b, s) \<leftarrow> stream_read 1 s;
     let t = (case command_of_code (b ! 0) of Some t \<Rightarrow> t | None \<Rightarrow> REMOVE_FROM_WHITELIST);
     (n, s) \<leftarrow> ReadCompactSize s;
     (ks, s) \<leftarrow> read_keys n s;
     Some (\<lparr>m_command_type = t, m_payload = ks\<rparr>, s)
   }"

definition AdminCommand_Serialize :: "AdminCommand \<Rightarrow> bytes option" where
  "AdminCommand_Serialize c = do {
     ks \<leftarrow> write_keys (m_payload c);
     Some ([command_code (m_command_type c)] @ WriteCompactSize (length (m_payload c)) @ ks)
   }"

definition EncodeAdminCommand :: "AdminCommand \<Rightarrow> bytes option" where
  "EncodeAdminCommand command = map_option (\<lambda>data. [OP_RETURN] @ push_data data) (AdminCommand_Serialize command)"

definition MatchAdminCommand :: "bytes \<Rightarrow> bool" where
  "MatchAdminCommand script \<longleftrightarrow> script \<noteq> [] \<and> script ! 0 = OP_RETURN"

text \<open>\<^const>\<open>None\<close> is the result \<^verbatim>\<open>false\<close>.\<close>

definition DecodeAdminCommand :: "bytes \<Rightarrow> AdminCommand option" where
  "DecodeAdminCommand script =
     (case GetScriptOp script of (ok, opcode, _, it) \<Rightarrow>
        if \<not> ok \<or> opcode \<noteq> OP_RETURN then None
        else case read_push it of None \<Rightarrow> None
          | Some (data, _) \<Rightarrow>
             (case AdminCommand_Unserialize data of None \<Rightarrow> None
              | Some (command, _) \<Rightarrow> if AdminCommand_IsValid command then Some command else None))"

subsection \<open>Encoding round trips\<close>

lemma stream_read_append [simp]: "stream_read (length a) (a @ b) = Some (a, b)"
  by (simp add: stream_read_def)

lemma stream_read_Cons [simp]: "stream_read (Suc 0) (a # b) = Some ([a], b)"
  by (simp add: stream_read_def)

lemma ReadCompactSize_WriteCompactSize:
  assumes "n \<le> MAX_SIZE"
  shows "ReadCompactSize (WriteCompactSize n @ r) = Some (n, r)"
proof -
  consider "n < 253" | "253 \<le> n" "n \<le> 0xffff" | "0xffff < n" by linarith
  then show ?thesis
  proof cases
    case 1
    then have "unat (of_nat n :: u8) = n" by (simp add: unat_of_nat)
    moreover from this 1 have "(of_nat n :: u8) < 253" by (simp add: word_less_nat_alt)
    ultimately show ?thesis using 1 assms by (simp add: ReadCompactSize_def WriteCompactSize_def)
  next
    case 2
    then have u: "unat (of_nat n :: 16 word) = n" by (simp add: unat_of_nat)
    have "stream_read 2 (WriteLE16 (of_nat n) @ r) = Some (WriteLE16 (of_nat n), r)"
      using stream_read_append[of "WriteLE16 (of_nat n)" r] by simp
    then show ?thesis
      using 2 assms u by (simp add: ReadCompactSize_def WriteCompactSize_def ReadLE16_WriteLE16 del: stream_read_append)
  next
    case 3
    then have u: "unat (of_nat n :: u32) = n" "n \<le> 0xffffffff" using assms by (simp_all add: unat_of_nat MAX_SIZE_def)
    have "stream_read 4 (WriteLE32 (of_nat n) @ r) = Some (WriteLE32 (of_nat n), r)"
      using stream_read_append[of "WriteLE32 (of_nat n)" r] by simp
    then show ?thesis
      using 3 assms u by (simp add: ReadCompactSize_def WriteCompactSize_def ReadLE32_WriteLE32 del: stream_read_append)
  qed
qed

lemma pubkey_roundtrip:
  assumes "length k = 33" "pubkey_IsCompressed k"
  shows "\<exists>b. pubkey_Serialize k = Some b \<and> length b = 34 \<and> pubkey_Unserialize (b @ r) = Some (k, r)"
proof -
  have k: "pubkey_data k = Some k" "pubkey_size k = 33"
    using assms by (simp_all add: pubkey_data_def pubkey_IsCompressed_def)
  have "ReadCompactSize (WriteCompactSize 33 @ k @ r) = Some (33, k @ r)"
    by (rule ReadCompactSize_WriteCompactSize) (simp add: MAX_SIZE_def)
  moreover have "stream_read 33 (k @ r) = Some (k, r)" using stream_read_append[of k r] assms(1) by simp
  moreover have "length (WriteCompactSize 33) = 1" by (simp add: WriteCompactSize_def)
  ultimately show ?thesis
    using assms(1) by (simp add: pubkey_Serialize_def pubkey_Unserialize_def k CPubKey_invalid_def)
qed

lemma keys_roundtrip:
  assumes "list_all (\<lambda>k. length k = 33 \<and> pubkey_IsCompressed k) ks"
  shows "\<exists>b. write_keys ks = Some b \<and> length b = 34 * length ks \<and> read_keys (length ks) (b @ r) = Some (ks, r)"
  using assms
proof (induction ks)
  case (Cons k ks)
  then obtain b where b: "write_keys ks = Some b" "length b = 34 * length ks" "read_keys (length ks) (b @ r) = Some (ks, r)"
    by auto
  obtain a where "pubkey_Serialize k = Some a" "length a = 34" "pubkey_Unserialize (a @ b @ r) = Some (k, b @ r)"
    using pubkey_roundtrip[of k "b @ r"] Cons.prems by auto
  with b show ?case by simp
qed simp

lemma command_code_inverse: "command_of_code (command_code t) = Some t"
  by (cases t) (simp_all add: command_code_def command_of_code_def)

lemma AdminCommand_roundtrip:
  assumes "list_all (\<lambda>k. length k = 33 \<and> pubkey_IsCompressed k) (m_payload c)" "length (m_payload c) \<le> MAX_SIZE"
  shows "\<exists>b. AdminCommand_Serialize c = Some b \<and> length b < 2 ^ 32 \<and> AdminCommand_Unserialize b = Some (c, [])"
proof -
  obtain b where b: "write_keys (m_payload c) = Some b" "length b = 34 * length (m_payload c)"
      "read_keys (length (m_payload c)) b = Some (m_payload c, [])"
    using keys_roundtrip[OF assms(1), of "[]"] by auto
  have "length (WriteCompactSize n) \<le> 9" for n by (simp add: WriteCompactSize_def WriteLE64_def)
  then have "length (WriteCompactSize (length (m_payload c))) \<le> 9" .
  then have "Suc (length (WriteCompactSize (length (m_payload c))) + length b) < 2 ^ 32"
    using assms(2) b(2) by (simp add: MAX_SIZE_def)
  then show ?thesis
    using b ReadCompactSize_WriteCompactSize[OF assms(2), of b]
    by (simp add: AdminCommand_Serialize_def AdminCommand_Unserialize_def command_code_inverse)
qed

lemma DecodeAdminCommand_EncodeAdminCommand:
  assumes "AdminCommand_IsValid c" "list_all (\<lambda>k. length k = 33) (m_payload c)" "length (m_payload c) \<le> MAX_SIZE"
  shows "Option.bind (EncodeAdminCommand c) DecodeAdminCommand = Some c"
proof -
  have "list_all (\<lambda>k. length k = 33 \<and> pubkey_IsCompressed k) (m_payload c)"
    using assms(1,2) unfolding AdminCommand_IsValid_def Let_def
    by (cases "m_command_type c") (auto simp: list_all_iff split: if_splits)
  then obtain b where b: "AdminCommand_Serialize c = Some b" "length b < 2 ^ 32" "AdminCommand_Unserialize b = Some (c, [])"
    using AdminCommand_roundtrip assms(3) by blast
  have "read_push (push_data b) = Some (b, [])" using read_push_push_data[OF b(2), of "[]"] by simp
  moreover have "\<not> (OP_RETURN \<le> (OP_PUSHDATA4 :: u8))" by simp
  ultimately show ?thesis using b(1,3) assms(1) by (simp add: EncodeAdminCommand_def DecodeAdminCommand_def)
qed

subsection \<open>What the decoder accepts beyond the encoder\<close>

text \<open>A type byte that is no command is read as \<^verbatim>\<open>REMOVE_FROM_WHITELIST\<close>.\<close>

lemma AdminCommand_Unserialize_type:
  "command_of_code t = None \<Longrightarrow>
   AdminCommand_Unserialize (t # s) = AdminCommand_Unserialize (command_code REMOVE_FROM_WHITELIST # s)"
  by (simp add: AdminCommand_Unserialize_def command_code_inverse)

lemma DecodeAdminCommand_push:
  assumes "length d < 2 ^ 32"
  shows "DecodeAdminCommand ([OP_RETURN] @ push_data d) =
    (case AdminCommand_Unserialize d of None \<Rightarrow> None
     | Some (command, _) \<Rightarrow> if AdminCommand_IsValid command then Some command else None)"
  using read_push_push_data[OF assms, of "[]"] by (simp add: DecodeAdminCommand_def)

lemma EndPermissioning_authorizes:
  "IsValidatorAuthorized (EndPermissioning s) a" "IsAdminAuthorized (EndPermissioning s) ks = Some False"
  by (simp_all add: EndPermissioning_def IsValidatorAuthorized_def IsAdminAuthorized_def)

end
