(* ===== verification/FinalizationParams.thy ===== *)
theory FinalizationParams
  imports Ufp64 Admin
begin

section \<open>Finalization parameters and epoch arithmetic\<close>

text \<open>
  \<^verbatim>\<open>finalization/params.h\<close> and \<^verbatim>\<open>finalization/params.cpp\<close>. Heights and epochs are 32 bit words. With an
  \<^verbatim>\<open>epoch_length\<close> of zero the sources divide by zero; the lemmas assume it is positive. The JSON reader of
  the configuration (UniValue) is a parameter: a function from member names to their integer values.
\<close>

record Params =
  epoch_length :: u32
  min_deposit_size :: amount
  dynasty_logout_delay :: u64
  withdrawal_epoch_delay :: u64
  slash_fraction_multiplier :: u64
  bounty_fraction_denominator :: u64
  base_interest_factor :: u64
  base_penalty_factor :: u64
  admin_params :: AdminParams

definition GetEpoch :: "Params \<Rightarrow> height \<Rightarrow> u32" where
  "GetEpoch p block_height =
     (let epoch = block_height div epoch_length p
      in if block_height mod epoch_length p \<noteq> 0 then epoch + 1 else epoch)"

definition GetEpochCheckpointHeight :: "Params \<Rightarrow> u32 \<Rightarrow> height" where
  "GetEpochCheckpointHeight p epoch = epoch * epoch_length p"

definition GetEpochStartHeight :: "Params \<Rightarrow> u32 \<Rightarrow> height" where
  "GetEpochStartHeight p epoch = (if epoch = 0 then 0 else GetEpochCheckpointHeight p (epoch - 1) + 1)"

definition IsEpochStart :: "Params \<Rightarrow> height \<Rightarrow> bool" where
  "IsEpochStart p block_height \<longleftrightarrow> block_height mod epoch_length p = 1"

definition IsCheckpoint :: "Params \<Rightarrow> height \<Rightarrow> bool" where
  "IsCheckpoint p block_height \<longleftrightarrow> block_height mod epoch_length p = 0"

subsection \<open>Presets and configuration\<close>

text \<open>The administrator keys of the presets, as hexadecimal strings, are an argument.\<close>

definition CreateAdminKeys :: "bytes list \<Rightarrow> AdminKeySet option" where
  "CreateAdminKeys key_data = do {
     let keys = map CPubKey_of key_data;
     require (list_all pubkey_IsValid keys);
     Some keys
   }"

definition preset :: "u32 \<Rightarrow> amount \<Rightarrow> u64 \<Rightarrow> u64 \<Rightarrow> u64 \<Rightarrow> bytes list option \<Rightarrow> Params option" where
  "preset len min_deposit logout_delay withdraw_delay penalty_denominator keys = do {
     penalty \<leftarrow> div_2uint 2 penalty_denominator;
     admin \<leftarrow> (case keys of None \<Rightarrow> Some None | Some ks \<Rightarrow> map_option Some (CreateAdminKeys ks));
     Some \<lparr>epoch_length = len, min_deposit_size = min_deposit, dynasty_logout_delay = logout_delay,
       withdrawal_epoch_delay = withdraw_delay, slash_fraction_multiplier = 3, bounty_fraction_denominator = 25,
       base_interest_factor = to_ufp64 7, base_penalty_factor = penalty,
       admin_params = \<lparr>admin_keys = admin, white_list = []\<rparr>\<rparr>
   }"

definition RegTest :: "bytes list option \<Rightarrow> Params option" where
  "RegTest keys = preset 5 (1500 * UNIT) 2 5 100000 keys"

definition TestNet :: "bytes list option \<Rightarrow> Params option" where
  "TestNet keys = preset 50 (10000 * UNIT) 5 10 10000000 keys"

definition ParseNum :: "(string \<Rightarrow> u64 option) \<Rightarrow> string \<Rightarrow> u64 \<Rightarrow> u64" where
  "ParseNum json key def_val = (case json key of Some v \<Rightarrow> v | None \<Rightarrow> def_val)"

text \<open>\<^const>\<open>None\<close> as the parsed document is a malformed one; both that and a negative factor throw.\<close>

definition FromJson :: "(string \<Rightarrow> u64 option) option \<Rightarrow> Params \<Rightarrow> Params option" where
  "FromJson doc p = do {
     json \<leftarrow> doc;
     let p = p\<lparr>epoch_length := ucast (ParseNum json ''epochLength'' (ucast (epoch_length p)))\<rparr>;
     let p = p\<lparr>min_deposit_size := ParseNum json ''minDepositSize'' (min_deposit_size p)\<rparr>;
     let p = p\<lparr>dynasty_logout_delay := ParseNum json ''dynastyLogoutDelay'' (dynasty_logout_delay p)\<rparr>;
     let p = p\<lparr>withdrawal_epoch_delay := ParseNum json ''withdrawalEpochDelay'' (withdrawal_epoch_delay p)\<rparr>;
     let p = p\<lparr>slash_fraction_multiplier := ParseNum json ''slashFractionMultiplier'' (slash_fraction_multiplier p)\<rparr>;
     let p = p\<lparr>bounty_fraction_denominator := ParseNum json ''bountyFractionDenominator'' (bounty_fraction_denominator p)\<rparr>;
     let interest = ParseNum json ''baseInterestFactor'' (base_interest_factor p);
     require (\<not> sint interest < 0);
     let p = p\<lparr>base_interest_factor := interest\<rparr>;
     let penalty = ParseNum json ''basePenaltyFactor'' (base_penalty_factor p);
     require (\<not> sint penalty < 0);
     Some (p\<lparr>base_penalty_factor := penalty\<rparr>)
   }"

definition Params_New :: "bool \<Rightarrow> bool \<Rightarrow> bytes list \<Rightarrow> bytes list \<Rightarrow> (string \<Rightarrow> u64 option) option option \<Rightarrow> bool \<Rightarrow> Params option" where
  "Params_New regtest permissioning regtest_keys testnet_keys esperanzaconfig disable_finalization = do {
     p \<leftarrow> (if regtest then RegTest (if permissioning then Some regtest_keys else None) else TestNet (Some testnet_keys));
     p \<leftarrow> (case esperanzaconfig of None \<Rightarrow> Some p | Some doc \<Rightarrow> FromJson doc p);
     Some (if disable_finalization then p\<lparr>epoch_length := 9999999\<rparr> else p)
   }"

subsection \<open>Epoch arithmetic\<close>

lemma unat_u32_div: "unat (a div b :: u32) = unat a div unat b"
  by (rule unat_div)

lemma unat_u32_mod: "unat (a mod b :: u32) = unat a mod unat b"
  by (rule unat_mod)

text \<open>The epoch of a height is the ceiling of the quotient: epoch \<open>e\<close> holds the heights
  \<open>(e - 1) * L + 1 .. e * L\<close>.\<close>

lemma GetEpoch_unat:
  assumes "epoch_length p \<noteq> 0"
  shows "unat (GetEpoch p h) = (unat h + (unat (epoch_length p) - 1)) div unat (epoch_length p)"
proof -
  define L where "L = unat (epoch_length p)"
  define H where "H = unat h"
  have L: "0 < L" using assms by (simp add: L_def unat_gt_0)
  have z: "(h mod epoch_length p \<noteq> 0) = (H mod L \<noteq> 0)"
    by (simp add: word_unat_eq_iff unat_u32_mod L_def H_def)
  have q: "unat (h div epoch_length p) = H div L" by (simp add: unat_u32_div L_def H_def)
  have "unat (h div epoch_length p + 1) = H div L + 1" if "H mod L \<noteq> 0"
  proof -
    have "1 < L" using that by (cases "L = 1") (use L in auto)
    moreover have "0 < H" using that by (cases "H = 0") auto
    ultimately have "H div L < H" by (rule div_less_dividend)
    moreover have "H < 2 ^ 32" unfolding H_def by (rule u32_bound)
    ultimately have "H div L < 2 ^ 32 - 1" by linarith
    then show ?thesis using q by (simp add: unat_word_ariths)
  qed
  moreover have "(H + (L - 1)) div L = (if H mod L \<noteq> 0 then H div L + 1 else H div L)"
  proof -
    have "H + (L - 1) = L * (H div L) + (H mod L + (L - 1))" using mult_div_mod_eq[of L H] by linarith
    then have "(H + (L - 1)) div L = (L * (H div L) + (H mod L + (L - 1))) div L" by (rule arg_cong)
    then have "(H + (L - 1)) div L = H div L + (H mod L + (L - 1)) div L" using L by (simp only: div_mult_self4)
    moreover have "(H mod L + (L - 1)) div L = (if H mod L \<noteq> 0 then 1 else 0)"
      using L mod_less_divisor[OF L, of H] by (auto intro!: div_nat_eqI simp: div_less)
    ultimately show ?thesis by simp
  qed
  ultimately show ?thesis using q z by (simp add: GetEpoch_def Let_def H_def L_def)
qed

text \<open>Without overflow, the heights of an epoch are those between its start and its checkpoint.\<close>

lemma GetEpoch_eq_iff:
  assumes "epoch_length p \<noteq> 0" "e \<noteq> 0" "unat e * unat (epoch_length p) < 2 ^ 32"
  shows "GetEpoch p h = e \<longleftrightarrow> GetEpochStartHeight p e \<le> h \<and> h \<le> GetEpochCheckpointHeight p e"
proof -
  define L H E where d: "L = unat (epoch_length p)" "H = unat h" "E = unat e"
  have L: "0 < L" using assms(1) by (simp add: d unat_gt_0)
  have E: "0 < E" using assms(2) by (simp add: d unat_gt_0)
  obtain k where k: "E = Suc k" using E by (cases E) auto
  have EL: "E * L < 2 ^ 32" using assms(3) by (simp add: d)
  have kL: "k * L + 1 \<le> E * L" using L by (simp add: k)
  have "unat (GetEpoch p h) = (H + (L - 1)) div L" using GetEpoch_unat[OF assms(1)] by (simp add: d)
  then have "GetEpoch p h = e \<longleftrightarrow> (H + (L - 1)) div L = E" by (simp add: word_unat_eq_iff d)
  also have "\<dots> \<longleftrightarrow> E * L \<le> H + (L - 1) \<and> H + (L - 1) < Suc E * L"
    using L by (metis div_nat_eqI div_times_less_eq_dividend dividend_less_div_times mult.commute mult_Suc add.commute)
  also have "\<dots> \<longleftrightarrow> k * L + 1 \<le> H \<and> H \<le> E * L" using L by (auto simp: k)
  also have "k * L + 1 = unat (GetEpochStartHeight p e)"
  proof -
    have "unat (e - 1) = k" using k assms(2) by (simp add: unat_minus_one d)
    then have "unat ((e - 1) * epoch_length p) = k * L"
      using kL EL by (simp add: unat_word_ariths d)
    then show ?thesis using assms(2) kL EL by (simp add: GetEpochStartHeight_def GetEpochCheckpointHeight_def unat_word_ariths)
  qed
  also have "E * L = unat (GetEpochCheckpointHeight p e)"
    using EL by (simp add: GetEpochCheckpointHeight_def unat_word_ariths d)
  finally show ?thesis by (simp add: word_le_nat_alt d)
qed

end
