(* ===== verification/Solver.thy ===== *)
theory Solver
  imports Script
begin

section \<open>Standard script templates\<close>

text \<open>
  \<^verbatim>\<open>Solver\<close> of \<^verbatim>\<open>script/standard.cpp\<close> with its helpers, and the functions of \<^verbatim>\<open>esperanza/script.cpp\<close> that
  take the finalizer's key or address out of a transaction. \<^verbatim>\<open>Solver\<close> returns whether it succeeds, the
  type and the solutions; its outer \<^const>\<open>None\<close> is a failed assertion of \<^verbatim>\<open>DecodeOP_N\<close>, which a lemma
  rules out.
\<close>

datatype txnouttype = TX_NONSTANDARD | TX_PUBKEY | TX_PUBKEYHASH | TX_SCRIPTHASH | TX_MULTISIG | TX_NULL_DATA
  | TX_WITNESS_V0_SCRIPTHASH | TX_WITNESS_V0_KEYHASH | TX_WITNESS_V1_REMOTESTAKE_KEYHASH
  | TX_WITNESS_V2_REMOTESTAKE_SCRIPTHASH | TX_WITNESS_UNKNOWN | TX_COMMIT

definition MatchPayToPubkey :: "bytes \<Rightarrow> bytes option" where
  "MatchPayToPubkey script =
     (if length script = 65 + 2 \<and> script ! 0 = 65 \<and> last script = OP_CHECKSIG then
        (let pubkey = take 65 (drop 1 script) in if ValidSize pubkey then Some pubkey else None)
      else if length script = 33 + 2 \<and> script ! 0 = 33 \<and> last script = OP_CHECKSIG then
        (let pubkey = take 33 (drop 1 script) in if ValidSize pubkey then Some pubkey else None)
      else None)"

definition MatchPayToPubkeyHash :: "bytes \<Rightarrow> bytes option" where
  "MatchPayToPubkeyHash script =
     (if length script = 25 \<and> script ! 0 = OP_DUP \<and> script ! 1 = OP_HASH160 \<and> script ! 2 = 20 \<and>
         script ! 23 = OP_EQUALVERIFY \<and> script ! 24 = OP_CHECKSIG
      then Some (take 20 (drop 3 script)) else None)"

definition IsSmallInteger :: "u8 \<Rightarrow> bool" where
  "IsSmallInteger opcode \<longleftrightarrow> OP_1 \<le> opcode \<and> opcode \<le> OP_16"

text \<open>The loop that collects the keys; it leaves the opcode and the position of the operation that ended
  it.\<close>

function multisig_keys :: "bytes \<Rightarrow> bytes list \<times> u8 \<times> bytes" where
  "multisig_keys it =
     (case GetScriptOp it of (ok, opcode, data, it1) \<Rightarrow>
        if ok \<and> ValidSize data then (case multisig_keys it1 of (keys, r) \<Rightarrow> (data # keys, r))
        else ([], opcode, it1))"
  by auto

termination multisig_keys
  by (relation "measure length") (auto dest: GetScriptOp_ok_length)

declare multisig_keys.simps [simp del]

definition MatchMultisig :: "bytes \<Rightarrow> (nat \<times> bytes list) option option" where
  "MatchMultisig script =
     (if length script < 1 \<or> last script \<noteq> OP_CHECKMULTISIG then Some None
      else case GetScriptOp script of (ok, opcode, _, it) \<Rightarrow>
        if \<not> ok \<or> \<not> IsSmallInteger opcode then Some None
        else do {
          required \<leftarrow> DecodeOP_N opcode;
          case multisig_keys it of (pubkeys, opcode, it) \<Rightarrow>
            if \<not> IsSmallInteger opcode then Some None
            else do {
              keys \<leftarrow> DecodeOP_N opcode;
              Some (if length pubkeys \<noteq> keys \<or> keys < required then None
                    else if length it = 1 then Some (required, pubkeys) else None)
            }
        })"

definition Solver_witness :: "WitnessProgram \<Rightarrow> bool \<times> txnouttype \<times> bytes list" where
  "Solver_witness w =
     (if wp_IsPayToPubkeyHash w then (True, TX_WITNESS_V0_KEYHASH, [wp_program w ! 0])
      else if wp_IsPayToScriptHash w then (True, TX_WITNESS_V0_SCRIPTHASH, [wp_program w ! 0])
      else if IsRemoteStakingP2WPKH w then
        (True, TX_WITNESS_V1_REMOTESTAKE_KEYHASH, [wp_program w ! 0, wp_program w ! 1])
      else if IsRemoteStakingP2WSH w then
        (True, TX_WITNESS_V2_REMOTESTAKE_SCRIPTHASH, [wp_program w ! 0, wp_program w ! 1])
      else if wp_version w > 2 then (True, TX_WITNESS_UNKNOWN, [of_nat (wp_version w)] # wp_program w)
      else (False, TX_NONSTANDARD, []))"

definition Solver_keys :: "bytes \<Rightarrow> (bool \<times> txnouttype \<times> bytes list) option" where
  "Solver_keys s =
     (if length s \<ge> 1 \<and> s ! 0 = OP_RETURN \<and> IsPushOnly (drop 1 s) then Some (True, TX_NULL_DATA, [])
      else case MatchPayToPubkey s of Some data \<Rightarrow> Some (True, TX_PUBKEY, [data])
      | None \<Rightarrow> (case MatchPayToPubkeyHash s of Some data \<Rightarrow> Some (True, TX_PUBKEYHASH, [data])
      | None \<Rightarrow> do {
          m \<leftarrow> MatchMultisig s;
          Some (case m of
            Some (required, keys) \<Rightarrow>
              (True, TX_MULTISIG, [of_nat required] # keys @ [[of_nat (length keys)]])
          | None \<Rightarrow> (False, TX_NONSTANDARD, []))
        }))"

definition Solver :: "bytes \<Rightarrow> (bool \<times> txnouttype \<times> bytes list) option" where
  "Solver s =
     (if IsPayToScriptHash s then Some (True, TX_SCRIPTHASH, [take 20 (drop 2 s)])
      else if IsFinalizerCommitScript s then Some (True, TX_COMMIT, [take 33 (drop 1 s)])
      else do {
        w \<leftarrow> ExtractWitnessProgram s;
        (case w of Some w \<Rightarrow> Some (Solver_witness w) | None \<Rightarrow> Solver_keys s)
      })"

text \<open>\<^verbatim>\<open>ExtractValidatorPubkey\<close>: the outer option is the read \<^verbatim>\<open>vSolutions[0]\<close> (which may be empty), the
  read \<^verbatim>\<open>vout[0]\<close> and the type of the transaction.\<close>

definition ExtractValidatorPubkey :: "CTransaction \<Rightarrow> CPubKey option option" where
  "ExtractValidatorPubkey tx = do {
     t \<leftarrow> GetType tx;
     if t = VOTE then do {
       require (vout tx \<noteq> []);
       r \<leftarrow> Solver (scriptPubKey (vout tx ! 0));
       (case r of (ok, typeRet, vSolutions) \<Rightarrow>
          if ok then do { require (vSolutions \<noteq> []); Some (Some (CPubKey_of (vSolutions ! 0))) } else Some None)
     } else Some None
   }"

text \<open>\<^verbatim>\<open>ExtractValidatorAddress\<close>; in the \<^verbatim>\<open>WITHDRAW\<close> case the results of \<^verbatim>\<open>GetOp\<close> are not tested.\<close>

definition ExtractValidatorAddress :: "(bytes \<Rightarrow> u160) \<Rightarrow> CTransaction \<Rightarrow> u160 option option" where
  "ExtractValidatorAddress Hash160 tx = do {
     t \<leftarrow> GetType tx;
     if t = DEPOSIT \<or> t = LOGOUT then do {
       require (vout tx \<noteq> []);
       r \<leftarrow> Solver (scriptPubKey (vout tx ! 0));
       (case r of (ok, typeRet, vSolutions) \<Rightarrow>
          if ok then do {
            require (typeRet = TX_COMMIT);
            a \<leftarrow> GetID Hash160 (CPubKey_of (vSolutions ! 0));
            Some (Some a)
          } else Some None)
     } else if t = WITHDRAW then do {
       require (vin tx \<noteq> []);
       (case GetScriptOp (scriptSig (vin tx ! 0)) of (_, _, _, pc) \<Rightarrow>
        case GetScriptOp pc of (_, _, vData, _) \<Rightarrow> do {
          a \<leftarrow> GetID Hash160 (CPubKey_of vData);
          Some (Some a)
        })
     } else Some None
   }"

subsection \<open>No assertion of the decoder fails\<close>

lemma DecodeOP_N_small:
  assumes "IsSmallInteger opcode"
  shows "DecodeOP_N opcode = Some (unat opcode - 80)" and "81 \<le> unat opcode" and "unat opcode \<le> 96"
proof -
  show b: "81 \<le> unat opcode" "unat opcode \<le> 96"
    using assms unfolding IsSmallInteger_def word_le_nat_alt by simp_all
  then have "opcode \<noteq> 0" by auto
  then show "DecodeOP_N opcode = Some (unat opcode - 80)"
    using assms by (simp add: DecodeOP_N_def IsSmallInteger_def)
qed

lemma MatchMultisig_defined: "\<exists>r. MatchMultisig s = Some r"
proof -
  obtain ok opcode d it where g: "GetScriptOp s = (ok, opcode, d, it)" by (metis prod_cases4)
  obtain ks opcode2 it2 where m: "multisig_keys it = (ks, opcode2, it2)" by (metis prod_cases3)
  show ?thesis
    by (cases "IsSmallInteger opcode"; cases "IsSmallInteger opcode2")
      (simp_all add: MatchMultisig_def g m DecodeOP_N_small(1))
qed

lemma ExtractWitnessProgram_defined: "\<exists>r. ExtractWitnessProgram s = Some r"
proof (cases "IsWitnessProgram s")
  case True
  obtain ok opcode d pc where g: "GetScriptOp s = (ok, opcode, d, pc)" by (metis prod_cases4)
  have "opcode = OP_0 \<or> IsSmallInteger opcode" if ok
    using True that g by (auto simp: IsWitnessProgram_def IsSmallInteger_def not_less split: if_splits)
  then have "\<exists>n. DecodeOP_N opcode = Some n" if ok
    using that DecodeOP_N_small(1)[of opcode] by (auto simp: DecodeOP_N_def)
  with g True show ?thesis by (cases ok) (auto simp: ExtractWitnessProgram_def)
qed (simp add: ExtractWitnessProgram_def)

lemma Solver_defined: "Solver s \<noteq> None"
proof -
  obtain w where w: "ExtractWitnessProgram s = Some w" using ExtractWitnessProgram_defined by blast
  obtain m where m: "MatchMultisig s = Some m" using MatchMultisig_defined by blast
  have "Solver_keys s \<noteq> None" by (cases "MatchPayToPubkey s"; cases "MatchPayToPubkeyHash s") (simp_all add: Solver_keys_def m del: not_None_eq)
  then show ?thesis by (cases w) (simp_all add: Solver_def w del: not_None_eq)
qed

lemma commit_not_scripthash:
  assumes "IsFinalizerCommitScript s"
  shows "\<not> IsPayToScriptHash s"
proof
  assume "IsPayToScriptHash s"
  then have "length s = 23" by (simp only: IsPayToScriptHash_def)
  moreover have "(of_nat (length s) - of_nat 0 :: u64) = 64"
    using assms by (simp only: IsFinalizerCommitScript_def MatchFinalizerCommitScript_def)
  ultimately show False by simp
qed

lemma Solver_commit: "IsFinalizerCommitScript s \<Longrightarrow> Solver s = Some (True, TX_COMMIT, [take 33 (drop 1 s)])"
  by (simp only: Solver_def commit_not_scripthash if_True if_False)

text \<open>The commit template is the only one \<^verbatim>\<open>Solver\<close> gives the type \<^verbatim>\<open>TX_COMMIT\<close>.\<close>

lemma Solver_witness_type: "fst (snd (Solver_witness w)) \<noteq> TX_COMMIT"
  by (simp add: Solver_witness_def)

lemma Solver_keys_type:
  assumes "Solver_keys s = Some (ok, t, v)"
  shows "t \<noteq> TX_COMMIT"
proof -
  obtain m where "MatchMultisig s = Some m" using MatchMultisig_defined by blast
  with assms show ?thesis
    by (cases "MatchPayToPubkey s"; cases "MatchPayToPubkeyHash s"; cases m) (auto simp: Solver_keys_def split: if_splits)
qed

lemma Solver_TX_COMMIT:
  assumes "Solver s = Some (ok, TX_COMMIT, v)"
  shows "IsFinalizerCommitScript s"
proof (rule ccontr)
  assume n: "\<not> IsFinalizerCommitScript s"
  obtain w where w: "ExtractWitnessProgram s = Some w" using ExtractWitnessProgram_defined by blast
  show False
  proof (cases w)
    case None
    with assms n w have "Solver_keys s = Some (ok, TX_COMMIT, v)" by (simp add: Solver_def split: if_splits)
    then show False using Solver_keys_type by blast
  next
    case (Some p)
    with assms n w have "Solver_witness p = (ok, TX_COMMIT, v)" by (simp add: Solver_def split: if_splits)
    then show False using Solver_witness_type[of p] by simp
  qed
qed

end
