(* ===== verification/FinalizationState.thy ===== *)
theory FinalizationState
  imports FinalizationParams Solver
begin

section \<open>The finalization state\<close>

text \<open>
  \<^verbatim>\<open>esperanza/finalizationstate.cpp\<close> with the data classes \<^verbatim>\<open>Checkpoint\<close>, \<^verbatim>\<open>Validator\<close> and
  \<^verbatim>\<open>FinalizationStateData\<close>. The state is one record; \<^verbatim>\<open>m_settings\<close> is the argument \<open>p\<close>. Every method is one
  definition; a method that changes the object returns the changed record. \<^const>\<open>None\<close> is an abnormal end:
  a failed assertion, a missing key of \<^verbatim>\<open>std::map::at\<close>, a division by zero. The lock and the log messages
  are left out, and so is the flag \<^verbatim>\<open>log_errors\<close>, which only selects log messages. Reads that insert
  (\<^verbatim>\<open>emplace\<close> in \<^verbatim>\<open>GetDynastyDelta\<close>, \<^verbatim>\<open>GetCurDynastyVotes\<close>, \<^verbatim>\<open>GetPrevDynastyVotes\<close>) return the changed
  object with the value.
\<close>

datatype Result = SUCCESS | INIT_WRONG_EPOCH | INIT_INVALID_REWARD | DEPOSIT_INSUFFICIENT | DEPOSIT_DUPLICATE
  | VOTE_MALFORMED | VOTE_NOT_BY_VALIDATOR | VOTE_NOT_VOTABLE | VOTE_ALREADY_VOTED | VOTE_WRONG_TARGET_HASH
  | VOTE_WRONG_TARGET_EPOCH | VOTE_SRC_EPOCH_NOT_JUSTIFIED | LOGOUT_ALREADY_DONE | LOGOUT_NOT_A_VALIDATOR
  | LOGOUT_NOT_YET_A_VALIDATOR | WITHDRAW_TOO_EARLY | WITHDRAW_NOT_A_VALIDATOR | WITHDRAW_WRONG_AMOUNT
  | SLASH_SAME_VOTE | SLASH_NOT_SAME_VALIDATOR | SLASH_TOO_EARLY | SLASH_ALREADY_SLASHED | SLASH_NOT_VALID
  | SLASH_NOT_A_VALIDATOR | ADMIN_BLACKLISTED | ADMIN_NOT_AUTHORIZED

datatype InitStatus = NEW | FROM_COMMITS | COMPLETED

text \<open>The enumerators are compared as integers.\<close>

fun InitStatus_code :: "InitStatus \<Rightarrow> nat" where
  "InitStatus_code NEW = 0"
| "InitStatus_code FROM_COMMITS = 1"
| "InitStatus_code COMPLETED = 2"

instantiation InitStatus :: linorder
begin

definition less_eq_InitStatus :: "InitStatus \<Rightarrow> InitStatus \<Rightarrow> bool" where
  "less_eq_InitStatus a b \<longleftrightarrow> InitStatus_code a \<le> InitStatus_code b"

definition less_InitStatus :: "InitStatus \<Rightarrow> InitStatus \<Rightarrow> bool" where
  "less_InitStatus a b \<longleftrightarrow> InitStatus_code a < InitStatus_code b"

instance
proof
  fix x y z :: InitStatus
  show "x \<le> y \<Longrightarrow> y \<le> x \<Longrightarrow> x = y"
    by (cases x; cases y) (simp_all add: less_eq_InitStatus_def)
qed (auto simp: less_eq_InitStatus_def less_InitStatus_def)

end

definition MAX_END_DYNASTY :: u32 where
  "MAX_END_DYNASTY = - 1"

record Checkpoint =
  m_is_justified :: bool
  m_is_finalized :: bool
  m_cur_dynasty_deposits :: u64
  m_prev_dynasty_deposits :: u64
  m_cur_dynasty_votes :: "(u32, u64) fmap"
  m_prev_dynasty_votes :: "(u32, u64) fmap"
  m_vote_set :: "u160 fset"

record Validator =
  m_validator_address :: u160
  m_deposit :: u64
  m_start_dynasty :: u32
  m_end_dynasty :: u32
  m_is_slashed :: bool
  m_deposits_at_logout :: u64
  m_last_transaction_hash :: u256

record FinState =
  m_checkpoints :: "(u32, Checkpoint) fmap"
  m_dynasty_start_epoch :: "(u32, u32) fmap"
  m_validators :: "(u160, Validator) fmap"
  m_dynasty_deltas :: "(u32, amount) fmap"
  m_deposit_scale_factor :: "(u32, u64) fmap"
  m_total_slashed :: "(u32, amount) fmap"
  m_current_epoch :: u32
  m_current_dynasty :: u32
  m_cur_dyn_deposits :: amount
  m_prev_dyn_deposits :: amount
  m_expected_source_epoch :: u32
  m_last_finalized_epoch :: u32
  m_last_justified_epoch :: u32
  m_recommended_target_hash :: u256
  m_recommended_target_epoch :: u32
  m_reward_factor :: u64
  m_admin_state :: AdminState
  m_status :: InitStatus

subsection \<open>Checkpoints, validators and the initial state\<close>

definition Checkpoint_new :: Checkpoint where
  "Checkpoint_new = \<lparr>m_is_justified = False, m_is_finalized = False, m_cur_dynasty_deposits = 0,
     m_prev_dynasty_deposits = 0, m_cur_dynasty_votes = fmempty, m_prev_dynasty_votes = fmempty, m_vote_set = {||}\<rparr>"

definition GetCurDynastyVotes :: "u32 \<Rightarrow> Checkpoint \<Rightarrow> u64 \<times> Checkpoint" where
  "GetCurDynastyVotes epoch cp =
     (case fmlookup (m_cur_dynasty_votes cp) epoch of
        Some v \<Rightarrow> (v, cp)
      | None \<Rightarrow> (0, cp\<lparr>m_cur_dynasty_votes := fmupd epoch 0 (m_cur_dynasty_votes cp)\<rparr>))"

definition GetPrevDynastyVotes :: "u32 \<Rightarrow> Checkpoint \<Rightarrow> u64 \<times> Checkpoint" where
  "GetPrevDynastyVotes epoch cp =
     (case fmlookup (m_prev_dynasty_votes cp) epoch of
        Some v \<Rightarrow> (v, cp)
      | None \<Rightarrow> (0, cp\<lparr>m_prev_dynasty_votes := fmupd epoch 0 (m_prev_dynasty_votes cp)\<rparr>))"

definition Validator_new :: "u64 \<Rightarrow> u32 \<Rightarrow> u160 \<Rightarrow> Validator" where
  "Validator_new deposit startDynasty validatorAddress =
     \<lparr>m_validator_address = validatorAddress, m_deposit = deposit, m_start_dynasty = startDynasty,
      m_end_dynasty = MAX_END_DYNASTY, m_is_slashed = False, m_deposits_at_logout = 0, m_last_transaction_hash = 0\<rparr>"

definition BASE_DEPOSIT_SCALE_FACTOR :: u64 where
  "BASE_DEPOSIT_SCALE_FACTOR = to_ufp64 1"

definition FinState_new :: "(CPubKey \<Rightarrow> bool) \<Rightarrow> Params \<Rightarrow> FinState option" where
  "FinState_new IsFullyValid p = do {
     admin \<leftarrow> AdminState_new IsFullyValid (admin_params p);
     let cp = Checkpoint_new\<lparr>m_is_justified := True, m_is_finalized := True\<rparr>;
     Some \<lparr>m_checkpoints = fmupd 0 cp fmempty, m_dynasty_start_epoch = fmupd 0 1 fmempty, m_validators = fmempty,
       m_dynasty_deltas = fmupd 0 0 fmempty, m_deposit_scale_factor = fmupd 0 BASE_DEPOSIT_SCALE_FACTOR fmempty,
       m_total_slashed = fmupd 0 0 fmempty, m_current_epoch = 0, m_current_dynasty = 0,
       m_cur_dyn_deposits = 0, m_prev_dyn_deposits = 0, m_expected_source_epoch = 0,
       m_last_finalized_epoch = 0, m_last_justified_epoch = 0, m_recommended_target_hash = 0,
       m_recommended_target_epoch = 0, m_reward_factor = 0, m_admin_state = admin, m_status = NEW\<rparr>
   }"

text \<open>The constructor from a parent state.\<close>

definition FinState_copy :: "FinState \<Rightarrow> InitStatus \<Rightarrow> FinState" where
  "FinState_copy parent status = parent\<lparr>m_status := status\<rparr>"

text \<open>\<^verbatim>\<open>operator==\<close> does not compare the status.\<close>

definition FinState_eq :: "FinState \<Rightarrow> FinState \<Rightarrow> bool" where
  "FinState_eq a b \<longleftrightarrow> a\<lparr>m_status := NEW\<rparr> = b\<lparr>m_status := NEW\<rparr>"

subsection \<open>Private accessors\<close>

definition GetDepositScaleFactor :: "u32 \<Rightarrow> FinState \<Rightarrow> u64 option" where
  "GetDepositScaleFactor epoch st = fmlookup (m_deposit_scale_factor st) epoch"

definition GetTotalSlashed :: "u32 \<Rightarrow> FinState \<Rightarrow> u64 option" where
  "GetTotalSlashed epoch st = fmlookup (m_total_slashed st) epoch"

definition GetDynastyDelta :: "u32 \<Rightarrow> FinState \<Rightarrow> amount \<times> FinState" where
  "GetDynastyDelta dynasty st =
     (case fmlookup (m_dynasty_deltas st) dynasty of
        Some v \<Rightarrow> (v, st)
      | None \<Rightarrow> (0, st\<lparr>m_dynasty_deltas := fmupd dynasty 0 (m_dynasty_deltas st)\<rparr>))"

definition GetCheckpoint :: "u32 \<Rightarrow> FinState \<Rightarrow> Checkpoint option" where
  "GetCheckpoint epoch st = fmlookup (m_checkpoints st) epoch"

text \<open>A write through the reference \<^verbatim>\<open>GetCheckpoint\<close> returns, and one through \<^verbatim>\<open>m_validators.at\<close>.\<close>

definition set_checkpoint :: "u32 \<Rightarrow> Checkpoint \<Rightarrow> FinState \<Rightarrow> FinState" where
  "set_checkpoint epoch cp st = st\<lparr>m_checkpoints := fmupd epoch cp (m_checkpoints st)\<rparr>"

definition set_validator :: "u160 \<Rightarrow> Validator \<Rightarrow> FinState \<Rightarrow> FinState" where
  "set_validator a v st = st\<lparr>m_validators := fmupd a v (m_validators st)\<rparr>"

definition set_delta :: "u32 \<Rightarrow> amount \<Rightarrow> FinState \<Rightarrow> FinState" where
  "set_delta dynasty v st = st\<lparr>m_dynasty_deltas := fmupd dynasty v (m_dynasty_deltas st)\<rparr>"

definition RegisterLastTx :: "u160 \<Rightarrow> CTransaction \<Rightarrow> FinState \<Rightarrow> FinState option" where
  "RegisterLastTx validatorAddress tx st = do {
     validator \<leftarrow> fmlookup (m_validators st) validatorAddress;
     Some (set_validator validatorAddress (validator\<lparr>m_last_transaction_hash := tx_hash tx\<rparr>) st)
   }"

definition GetLastTxHash :: "u160 \<Rightarrow> FinState \<Rightarrow> u256 option" where
  "GetLastTxHash validatorAddress st = map_option m_last_transaction_hash (fmlookup (m_validators st) validatorAddress)"

subsection \<open>Queries\<close>

definition IsInDynasty :: "Validator \<Rightarrow> u32 \<Rightarrow> bool" where
  "IsInDynasty validator dynasty \<longleftrightarrow> m_start_dynasty validator \<le> dynasty \<and> dynasty < m_end_dynasty validator"

definition IsFinalizerVoting :: "FinState \<Rightarrow> Validator \<Rightarrow> bool" where
  "IsFinalizerVoting st finalizer \<longleftrightarrow>
     IsInDynasty finalizer (m_current_dynasty st) \<or> IsInDynasty finalizer (m_current_dynasty st - 1)"

definition GetValidator :: "FinState \<Rightarrow> u160 \<Rightarrow> Validator option" where
  "GetValidator st validatorAddress = fmlookup (m_validators st) validatorAddress"

definition IsFinalizerVoting_address :: "FinState \<Rightarrow> u160 \<Rightarrow> bool" where
  "IsFinalizerVoting_address st finalizer_address =
     (case GetValidator st finalizer_address of None \<Rightarrow> False | Some finalizer \<Rightarrow> IsFinalizerVoting st finalizer)"

definition GetActiveFinalizers :: "FinState \<Rightarrow> Validator list" where
  "GetActiveFinalizers st = filter (IsFinalizerVoting st) (map snd (sorted_list_of_fmap (m_validators st)))"

definition DepositExists :: "FinState \<Rightarrow> bool" where
  "DepositExists st \<longleftrightarrow> sint (m_cur_dyn_deposits st) > 0 \<and> sint (m_prev_dyn_deposits st) > 0"

definition GetEpochsSinceFinalization :: "FinState \<Rightarrow> u32" where
  "GetEpochsSinceFinalization st = m_current_epoch st - m_last_finalized_epoch st"

definition max_amount :: "amount \<Rightarrow> amount \<Rightarrow> amount" where
  "max_amount a b = (if sint a < sint b then b else a)"

definition GetSqrtOfTotalDeposits :: "FinState \<Rightarrow> u64 option" where
  "GetSqrtOfTotalDeposits st = do {
     scale \<leftarrow> GetDepositScaleFactor (m_current_epoch st - 1) st;
     total \<leftarrow> mul_to_uint scale (max_amount (m_prev_dyn_deposits st) (m_cur_dyn_deposits st));
     sqrt_uint (1 + total)
   }"

definition GetDepositSize :: "FinState \<Rightarrow> u160 \<Rightarrow> u64 option" where
  "GetDepositSize st validatorAddress =
     (case (fmlookup (m_validators st) validatorAddress, fmlookup (m_deposit_scale_factor st) (m_current_epoch st)) of
        (Some validator, Some scale) \<Rightarrow>
          if \<not> m_is_slashed validator then mul_to_uint scale (m_deposit validator) else Some 0
      | _ \<Rightarrow> Some 0)"

definition GetRecommendedVote :: "FinState \<Rightarrow> u160 \<Rightarrow> Vote" where
  "GetRecommendedVote st validatorAddress =
     \<lparr>v_validator_address = validatorAddress, m_target_hash = m_recommended_target_hash st,
      m_source_epoch = m_expected_source_epoch st, m_target_epoch = m_recommended_target_epoch st\<rparr>"

definition GetTotalCurDynDeposits :: "FinState \<Rightarrow> u64 option" where
  "GetTotalCurDynDeposits st = do {
     scale \<leftarrow> GetDepositScaleFactor (m_current_epoch st) st;
     mul_to_uint scale (m_cur_dyn_deposits st)
   }"

definition GetTotalPrevDynDeposits :: "FinState \<Rightarrow> u64 option" where
  "GetTotalPrevDynDeposits st =
     (if m_current_epoch st = 0 then Some 0
      else do {
        scale \<leftarrow> GetDepositScaleFactor (m_current_epoch st - 1) st;
        mul_to_uint scale (m_prev_dyn_deposits st)
      })"

text \<open>\<^verbatim>\<open>uint32_t + int64_t\<close>, truncated to 32 bits.\<close>

definition GetEndDynasty :: "Params \<Rightarrow> FinState \<Rightarrow> u32" where
  "GetEndDynasty p st = ucast (ucast (m_current_dynasty st) + dynasty_logout_delay p)"

definition CalculateVoteReward :: "FinState \<Rightarrow> Validator \<Rightarrow> u64 option" where
  "CalculateVoteReward st validator = mul_to_uint (m_reward_factor st) (m_deposit validator)"

definition IsFinalizedCheckpoint :: "Params \<Rightarrow> FinState \<Rightarrow> height \<Rightarrow> bool" where
  "IsFinalizedCheckpoint p st blockHeight =
     (if \<not> IsCheckpoint p blockHeight then False else GetEpoch p blockHeight \<le> m_last_finalized_epoch st)"

definition CalculateWithdrawEpoch :: "Params \<Rightarrow> FinState \<Rightarrow> Validator \<Rightarrow> u32 option" where
  "CalculateWithdrawEpoch p st finalizer =
     (if m_end_dynasty finalizer = MAX_END_DYNASTY then Some (- 1)
      else if m_current_dynasty st \<le> m_end_dynasty finalizer then Some (- 1)
      else do {
        end_epoch \<leftarrow> fmlookup (m_dynasty_start_epoch st) (m_end_dynasty finalizer + 1);
        Some (ucast (ucast end_epoch + withdrawal_epoch_delay p))
      })"

definition GetCurrentDynastyEpochStart :: "FinState \<Rightarrow> u32 option" where
  "GetCurrentDynastyEpochStart st = fmlookup (m_dynasty_start_epoch st) (m_current_dynasty st)"

definition ValidateDepositAmount :: "Params \<Rightarrow> amount \<Rightarrow> bool" where
  "ValidateDepositAmount p a \<longleftrightarrow> sint a \<ge> sint (min_deposit_size p)"

subsection \<open>Starting an epoch\<close>

definition InstaJustify :: "FinState \<Rightarrow> FinState option" where
  "InstaJustify st = do {
     cp \<leftarrow> GetCheckpoint (m_current_epoch st - 1) st;
     let cp = cp\<lparr>m_is_justified := True\<rparr>;
     let st = (set_checkpoint (m_current_epoch st - 1) cp st)\<lparr>m_last_justified_epoch := m_current_epoch st - 1\<rparr>;
     if m_current_epoch st > 1 then do {
       prev \<leftarrow> GetCheckpoint (m_current_epoch st - 2) st;
       Some (if m_is_justified prev
             then (set_checkpoint (m_current_epoch st - 1) (cp\<lparr>m_is_finalized := True\<rparr>) st)
                    \<lparr>m_last_finalized_epoch := m_last_justified_epoch st\<rparr>
             else st)
     } else Some st
   }"

definition IncrementDynasty :: "FinState \<Rightarrow> FinState option" where
  "IncrementDynasty st =
     (if m_current_epoch st < 3 then Some st
      else do {
        cp \<leftarrow> GetCheckpoint (m_current_epoch st - 2) st;
        if \<not> m_is_finalized cp then Some st
        else do {
          let st = st\<lparr>m_current_dynasty := m_current_dynasty st + 1\<rparr>;
          let st = st\<lparr>m_prev_dyn_deposits := m_cur_dyn_deposits st\<rparr>;
          let (delta, st) = GetDynastyDelta (m_current_dynasty st) st;
          let st = st\<lparr>m_cur_dyn_deposits := m_cur_dyn_deposits st + delta\<rparr>;
          let st = st\<lparr>m_dynasty_start_epoch := fmupd (m_current_dynasty st) (m_current_epoch st) (m_dynasty_start_epoch st)\<rparr>;
          Some (st\<lparr>m_checkpoints := fmfilter (\<lambda>e. \<not> e < m_last_finalized_epoch st) (m_checkpoints st)\<rparr>)
        }
      })"

definition GetCollectiveRewardFactor :: "FinState \<Rightarrow> (u64 \<times> FinState) option" where
  "GetCollectiveRewardFactor st =
     (let isLive = GetEpochsSinceFinalization st \<le> 2 in
      if \<not> DepositExists st \<or> \<not> isLive then Some (0, st)
      else do {
        require (m_last_finalized_epoch st = m_current_epoch st - 2);
        cp \<leftarrow> GetCheckpoint (m_last_finalized_epoch st) st;
        let (votes, cp) = GetCurDynastyVotes (m_expected_source_epoch st) cp;
        let st = set_checkpoint (m_last_finalized_epoch st) cp st;
        curVoteFraction \<leftarrow> div_2uint votes (m_cur_dyn_deposits st);
        cp \<leftarrow> GetCheckpoint (m_last_finalized_epoch st) st;
        let (votes, cp) = GetPrevDynastyVotes (m_expected_source_epoch st) cp;
        let st = set_checkpoint (m_last_finalized_epoch st) cp st;
        prevVoteFraction \<leftarrow> div_2uint votes (m_prev_dyn_deposits st);
        let voteFraction = ufp_min curVoteFraction prevVoteFraction;
        product \<leftarrow> ufp_mul voteFraction (m_reward_factor st);
        half \<leftarrow> div_by_uint product 2;
        Some (half, st)
      })"

text \<open>The tail of \<^verbatim>\<open>InitializeEpoch\<close> from \<^verbatim>\<open>IncrementDynasty\<close> on.\<close>

definition InitializeEpoch_tail :: "FinState \<Rightarrow> (Result \<times> FinState) option" where
  "InitializeEpoch_tail st = do {
     st \<leftarrow> IncrementDynasty st;
     st \<leftarrow> (if GetActiveFinalizers st = [] then InstaJustify st else Some st);
     Some (SUCCESS, st\<lparr>m_expected_source_epoch := m_last_justified_epoch st\<rparr>)
   }"

text \<open>The part before it: the reward factor of the epoch.\<close>

definition InitializeEpoch_reward :: "Params \<Rightarrow> FinState \<Rightarrow> (Result \<times> FinState) option" where
  "InitializeEpoch_reward p st =
     (if DepositExists st then do {
        sqrt \<leftarrow> GetSqrtOfTotalDeposits st;
        interestBase \<leftarrow> ufp_div (base_interest_factor p) sqrt;
        let st = st\<lparr>m_reward_factor := ufp_add interestBase
             (mul_by_uint (base_penalty_factor p) (ucast (GetEpochsSinceFinalization st)))\<rparr>;
        if m_reward_factor st \<le> 0 then Some (INIT_INVALID_REWARD, st) else InitializeEpoch_tail st
      } else InitializeEpoch_tail (st\<lparr>m_reward_factor := 0\<rparr>))"

definition InitializeEpoch :: "Params \<Rightarrow> height \<Rightarrow> FinState \<Rightarrow> (Result \<times> FinState) option" where
  "InitializeEpoch p blockHeight st = do {
     require (IsEpochStart p blockHeight);
     let new_epoch = GetEpoch p blockHeight;
     if new_epoch \<noteq> m_current_epoch st + 1 then Some (INIT_WRONG_EPOCH, st)
     else do {
       cur \<leftarrow> GetTotalCurDynDeposits st;
       prev \<leftarrow> GetTotalPrevDynDeposits st;
       let cp = Checkpoint_new\<lparr>m_cur_dynasty_deposits := cur, m_prev_dynasty_deposits := prev\<rparr>;
       let st = (set_checkpoint new_epoch cp st)\<lparr>m_current_epoch := new_epoch\<rparr>;
       (factor, st) \<leftarrow> GetCollectiveRewardFactor st;
       let last_voter_rescale = add_uint factor 1;
       last_non_voter_rescale \<leftarrow> ufp_div last_voter_rescale (add_uint (m_reward_factor st) 1);
       scale \<leftarrow> GetDepositScaleFactor (new_epoch - 1) st;
       new_scale \<leftarrow> ufp_mul last_non_voter_rescale scale;
       let st = st\<lparr>m_deposit_scale_factor := fmupd new_epoch new_scale (m_deposit_scale_factor st)\<rparr>;
       slashed \<leftarrow> GetTotalSlashed (new_epoch - 1) st;
       let st = st\<lparr>m_total_slashed := fmupd new_epoch slashed (m_total_slashed st)\<rparr>;
       InitializeEpoch_reward p st
     }
   }"

subsection \<open>Deposits\<close>

definition ValidateDeposit :: "Params \<Rightarrow> FinState \<Rightarrow> u160 \<Rightarrow> amount \<Rightarrow> Result" where
  "ValidateDeposit p st validatorAddress depositValue =
     (if \<not> IsValidatorAuthorized (m_admin_state st) validatorAddress then ADMIN_BLACKLISTED
      else if fmlookup (m_validators st) validatorAddress \<noteq> None then DEPOSIT_DUPLICATE
      else if sint depositValue < sint (min_deposit_size p) then DEPOSIT_INSUFFICIENT
      else SUCCESS)"

text \<open>\<^verbatim>\<open>std::map::insert\<close> keeps an element that is already there.\<close>

definition ProcessDeposit :: "u160 \<Rightarrow> amount \<Rightarrow> FinState \<Rightarrow> FinState option" where
  "ProcessDeposit validatorAddress depositValue st = do {
     let startDynasty = m_current_dynasty st + 2;
     scale \<leftarrow> GetDepositScaleFactor (m_current_epoch st) st;
     scaledDeposit \<leftarrow> div_to_uint depositValue scale;
     let st = (if fmlookup (m_validators st) validatorAddress = None
               then set_validator validatorAddress (Validator_new scaledDeposit startDynasty validatorAddress) st else st);
     let (delta, st) = GetDynastyDelta startDynasty st;
     Some (set_delta startDynasty (delta + scaledDeposit) st)
   }"

subsection \<open>Votes\<close>

definition IsVotable :: "FinState \<Rightarrow> Validator \<Rightarrow> u256 \<Rightarrow> u32 \<Rightarrow> u32 \<Rightarrow> Result" where
  "IsVotable st validator targetHash targetEpoch sourceEpoch =
     (case fmlookup (m_checkpoints st) targetEpoch of None \<Rightarrow> VOTE_MALFORMED
      | Some targetCheckpoint \<Rightarrow>
        if m_validator_address validator |\<in>| m_vote_set targetCheckpoint then VOTE_ALREADY_VOTED
        else if targetHash \<noteq> m_recommended_target_hash st then VOTE_WRONG_TARGET_HASH
        else if targetEpoch \<noteq> m_current_epoch st - 1 then VOTE_WRONG_TARGET_EPOCH
        else case fmlookup (m_checkpoints st) sourceEpoch of None \<Rightarrow> VOTE_MALFORMED
          | Some sourceCheckpoint \<Rightarrow>
            if \<not> m_is_justified sourceCheckpoint then VOTE_SRC_EPOCH_NOT_JUSTIFIED
            else if IsFinalizerVoting st validator then SUCCESS
            else VOTE_NOT_VOTABLE)"

definition ValidateVote :: "FinState \<Rightarrow> Vote \<Rightarrow> Result" where
  "ValidateVote st vote =
     (if \<not> IsValidatorAuthorized (m_admin_state st) (v_validator_address vote) then ADMIN_BLACKLISTED
      else case fmlookup (m_validators st) (v_validator_address vote) of None \<Rightarrow> VOTE_NOT_BY_VALIDATOR
        | Some validator \<Rightarrow>
            IsVotable st validator (m_target_hash vote) (m_target_epoch vote) (m_source_epoch vote))"

definition ProcessReward :: "u160 \<Rightarrow> u64 \<Rightarrow> FinState \<Rightarrow> (amount \<times> FinState) option" where
  "ProcessReward validatorAddress reward st = do {
     validator \<leftarrow> fmlookup (m_validators st) validatorAddress;
     let validator = validator\<lparr>m_deposit := m_deposit validator + reward\<rparr>;
     let st = set_validator validatorAddress validator st;
     let startDynasty = m_start_dynasty validator;
     let endDynasty = m_end_dynasty validator;
     let st = (if startDynasty \<le> m_current_dynasty st \<and> m_current_dynasty st < endDynasty
               then st\<lparr>m_cur_dyn_deposits := m_cur_dyn_deposits st + reward\<rparr> else st);
     let st = (if startDynasty \<le> m_current_dynasty st - 1 \<and> m_current_dynasty st - 1 < endDynasty
               then st\<lparr>m_prev_dyn_deposits := m_prev_dyn_deposits st + reward\<rparr> else st);
     let st = (if endDynasty < MAX_END_DYNASTY
               then (case GetDynastyDelta endDynasty st of (delta, st) \<Rightarrow> set_delta endDynasty (delta - reward) st) else st);
     scale \<leftarrow> GetDepositScaleFactor (m_current_epoch st) st;
     scaled \<leftarrow> mul_to_uint scale (m_deposit validator);
     Some (scaled, st)
   }"

text \<open>The threshold \<^verbatim>\<open>div_to_uint(deposits * 2, to_ufp64(3))\<close>.\<close>

definition two_thirds :: "amount \<Rightarrow> u64 option" where
  "two_thirds deposits = div_to_uint (deposits * 2) (to_ufp64 3)"

text \<open>The last part of \<^verbatim>\<open>ProcessVote\<close>: justification and finalization of the target.\<close>

definition justify_target :: "u32 \<Rightarrow> u32 \<Rightarrow> u64 \<Rightarrow> u64 \<Rightarrow> FinState \<Rightarrow> FinState option" where
  "justify_target targetEpoch sourceEpoch curDynastyVotes prevDynastyVotes st = do {
     cur_threshold \<leftarrow> two_thirds (m_cur_dyn_deposits st);
     prev_threshold \<leftarrow> two_thirds (m_prev_dyn_deposits st);
     let enoughVotes = (curDynastyVotes \<ge> cur_threshold \<and> prevDynastyVotes \<ge> prev_threshold);
     if enoughVotes then do {
       cp \<leftarrow> GetCheckpoint targetEpoch st;
       if \<not> m_is_justified cp then do {
         let cp = cp\<lparr>m_is_justified := True\<rparr>;
         let st = (set_checkpoint targetEpoch cp st)\<lparr>m_last_justified_epoch := targetEpoch\<rparr>;
         Some (if targetEpoch = sourceEpoch + 1
               then (set_checkpoint targetEpoch (cp\<lparr>m_is_finalized := True\<rparr>) st)\<lparr>m_last_finalized_epoch := targetEpoch\<rparr>
               else st)
       } else Some st
     } else Some st
   }"

definition ProcessVote :: "Vote \<Rightarrow> FinState \<Rightarrow> FinState option" where
  "ProcessVote vote st = do {
     let targetEpoch = m_target_epoch vote;
     let sourceEpoch = m_source_epoch vote;
     let validatorAddress = v_validator_address vote;
     cp \<leftarrow> GetCheckpoint targetEpoch st;
     let st = set_checkpoint targetEpoch (cp\<lparr>m_vote_set := finsert validatorAddress (m_vote_set cp)\<rparr>) st;
     validator \<leftarrow> fmlookup (m_validators st) validatorAddress;
     let inCurDynasty = IsInDynasty validator (m_current_dynasty st);
     let inPrevDynasty = IsInDynasty validator (m_current_dynasty st - 1);
     cp \<leftarrow> GetCheckpoint targetEpoch st;
     let (curDynastyVotes, cp) = GetCurDynastyVotes sourceEpoch cp;
     let (prevDynastyVotes, cp) = GetPrevDynastyVotes sourceEpoch cp;
     let (curDynastyVotes, cp) =
       (if inCurDynasty
        then (curDynastyVotes + m_deposit validator,
              cp\<lparr>m_cur_dynasty_votes := fmupd sourceEpoch (curDynastyVotes + m_deposit validator) (m_cur_dynasty_votes cp)\<rparr>)
        else (curDynastyVotes, cp));
     let (prevDynastyVotes, cp) =
       (if inPrevDynasty
        then (prevDynastyVotes + m_deposit validator,
              cp\<lparr>m_prev_dynasty_votes := fmupd sourceEpoch (prevDynastyVotes + m_deposit validator) (m_prev_dynasty_votes cp)\<rparr>)
        else (prevDynastyVotes, cp));
     let st = set_checkpoint targetEpoch cp st;
     st \<leftarrow> (if m_expected_source_epoch st = sourceEpoch
            then do {
              reward \<leftarrow> CalculateVoteReward st validator;
              (_, st) \<leftarrow> ProcessReward validatorAddress reward st;
              Some st
            } else Some st);
     justify_target targetEpoch sourceEpoch curDynastyVotes prevDynastyVotes st
   }"

subsection \<open>Logout and withdraw\<close>

definition ValidateLogout :: "Params \<Rightarrow> FinState \<Rightarrow> u160 \<Rightarrow> Result" where
  "ValidateLogout p st validatorAddress =
     (case fmlookup (m_validators st) validatorAddress of None \<Rightarrow> LOGOUT_NOT_A_VALIDATOR
      | Some validator \<Rightarrow>
        if m_start_dynasty validator > m_current_dynasty st then LOGOUT_NOT_YET_A_VALIDATOR
        else if m_end_dynasty validator \<le> GetEndDynasty p st then LOGOUT_ALREADY_DONE
        else SUCCESS)"

definition ProcessLogout :: "Params \<Rightarrow> u160 \<Rightarrow> FinState \<Rightarrow> FinState option" where
  "ProcessLogout p validatorAddress st = do {
     validator \<leftarrow> fmlookup (m_validators st) validatorAddress;
     let endDyn = GetEndDynasty p st;
     let validator = validator\<lparr>m_end_dynasty := endDyn, m_deposits_at_logout := m_cur_dyn_deposits st\<rparr>;
     let st = set_validator validatorAddress validator st;
     let (delta, st) = GetDynastyDelta endDyn st;
     Some (set_delta endDyn (delta - m_deposit validator) st)
   }"

text \<open>The result and \<^verbatim>\<open>withdrawAmountOut\<close>.\<close>

definition CalculateWithdrawAmount :: "Params \<Rightarrow> FinState \<Rightarrow> u160 \<Rightarrow> (Result \<times> amount) option" where
  "CalculateWithdrawAmount p st validatorAddress =
     (case fmlookup (m_validators st) validatorAddress of None \<Rightarrow> Some (WITHDRAW_NOT_A_VALIDATOR, 0)
      | Some validator \<Rightarrow> do {
          withdrawalEpoch \<leftarrow> CalculateWithdrawEpoch p st validator;
          if m_current_epoch st < withdrawalEpoch then Some (WITHDRAW_TOO_EARLY, 0)
          else do {
            let endEpoch = (ucast (ucast withdrawalEpoch - withdrawal_epoch_delay p) :: u32);
            if \<not> m_is_slashed validator then do {
              scale \<leftarrow> GetDepositScaleFactor endEpoch st;
              a \<leftarrow> mul_to_uint scale (m_deposit validator);
              Some (SUCCESS, a)
            } else do {
              let baseEpoch = (if sint (2 * withdrawal_epoch_delay p) > sint (ucast withdrawalEpoch :: u64) then 0
                   else (ucast (ucast withdrawalEpoch - 2 * withdrawal_epoch_delay p) :: u32));
              s1 \<leftarrow> GetTotalSlashed withdrawalEpoch st;
              s0 \<leftarrow> GetTotalSlashed baseEpoch st;
              let recentlySlashed = s1 - s0;
              fractionToSlash \<leftarrow> div_2uint (recentlySlashed * slash_fraction_multiplier p) (m_deposits_at_logout validator);
              scale \<leftarrow> GetDepositScaleFactor withdrawalEpoch st;
              depositSize \<leftarrow> mul_to_uint scale (m_deposit validator);
              if fractionToSlash \<ge> to_ufp64 1 then Some (SUCCESS, 0)
              else do {
                a \<leftarrow> mul_to_uint (ufp_sub (to_ufp64 1) fractionToSlash) depositSize;
                Some (SUCCESS, a)
              }
            }
          }
        })"

text \<open>In the sources the result of \<^verbatim>\<open>fail(Result::WITHDRAW_WRONG_AMOUNT, ...)\<close> is dropped: the branch only
  logs.\<close>

definition ValidateWithdraw :: "Params \<Rightarrow> FinState \<Rightarrow> u160 \<Rightarrow> amount \<Rightarrow> Result option" where
  "ValidateWithdraw p st validatorAddress requestedWithdraw = do {
     (res, withdrawableAmount) \<leftarrow> CalculateWithdrawAmount p st validatorAddress;
     if res \<noteq> SUCCESS then Some res
     else if sint withdrawableAmount < sint requestedWithdraw then Some SUCCESS
     else Some SUCCESS
   }"

definition DeleteValidator :: "u160 \<Rightarrow> FinState \<Rightarrow> FinState" where
  "DeleteValidator validatorAddress st = st\<lparr>m_validators := fmdrop validatorAddress (m_validators st)\<rparr>"

definition ProcessWithdraw :: "u160 \<Rightarrow> FinState \<Rightarrow> FinState" where
  "ProcessWithdraw validatorAddress st = DeleteValidator validatorAddress st"

subsection \<open>Administration\<close>

definition IsPermissioningActive :: "FinState \<Rightarrow> bool" where
  "IsPermissioningActive st = m_permissioning_is_active (m_admin_state st)"

definition ValidateAdminKeys :: "FinState \<Rightarrow> AdminKeySet \<Rightarrow> Result option" where
  "ValidateAdminKeys st adminKeys = do {
     ok \<leftarrow> IsAdminAuthorized (m_admin_state st) adminKeys;
     Some (if ok then SUCCESS else ADMIN_NOT_AUTHORIZED)
   }"

fun for_keys :: "(bytes \<Rightarrow> u160) \<Rightarrow> (u160 \<Rightarrow> AdminState \<Rightarrow> AdminState) \<Rightarrow> CPubKey list \<Rightarrow> AdminState \<Rightarrow> AdminState option" where
  "for_keys Hash160 f [] s = Some s"
| "for_keys Hash160 f (pubkey # r) s = do { a \<leftarrow> GetID Hash160 pubkey; for_keys Hash160 f r (f a s) }"

definition ProcessAdminCommand :: "(bytes \<Rightarrow> u160) \<Rightarrow> AdminCommand \<Rightarrow> AdminState \<Rightarrow> AdminState option" where
  "ProcessAdminCommand Hash160 command s =
     (case m_command_type command of
        ADD_TO_WHITELIST \<Rightarrow> for_keys Hash160 AddValidator (m_payload command) s
      | REMOVE_FROM_WHITELIST \<Rightarrow> for_keys Hash160 RemoveValidator (m_payload command) s
      | RESET_ADMINS \<Rightarrow> do {
          require (ADMIN_MULTISIG_KEYS \<le> length (m_payload command));
          Some (ResetAdmin (take ADMIN_MULTISIG_KEYS (m_payload command)) s)
        }
      | END_PERMISSIONING \<Rightarrow> Some (EndPermissioning s))"

fun ProcessAdminCommands_loop :: "(bytes \<Rightarrow> u160) \<Rightarrow> AdminCommand list \<Rightarrow> AdminState \<Rightarrow> AdminState option" where
  "ProcessAdminCommands_loop Hash160 [] s = Some s"
| "ProcessAdminCommands_loop Hash160 (command # r) s = do {
     s \<leftarrow> ProcessAdminCommand Hash160 command s;
     ProcessAdminCommands_loop Hash160 r s
   }"

definition ProcessAdminCommands :: "(bytes \<Rightarrow> u160) \<Rightarrow> AdminCommand list \<Rightarrow> FinState \<Rightarrow> FinState option" where
  "ProcessAdminCommands Hash160 commands st = do {
     s \<leftarrow> ProcessAdminCommands_loop Hash160 commands (m_admin_state st);
     Some (st\<lparr>m_admin_state := s\<rparr>)
   }"

subsection \<open>Slashing\<close>

definition isDoubleVote :: "Vote \<Rightarrow> Vote \<Rightarrow> bool" where
  "isDoubleVote vote1 vote2 \<longleftrightarrow> m_target_epoch vote1 = m_target_epoch vote2"

definition isSurroundVote :: "Vote \<Rightarrow> Vote \<Rightarrow> bool" where
  "isSurroundVote vote1 vote2 \<longleftrightarrow>
     (m_target_epoch vote1 > m_target_epoch vote2 \<and> m_source_epoch vote1 < m_source_epoch vote2) \<or>
     (m_target_epoch vote2 > m_target_epoch vote1 \<and> m_source_epoch vote2 < m_source_epoch vote1)"

definition IsSlashable :: "FinState \<Rightarrow> Vote \<Rightarrow> Vote \<Rightarrow> Result" where
  "IsSlashable st vote1 vote2 =
     (case fmlookup (m_validators st) (v_validator_address vote1) of None \<Rightarrow> SLASH_NOT_A_VALIDATOR
      | Some validator1 \<Rightarrow>
      case fmlookup (m_validators st) (v_validator_address vote2) of None \<Rightarrow> SLASH_NOT_A_VALIDATOR
      | Some validator2 \<Rightarrow>
        if m_validator_address validator1 \<noteq> m_validator_address validator2 then SLASH_NOT_SAME_VALIDATOR
        else if m_start_dynasty validator1 > m_current_dynasty st then SLASH_TOO_EARLY
        else if m_is_slashed validator1 then SLASH_ALREADY_SLASHED
        else if m_target_hash vote1 = m_target_hash vote2 then SLASH_SAME_VOTE
        else if isDoubleVote vote1 vote2 \<or> isSurroundVote vote1 vote2 then SUCCESS
        else SLASH_NOT_VALID)"

definition ProcessSlash :: "Vote \<Rightarrow> Vote \<Rightarrow> FinState \<Rightarrow> FinState option" where
  "ProcessSlash vote1 vote2 st = do {
     let validatorAddress = v_validator_address vote1;
     validatorDeposit \<leftarrow> GetDepositSize st validatorAddress;
     slashed \<leftarrow> GetTotalSlashed (m_current_epoch st) st;
     let st = st\<lparr>m_total_slashed := fmupd (m_current_epoch st) (slashed + validatorDeposit) (m_total_slashed st)\<rparr>;
     validator \<leftarrow> fmlookup (m_validators st) validatorAddress;
     let validator = validator\<lparr>m_is_slashed := True\<rparr>;
     let st = set_validator validatorAddress validator st;
     let endDynasty = m_end_dynasty validator;
     if m_current_dynasty st < endDynasty then do {
       let deposit = m_deposit validator;
       let next_dynasty = m_current_dynasty st + 1;
       let (delta, st) = GetDynastyDelta next_dynasty st;
       let st = set_delta next_dynasty (delta - deposit) st;
       let validator = validator\<lparr>m_end_dynasty := next_dynasty\<rparr>;
       let st = set_validator validatorAddress validator st;
       if endDynasty < MAX_END_DYNASTY then do {
         let (delta, st) = GetDynastyDelta endDynasty st;
         Some (set_delta endDynasty (delta + deposit) st)
       } else do {
         total \<leftarrow> GetTotalCurDynDeposits st;
         Some (set_validator validatorAddress (validator\<lparr>m_deposits_at_logout := total\<rparr>) st)
       }
     } else Some st
   }"

subsection \<open>Blocks\<close>

text \<open>The outputs of an admin transaction that carry a command.\<close>

fun admin_commands :: "CTxOut list \<Rightarrow> AdminCommand list option" where
  "admin_commands [] = Some []"
| "admin_commands (output # r) =
     (if \<not> MatchAdminCommand (scriptPubKey output) then admin_commands r
      else do {
        command \<leftarrow> DecodeAdminCommand (scriptPubKey output);
        commands \<leftarrow> admin_commands r;
        Some (command # commands)
      })"

text \<open>\<^verbatim>\<open>const bool ok = f(...); assert(ok);\<close>\<close>

definition asserted :: "'a option option \<Rightarrow> 'a option" where
  "asserted r = Option.bind r (\<lambda>x. x)"

definition ProcessNewCommit :: "(bytes \<Rightarrow> u160) \<Rightarrow> Params \<Rightarrow> CTransaction \<Rightarrow> FinState \<Rightarrow> FinState option" where
  "ProcessNewCommit Hash160 p tx st = do {
     t \<leftarrow> GetType tx;
     (case t of
        VOTE \<Rightarrow> do {
          require (vin tx \<noteq> []);
          (vote, _) \<leftarrow> asserted (ExtractVoteFromVoteSignature (scriptSig (vin tx ! 0)));
          st \<leftarrow> ProcessVote vote st;
          RegisterLastTx (v_validator_address vote) tx st
        }
      | DEPOSIT \<Rightarrow> do {
          validatorAddress \<leftarrow> asserted (ExtractValidatorAddress Hash160 tx);
          require (vout tx \<noteq> []);
          st \<leftarrow> ProcessDeposit validatorAddress (nValue (vout tx ! 0)) st;
          RegisterLastTx validatorAddress tx st
        }
      | LOGOUT \<Rightarrow> do {
          validatorAddress \<leftarrow> asserted (ExtractValidatorAddress Hash160 tx);
          st \<leftarrow> ProcessLogout p validatorAddress st;
          RegisterLastTx validatorAddress tx st
        }
      | WITHDRAW \<Rightarrow> do {
          validatorAddress \<leftarrow> asserted (ExtractValidatorAddress Hash160 tx);
          Some (ProcessWithdraw validatorAddress st)
        }
      | SLASH \<Rightarrow> do {
          require (vin tx \<noteq> []);
          ((vote1, _), (vote2, _)) \<leftarrow> asserted (ExtractVotesFromSlashSignature (scriptSig (vin tx ! 0)));
          ProcessSlash vote1 vote2 st
        }
      | ADMIN \<Rightarrow> do {
          commands \<leftarrow> admin_commands (vout tx);
          ProcessAdminCommands Hash160 commands st
        }
      | COINBASE \<Rightarrow> Some st
      | REGULAR \<Rightarrow> Some st)
   }"

fun ProcessNewCommit_loop :: "(bytes \<Rightarrow> u160) \<Rightarrow> Params \<Rightarrow> CTransaction list \<Rightarrow> FinState \<Rightarrow> FinState option" where
  "ProcessNewCommit_loop Hash160 p [] st = Some st"
| "ProcessNewCommit_loop Hash160 p (tx # r) st = do {
     st \<leftarrow> ProcessNewCommit Hash160 p tx st;
     ProcessNewCommit_loop Hash160 p r st
   }"

text \<open>The height and hash of the \<^verbatim>\<open>CBlockIndex\<close> are arguments. The result of \<^verbatim>\<open>InitializeEpoch\<close> is not
  looked at.\<close>

definition ProcessNewCommits ::
  "(bytes \<Rightarrow> u160) \<Rightarrow> Params \<Rightarrow> height \<Rightarrow> u256 \<Rightarrow> CTransaction list \<Rightarrow> FinState \<Rightarrow> FinState option" where
  "ProcessNewCommits Hash160 p nHeight block_hash txes st = do {
     require (m_status st = NEW);
     st \<leftarrow> (if IsEpochStart p nHeight then map_option snd (InitializeEpoch p nHeight st) else Some st);
     st \<leftarrow> ProcessNewCommit_loop Hash160 p txes st;
     let st = (if IsCheckpoint p nHeight
               then st\<lparr>m_recommended_target_hash := block_hash, m_recommended_target_epoch := GetEpoch p nHeight\<rparr> else st);
     Some (st\<lparr>m_status := FROM_COMMITS\<rparr>)
   }"

definition ProcessNewTip ::
  "(bytes \<Rightarrow> u160) \<Rightarrow> Params \<Rightarrow> height \<Rightarrow> u256 \<Rightarrow> CTransaction list \<Rightarrow> FinState \<Rightarrow> FinState option" where
  "ProcessNewTip Hash160 p nHeight block_hash vtx st = do {
     require (m_status st = NEW);
     st \<leftarrow> ProcessNewCommits Hash160 p nHeight block_hash vtx st;
     Some (st\<lparr>m_status := COMPLETED\<rparr>)
   }"

end
