(* ===== verification/FinStateSpec.thy ===== *)
theory FinStateSpec
  imports FinalizationState
begin

section \<open>What the operations on the finalization state compute\<close>

text \<open>
  Each operation of \<^verbatim>\<open>FinalizationState\<close> as one record update, with the conditions under which it ends
  normally. The later theories reason from these equations; \<open>fin_spec\<close> collects them.
\<close>

named_theorems fin_spec \<open>operations on the finalization state as record updates\<close>

subsection \<open>Reads that insert\<close>

lemma GetDynastyDelta_spec:
  "GetDynastyDelta d st = (lookup0 (m_dynasty_deltas st) d,
     st\<lparr>m_dynasty_deltas := (if fmlookup (m_dynasty_deltas st) d = None then fmupd d 0 (m_dynasty_deltas st) else m_dynasty_deltas st)\<rparr>)"
  by (cases "fmlookup (m_dynasty_deltas st) d") (simp_all add: GetDynastyDelta_def lookup0_def)

lemma set_delta_after_read [simp]:
  "set_delta d v (st\<lparr>m_dynasty_deltas := (if c then fmupd d 0 (m_dynasty_deltas st) else m_dynasty_deltas st)\<rparr>) =
   st\<lparr>m_dynasty_deltas := fmupd d v (m_dynasty_deltas st)\<rparr>"
  by (simp add: set_delta_def)

lemma lookup0_insert_zero [simp]:
  "lookup0 (if fmlookup m d = None then fmupd d 0 m else m) k = lookup0 m k"
  by (simp add: lookup0_def)

lemma fst_GetCurDynastyVotes [simp]:
  "fst (GetCurDynastyVotes e cp) = lookup0 (m_cur_dynasty_votes cp) e"
  by (cases "fmlookup (m_cur_dynasty_votes cp) e") (simp_all add: GetCurDynastyVotes_def lookup0_def)

lemma fst_GetPrevDynastyVotes [simp]:
  "fst (GetPrevDynastyVotes e cp) = lookup0 (m_prev_dynasty_votes cp) e"
  by (cases "fmlookup (m_prev_dynasty_votes cp) e") (simp_all add: GetPrevDynastyVotes_def lookup0_def)

lemma snd_GetCurDynastyVotes [simp]:
  "m_is_justified (snd (GetCurDynastyVotes e cp)) = m_is_justified cp"
  "m_is_finalized (snd (GetCurDynastyVotes e cp)) = m_is_finalized cp"
  "m_vote_set (snd (GetCurDynastyVotes e cp)) = m_vote_set cp"
  "m_prev_dynasty_votes (snd (GetCurDynastyVotes e cp)) = m_prev_dynasty_votes cp"
  "lookup0 (m_cur_dynasty_votes (snd (GetCurDynastyVotes e cp))) k = lookup0 (m_cur_dynasty_votes cp) k"
  by (simp_all add: GetCurDynastyVotes_def lookup0_def split: option.split)

lemma snd_GetPrevDynastyVotes [simp]:
  "m_is_justified (snd (GetPrevDynastyVotes e cp)) = m_is_justified cp"
  "m_is_finalized (snd (GetPrevDynastyVotes e cp)) = m_is_finalized cp"
  "m_vote_set (snd (GetPrevDynastyVotes e cp)) = m_vote_set cp"
  "m_cur_dynasty_votes (snd (GetPrevDynastyVotes e cp)) = m_cur_dynasty_votes cp"
  "lookup0 (m_prev_dynasty_votes (snd (GetPrevDynastyVotes e cp))) k = lookup0 (m_prev_dynasty_votes cp) k"
  by (simp_all add: GetPrevDynastyVotes_def lookup0_def split: option.split)

subsection \<open>Deposits, logouts, withdrawals\<close>

lemma ProcessDeposit_spec [fin_spec]:
  assumes "fmlookup (m_validators st) a = None"
  shows "ProcessDeposit a value st =
    (case fmlookup (m_deposit_scale_factor st) (m_current_epoch st) of
       None \<Rightarrow> None
     | Some scale \<Rightarrow>
        if scale = 0 then None
        else (let dep = of_nat (unat value * SCALE div unat scale); start = m_current_dynasty st + 2 in
          Some (st\<lparr>m_validators := fmupd a (Validator_new dep start a) (m_validators st),
                   m_dynasty_deltas := fmupd start (lookup0 (m_dynasty_deltas st) start + dep) (m_dynasty_deltas st)\<rparr>)))"
  using assms
  by (simp add: ProcessDeposit_def GetDepositScaleFactor_def GetDynastyDelta_spec set_validator_def Let_def ufp_spec
      split: option.split)

lemma ProcessLogout_spec [fin_spec]:
  "ProcessLogout p a st =
    (case fmlookup (m_validators st) a of None \<Rightarrow> None
     | Some v \<Rightarrow> (let e = GetEndDynasty p st in
         Some (st\<lparr>m_validators := fmupd a (v\<lparr>m_end_dynasty := e, m_deposits_at_logout := m_cur_dyn_deposits st\<rparr>) (m_validators st),
                  m_dynasty_deltas := fmupd e (lookup0 (m_dynasty_deltas st) e - m_deposit v) (m_dynasty_deltas st)\<rparr>)))"
  by (simp add: ProcessLogout_def GetDynastyDelta_spec set_validator_def Let_def split: option.split)

lemma ProcessWithdraw_spec [fin_spec]:
  "ProcessWithdraw a st = st\<lparr>m_validators := fmdrop a (m_validators st)\<rparr>"
  by (simp add: ProcessWithdraw_def DeleteValidator_def)

subsection \<open>Rewards and votes\<close>

definition reward_state :: "u160 \<Rightarrow> Validator \<Rightarrow> u64 \<Rightarrow> FinState \<Rightarrow> FinState" where
  "reward_state a v r st = st\<lparr>
     m_validators := fmupd a (v\<lparr>m_deposit := m_deposit v + r\<rparr>) (m_validators st),
     m_cur_dyn_deposits := m_cur_dyn_deposits st + (if IsInDynasty v (m_current_dynasty st) then r else 0),
     m_prev_dyn_deposits := m_prev_dyn_deposits st + (if IsInDynasty v (m_current_dynasty st - 1) then r else 0),
     m_dynasty_deltas := (if m_end_dynasty v < MAX_END_DYNASTY
       then fmupd (m_end_dynasty v) (lookup0 (m_dynasty_deltas st) (m_end_dynasty v) - r) (m_dynasty_deltas st)
       else m_dynasty_deltas st)\<rparr>"

lemma ProcessReward_spec [fin_spec]:
  "map_option snd (ProcessReward a r st) =
    (case (fmlookup (m_validators st) a, fmlookup (m_deposit_scale_factor st) (m_current_epoch st)) of
       (Some v, Some scale) \<Rightarrow> Some (reward_state a v r st)
     | _ \<Rightarrow> None)"
  by (simp add: ProcessReward_def GetDepositScaleFactor_def GetDynastyDelta_spec set_validator_def Let_def ufp_spec
      IsInDynasty_def reward_state_def split: option.split)

lemma two_thirds_spec: "two_thirds d = Some (of_nat (unat (d * 2) div 3))"
proof -
  have "unat (to_ufp64 3) = 3 * SCALE" by (simp add: to_ufp64_def SCALE_def)
  moreover have "to_ufp64 3 \<noteq> 0" by (simp add: to_ufp64_def SCALE_def)
  moreover have "unat (d * 2) * SCALE div (3 * SCALE) = unat (d * 2) div 3"
    by (rule div_mult_mult2) simp
  ultimately show ?thesis by (simp add: two_thirds_def ufp_spec)
qed

definition voted_checkpoint :: "Vote \<Rightarrow> Validator \<Rightarrow> FinState \<Rightarrow> Checkpoint \<Rightarrow> Checkpoint" where
  "voted_checkpoint vote v st cp =
    (let s = m_source_epoch vote;
         cp1 = snd (GetPrevDynastyVotes s (snd (GetCurDynastyVotes s
                 (cp\<lparr>m_vote_set := finsert (v_validator_address vote) (m_vote_set cp)\<rparr>))));
         cp2 = (if IsInDynasty v (m_current_dynasty st)
                then cp1\<lparr>m_cur_dynasty_votes := fmupd s (lookup0 (m_cur_dynasty_votes cp) s + m_deposit v) (m_cur_dynasty_votes cp1)\<rparr>
                else cp1)
     in if IsInDynasty v (m_current_dynasty st - 1)
        then cp2\<lparr>m_prev_dynasty_votes := fmupd s (lookup0 (m_prev_dynasty_votes cp) s + m_deposit v) (m_prev_dynasty_votes cp2)\<rparr>
        else cp2)"

lemma voted_checkpoint_fields [simp]:
  "m_is_justified (voted_checkpoint vote v st cp) = m_is_justified cp"
  "m_is_finalized (voted_checkpoint vote v st cp) = m_is_finalized cp"
  "m_vote_set (voted_checkpoint vote v st cp) = finsert (v_validator_address vote) (m_vote_set cp)"
  "lookup0 (m_cur_dynasty_votes (voted_checkpoint vote v st cp)) k = lookup0 (m_cur_dynasty_votes cp) k +
     (if k = m_source_epoch vote \<and> IsInDynasty v (m_current_dynasty st) then m_deposit v else 0)"
  "lookup0 (m_prev_dynasty_votes (voted_checkpoint vote v st cp)) k = lookup0 (m_prev_dynasty_votes cp) k +
     (if k = m_source_epoch vote \<and> IsInDynasty v (m_current_dynasty st - 1) then m_deposit v else 0)"
  by (simp_all add: voted_checkpoint_def Let_def)

definition voted_state :: "Vote \<Rightarrow> Validator \<Rightarrow> Checkpoint \<Rightarrow> FinState \<Rightarrow> FinState" where
  "voted_state vote v cp st = set_checkpoint (m_target_epoch vote) (voted_checkpoint vote v st cp) st"

text \<open>The state before the justification step: the vote is counted, and rewarded when its source is the
  expected one.\<close>

definition counted_state :: "Vote \<Rightarrow> Validator \<Rightarrow> Checkpoint \<Rightarrow> FinState \<Rightarrow> FinState" where
  "counted_state vote v cp st =
    (if m_expected_source_epoch st = m_source_epoch vote
     then reward_state (v_validator_address vote) v
            (of_nat (unat (m_reward_factor st) * unat (m_deposit v) div SCALE)) (voted_state vote v cp st)
     else voted_state vote v cp st)"

lemma ProcessReward_bind:
  assumes "fmlookup (m_validators st) a = Some v"
    and "fmlookup (m_deposit_scale_factor st) (m_current_epoch st) = Some scale"
  shows "Option.bind (ProcessReward a r st) (\<lambda>x. f (snd x)) = f (reward_state a v r st)"
  using ProcessReward_spec [of a r st] assms by (cases "ProcessReward a r st") auto

lemma ProcessVote_spec [fin_spec]:
  assumes "fmlookup (m_checkpoints st) (m_target_epoch vote) = Some cp"
    and "fmlookup (m_validators st) (v_validator_address vote) = Some v"
    and "fmlookup (m_deposit_scale_factor st) (m_current_epoch st) = Some scale"
  shows "ProcessVote vote st =
    justify_target (m_target_epoch vote) (m_source_epoch vote)
      (lookup0 (m_cur_dynasty_votes (voted_checkpoint vote v st cp)) (m_source_epoch vote))
      (lookup0 (m_prev_dynasty_votes (voted_checkpoint vote v st cp)) (m_source_epoch vote))
      (counted_state vote v cp st)"
  using assms
  by (simp add: ProcessVote_def GetCheckpoint_def set_checkpoint_def Let_def split_beta CalculateVoteReward_def ufp_spec
      counted_state_def voted_state_def voted_checkpoint_def ProcessReward_bind)

definition enough_votes :: "u64 \<Rightarrow> u64 \<Rightarrow> FinState \<Rightarrow> bool" where
  "enough_votes cur prev st \<longleftrightarrow>
     unat (m_cur_dyn_deposits st * 2) div 3 \<le> unat cur \<and> unat (m_prev_dyn_deposits st * 2) div 3 \<le> unat prev"

lemma unat_div3 [simp]: "unat (of_nat (unat (d :: u64) div 3) :: u64) = unat d div 3"
proof -
  have "unat d div 3 < 2 ^ 64" using u64_bound [of d] by (intro le_less_trans [OF div_le_dividend]) simp
  then show ?thesis by (simp add: unat_of_nat)
qed

lemma justify_target_spec [fin_spec]:
  assumes "fmlookup (m_checkpoints st) t = Some cp"
  shows "justify_target t s cur prev st = Some
    (if enough_votes cur prev st \<and> \<not> m_is_justified cp
     then st\<lparr>m_checkpoints := fmupd t (cp\<lparr>m_is_justified := True, m_is_finalized := m_is_finalized cp \<or> t = s + 1\<rparr>) (m_checkpoints st),
             m_last_justified_epoch := t,
             m_last_finalized_epoch := (if t = s + 1 then t else m_last_finalized_epoch st)\<rparr>
     else st)"
  using assms
  by (simp add: justify_target_def two_thirds_spec enough_votes_def GetCheckpoint_def set_checkpoint_def Let_def
      word_le_nat_alt)

subsection \<open>Slashing\<close>

definition slashed_deltas :: "Validator \<Rightarrow> FinState \<Rightarrow> (u32, amount) fmap" where
  "slashed_deltas v st =
    (let next = m_current_dynasty st + 1;
         m = fmupd next (lookup0 (m_dynasty_deltas st) next - m_deposit v) (m_dynasty_deltas st)
     in if m_end_dynasty v < MAX_END_DYNASTY
        then fmupd (m_end_dynasty v) (lookup0 m (m_end_dynasty v) + m_deposit v) m else m)"

lemma ProcessSlash_spec [fin_spec]:
  assumes v: "fmlookup (m_validators st) (v_validator_address vote1) = Some v" and "\<not> m_is_slashed v"
    and scale: "fmlookup (m_deposit_scale_factor st) (m_current_epoch st) = Some scale"
    and slashed: "fmlookup (m_total_slashed st) (m_current_epoch st) = Some slashed"
  shows "\<exists>log. ProcessSlash vote1 vote2 st = Some (st\<lparr>
      m_total_slashed := fmupd (m_current_epoch st) (slashed + of_nat (unat scale * unat (m_deposit v) div SCALE)) (m_total_slashed st),
      m_validators := fmupd (v_validator_address vote1)
        (if m_current_dynasty st < m_end_dynasty v
         then v\<lparr>m_is_slashed := True, m_end_dynasty := m_current_dynasty st + 1, m_deposits_at_logout := log\<rparr>
         else v\<lparr>m_is_slashed := True\<rparr>) (m_validators st),
      m_dynasty_deltas := (if m_current_dynasty st < m_end_dynasty v then slashed_deltas v st else m_dynasty_deltas st)\<rparr>)"
proof (cases "m_current_dynasty st < m_end_dynasty v")
  case False
  then show ?thesis
    using assms by (simp add: ProcessSlash_def GetDepositSize_def GetTotalSlashed_def ufp_spec set_validator_def Let_def)
next
  case True
  show ?thesis
  proof (cases "m_end_dynasty v < MAX_END_DYNASTY")
    case True
    then show ?thesis using assms \<open>m_current_dynasty st < m_end_dynasty v\<close>
      by (intro exI [of _ "m_deposits_at_logout v"])
        (simp add: ProcessSlash_def GetDepositSize_def GetTotalSlashed_def ufp_spec set_validator_def Let_def
         GetDynastyDelta_spec set_delta_def slashed_deltas_def)
  next
    case False
    then show ?thesis using assms \<open>m_current_dynasty st < m_end_dynasty v\<close>
      by (intro exI [of _ "of_nat (unat scale * unat (m_cur_dyn_deposits st) div SCALE)"])
        (simp add: ProcessSlash_def GetDepositSize_def GetTotalSlashed_def ufp_spec set_validator_def Let_def
         GetDynastyDelta_spec set_delta_def slashed_deltas_def GetTotalCurDynDeposits_def GetDepositScaleFactor_def)
  qed
qed

subsection \<open>Starting an epoch\<close>

text \<open>Whether a checkpoint exists, and whether it is justified and finalized.\<close>

definition cp_flags :: "(u32, Checkpoint) fmap \<Rightarrow> u32 \<Rightarrow> (bool \<times> bool) option" where
  "cp_flags m e = map_option (\<lambda>cp. (m_is_justified cp, m_is_finalized cp)) (fmlookup m e)"

lemma cp_flags_fmupd [simp]:
  "cp_flags (fmupd e cp m) = (cp_flags m)(e := Some (m_is_justified cp, m_is_finalized cp))"
  by (auto simp: cp_flags_def)

lemma cp_flags_fmfilter [simp]: "cp_flags (fmfilter P m) k = (if P k then cp_flags m k else None)"
  by (simp add: cp_flags_def)

lemma cp_flags_None [simp]: "cp_flags m k = None \<longleftrightarrow> fmlookup m k = None"
  by (simp add: cp_flags_def)

lemma cp_flags_Some:
  "fmlookup m k = Some cp \<Longrightarrow> cp_flags m k = Some (m_is_justified cp, m_is_finalized cp)"
  by (simp add: cp_flags_def)

lemma cp_flags_SomeE:
  assumes "cp_flags m k = Some (j, f)"
  obtains cp where "fmlookup m k = Some cp" "m_is_justified cp = j" "m_is_finalized cp = f"
  using assms by (auto simp: cp_flags_def)

lemma GetCollectiveRewardFactor_effect:
  assumes "GetCollectiveRewardFactor st = Some (f, st')"
  shows "\<exists>cps. st' = st\<lparr>m_checkpoints := cps\<rparr> \<and> cp_flags cps = cp_flags (m_checkpoints st)"
proof (cases "\<not> DepositExists st \<or> \<not> GetEpochsSinceFinalization st \<le> 2")
  case True
  then have "st' = st\<lparr>m_checkpoints := m_checkpoints st\<rparr>" using assms by (simp add: GetCollectiveRewardFactor_def)
  then show ?thesis by blast
next
  case False
  then have reward: "DepositExists st" "GetEpochsSinceFinalization st \<le> 2" by simp_all
  from assms reward obtain cp where cp: "fmlookup (m_checkpoints st) (m_last_finalized_epoch st) = Some cp"
    by (auto simp: GetCollectiveRewardFactor_def GetCheckpoint_def bind_eq_Some_conv require_def)
  define cps where "cps = fmupd (m_last_finalized_epoch st)
    (snd (GetPrevDynastyVotes (m_expected_source_epoch st) (snd (GetCurDynastyVotes (m_expected_source_epoch st) cp)))) (m_checkpoints st)"
  have "st' = st\<lparr>m_checkpoints := cps\<rparr>"
    using assms reward cp
    by (auto simp: GetCollectiveRewardFactor_def GetCheckpoint_def set_checkpoint_def bind_eq_Some_conv Let_def split_beta cps_def)
  moreover have "cp_flags cps = cp_flags (m_checkpoints st)"
    using cp by (auto simp: cps_def cp_flags_Some fun_eq_iff)
  ultimately show ?thesis by blast
qed

text \<open>The state after the first part of \<^verbatim>\<open>InitializeEpoch\<close>: the new epoch has a checkpoint, a scale factor
  and a total of slashed deposits, and nothing else but the reward factor has changed.\<close>

definition epoch_started :: "FinState \<Rightarrow> FinState \<Rightarrow> bool" where
  "epoch_started st st1 \<longleftrightarrow>
    (let e = m_current_epoch st + 1 in
     \<exists>cps scale slashed factor.
       st1 = st\<lparr>m_checkpoints := cps, m_current_epoch := e,
                m_deposit_scale_factor := fmupd e scale (m_deposit_scale_factor st),
                m_total_slashed := fmupd e slashed (m_total_slashed st), m_reward_factor := factor\<rparr> \<and>
       cp_flags cps = (cp_flags (m_checkpoints st))(e := Some (False, False)) \<and>
       fmlookup (m_total_slashed st) (m_current_epoch st) = Some slashed)"

lemma Checkpoint_new_flags [simp]: "\<not> m_is_justified Checkpoint_new" "\<not> m_is_finalized Checkpoint_new" "m_vote_set Checkpoint_new = {||}"
  by (simp_all add: Checkpoint_new_def)

lemma InitializeEpoch_cases:
  assumes "InitializeEpoch p h st = Some (r, st')"
  obtains (wrong) "GetEpoch p h \<noteq> m_current_epoch st + 1" "r = INIT_WRONG_EPOCH" "st' = st"
  | (started) st1 where "IsEpochStart p h" "GetEpoch p h = m_current_epoch st + 1" "epoch_started st st1"
      "r = INIT_INVALID_REWARD \<and> st' = st1 \<or> InitializeEpoch_tail st1 = Some (r, st')"
proof (cases "GetEpoch p h = m_current_epoch st + 1")
  case False
  then show thesis using assms wrong by (simp add: InitializeEpoch_def require_def Let_def split: if_splits)
next
  case True
  define e where "e = m_current_epoch st + 1"
  have start: "IsEpochStart p h" using assms by (simp add: InitializeEpoch_def require_def split: if_splits)
  from assms True start obtain cur prev factor st2 rescale scale new_scale slashed where
    f: "GetCollectiveRewardFactor (st\<lparr>m_checkpoints := fmupd e (Checkpoint_new\<lparr>m_cur_dynasty_deposits := cur, m_prev_dynasty_deposits := prev\<rparr>) (m_checkpoints st),
          m_current_epoch := e\<rparr>) = Some (factor, st2)"
    and sl: "GetTotalSlashed (e - 1) (st2\<lparr>m_deposit_scale_factor := fmupd e new_scale (m_deposit_scale_factor st2)\<rparr>) = Some slashed"
    and rest: "InitializeEpoch_reward p (st2\<lparr>m_deposit_scale_factor := fmupd e new_scale (m_deposit_scale_factor st2),
          m_total_slashed := fmupd e slashed (m_total_slashed st2)\<rparr>) = Some (r, st')"
    by (auto simp: InitializeEpoch_def bind_eq_Some_conv Let_def e_def set_checkpoint_def require_def)
  from GetCollectiveRewardFactor_effect [OF f] obtain cps where
    st2: "st2 = st\<lparr>m_current_epoch := e, m_checkpoints := cps\<rparr>" and
    cps: "cp_flags cps = (cp_flags (m_checkpoints st))(e := Some (False, False))"
    by auto
  have started_at: "epoch_started st (st2\<lparr>m_deposit_scale_factor := fmupd e new_scale (m_deposit_scale_factor st2),
      m_total_slashed := fmupd e slashed (m_total_slashed st2), m_reward_factor := factor\<rparr>)" for factor
    using cps sl unfolding epoch_started_def Let_def st2 e_def [symmetric]
    by (intro exI [of _ cps] exI [of _ new_scale] exI [of _ slashed] exI [of _ factor]) (cases st, simp add: GetTotalSlashed_def e_def)
  show thesis
    using rest started [OF start True started_at]
    by (auto simp: InitializeEpoch_reward_def Let_def bind_eq_Some_conv split: if_splits)
qed

definition next_dynasty :: "FinState \<Rightarrow> FinState" where
  "next_dynasty st = (let d = m_current_dynasty st + 1 in st\<lparr>
     m_current_dynasty := d, m_prev_dyn_deposits := m_cur_dyn_deposits st,
     m_dynasty_deltas := (if fmlookup (m_dynasty_deltas st) d = None then fmupd d 0 (m_dynasty_deltas st) else m_dynasty_deltas st),
     m_cur_dyn_deposits := m_cur_dyn_deposits st + lookup0 (m_dynasty_deltas st) d,
     m_dynasty_start_epoch := fmupd d (m_current_epoch st) (m_dynasty_start_epoch st),
     m_checkpoints := fmfilter (\<lambda>e. \<not> e < m_last_finalized_epoch st) (m_checkpoints st)\<rparr>)"

lemma IncrementDynasty_spec [fin_spec]:
  assumes "m_current_epoch st < 3 \<or> fmlookup (m_checkpoints st) (m_current_epoch st - 2) = Some cp"
  shows "IncrementDynasty st = Some (if m_current_epoch st < 3 \<or> \<not> m_is_finalized cp then st else next_dynasty st)"
  using assms
  by (cases "m_current_epoch st < 3"; cases "m_is_finalized cp"; cases "fmlookup (m_dynasty_deltas st) (m_current_dynasty st + 1)")
    (simp_all add: IncrementDynasty_def next_dynasty_def GetCheckpoint_def GetDynastyDelta_def lookup0_def Let_def
      cong del: fmfilter_cong)

definition insta_justified :: "bool \<Rightarrow> Checkpoint \<Rightarrow> FinState \<Rightarrow> FinState" where
  "insta_justified f cp st = (let e = m_current_epoch st - 1 in st\<lparr>
     m_checkpoints := fmupd e (cp\<lparr>m_is_justified := True, m_is_finalized := m_is_finalized cp \<or> f\<rparr>) (m_checkpoints st),
     m_last_justified_epoch := e, m_last_finalized_epoch := (if f then e else m_last_finalized_epoch st)\<rparr>)"

lemma InstaJustify_spec [fin_spec]:
  assumes "fmlookup (m_checkpoints st) (m_current_epoch st - 1) = Some cp"
    and "1 < m_current_epoch st \<Longrightarrow> fmlookup (m_checkpoints st) (m_current_epoch st - 2) = Some cp2"
  shows "InstaJustify st = Some (insta_justified (1 < m_current_epoch st \<and> m_is_justified cp2) cp st)"
proof -
  have "m_current_epoch st - 2 \<noteq> m_current_epoch st - 1" by simp
  then show ?thesis
    using assms by (simp add: InstaJustify_def insta_justified_def GetCheckpoint_def set_checkpoint_def Let_def)
qed

end
