(* ===== verification/Gadget.thy ===== *)
theory Gadget
  imports Prelude
begin

section \<open>The finality gadget, abstractly\<close>

text \<open>
  What the finalization state promises about checkpoints, without deposits and validators: an epoch starts with a
  checkpoint that is neither justified nor finalized; the checkpoint before the current one may become justified,
  and finalized at the same time when the checkpoint before it is justified; checkpoints older than the last
  finalized one may be forgotten. \<^verbatim>\<open>FinalizationState\<close> is shown to implement this machine.
\<close>

record Gadget =
  g_flags :: "u32 \<Rightarrow> (bool \<times> bool) option"
  g_now :: u32
  g_final :: u32
  g_just :: u32

definition g_start :: "Gadget \<Rightarrow> Gadget" where
  "g_start g = g\<lparr>g_flags := (g_flags g)(g_now g + 1 := Some (False, False)), g_now := g_now g + 1\<rparr>"

definition g_justify :: "bool \<Rightarrow> Gadget \<Rightarrow> Gadget" where
  "g_justify fin g = g\<lparr>g_flags := (g_flags g)(g_now g - 1 := Some (True, fin)),
     g_final := (if fin then g_now g - 1 else g_final g), g_just := g_now g - 1\<rparr>"

definition g_prune :: "Gadget \<Rightarrow> Gadget" where
  "g_prune g = g\<lparr>g_flags := (\<lambda>e. if e < g_final g then None else g_flags g e)\<rparr>"

definition g_justified :: "Gadget \<Rightarrow> u32 \<Rightarrow> bool" where
  "g_justified g e \<longleftrightarrow> (\<exists>f. g_flags g e = Some (True, f))"

inductive gadget_step :: "Gadget \<Rightarrow> Gadget \<Rightarrow> bool" where
  start: "unat (g_now g) < 2 ^ 31 \<Longrightarrow> gadget_step g (g_start g)"
| justify: "g_now g \<noteq> 0 \<Longrightarrow> \<exists>f. g_flags g (g_now g - 1) = Some (False, f) \<Longrightarrow>
    (fin \<Longrightarrow> g_justified g (g_now g - 2)) \<Longrightarrow> gadget_step g (g_justify fin g)"
| prune: "gadget_step g (g_prune g)"

definition gadget_ok :: "Gadget \<Rightarrow> bool" where
  "gadget_ok g \<longleftrightarrow>
     unat (g_now g) \<le> 2 ^ 31 \<and> g_final g \<le> g_just g \<and> unat (g_just g) \<le> unat (g_now g) - 1 \<and>
     (\<forall>e. g_final g \<le> e \<and> e \<le> g_now g \<longrightarrow> g_flags g e \<noteq> None) \<and>
     (\<forall>e. g_now g < e \<longrightarrow> g_flags g e = None) \<and>
     (\<forall>e. g_justified g e \<longrightarrow> e \<le> g_just g) \<and>
     (\<forall>e. g_flags g e \<noteq> Some (False, True)) \<and>
     (\<forall>e. g_flags g e = Some (True, True) \<longrightarrow> e \<le> g_final g) \<and>
     g_flags g (g_final g) = Some (True, True) \<and> g_justified g (g_just g)"

lemma unat_u32_add1: "unat (e :: u32) \<le> 2 ^ 31 \<Longrightarrow> unat (e + 1) = unat e + 1"
  by (simp add: unat_plus_if')

lemma gadget_ok_start:
  assumes ok: "gadget_ok g" and now: "unat (g_now g) < 2 ^ 31"
  shows "gadget_ok (g_start g)"
proof -
  define n where "n = g_now g + 1"
  have n: "unat n = unat (g_now g) + 1" using now unfolding n_def by (intro unat_u32_add1) simp
  have le: "e \<le> n \<longleftrightarrow> e = n \<or> e \<le> g_now g" for e
    using n by (auto simp: word_le_nat_alt word_unat_eq_iff)
  have old: "e \<le> g_now g \<Longrightarrow> e \<noteq> n" for e using n by (auto simp: word_le_nat_alt)
  have "g_just g \<le> g_now g" using ok by (auto simp: gadget_ok_def word_le_nat_alt)
  moreover from this have "g_final g \<le> g_now g" using ok by (auto simp: gadget_ok_def)
  ultimately have ne: "g_just g \<noteq> n" "g_final g \<noteq> n" using old by blast+
  have lt: "n < e \<Longrightarrow> g_now g < e \<and> e \<noteq> n" for e using n by (auto simp: word_less_nat_alt)
  have "g_flags (g_start g) = (g_flags g)(n := Some (False, False))" "g_now (g_start g) = n"
    "g_final (g_start g) = g_final g" "g_just (g_start g) = g_just g" by (simp_all add: g_start_def n_def)
  then show ?thesis
    using ok ne n now lt by (auto simp: gadget_ok_def g_justified_def le)
qed

lemma gadget_ok_justify:
  assumes ok: "gadget_ok g" and now: "g_now g \<noteq> 0" and t: "g_flags g (g_now g - 1) = Some (False, f)"
  shows "gadget_ok (g_justify fin g)"
proof -
  define t where "t = g_now g - 1"
  have u: "unat t = unat (g_now g) - 1" "unat (g_now g) > 0" using now by (auto simp: t_def unat_minus_one unat_gt_0)
  have just: "e \<le> g_just g \<Longrightarrow> e \<le> t" for e using ok u by (auto simp: gadget_ok_def word_le_nat_alt)
  have "g_final g \<le> t" using ok just by (auto simp: gadget_ok_def)
  have t_le: "t \<le> g_now g" using u by (auto simp: word_le_nat_alt)
  have final: "g_final g \<noteq> t" using ok assms(3) by (auto simp: gadget_ok_def t_def)
  have "g_flags (g_justify fin g) = (g_flags g)(t := Some (True, fin))" "g_now (g_justify fin g) = g_now g"
    "g_final (g_justify fin g) = (if fin then t else g_final g)" "g_just (g_justify fin g) = t"
    by (simp_all add: g_justify_def t_def)
  note eqs = this
  show ?thesis
    unfolding gadget_ok_def g_justified_def eqs
  proof (intro conjI allI impI)
    fix e assume "(if fin then t else g_final g) \<le> e \<and> e \<le> g_now g"
    then have "g_final g \<le> e" "e \<le> g_now g" using \<open>g_final g \<le> t\<close> by (auto split: if_splits)
    then have "g_flags g e \<noteq> None" using ok unfolding gadget_ok_def by blast
    then show "((g_flags g)(t := Some (True, fin))) e \<noteq> None" by (cases "e = t") auto
  next
    fix e assume "g_now g < e"
    then have "e \<noteq> t" using t_le by auto
    with \<open>g_now g < e\<close> show "((g_flags g)(t := Some (True, fin))) e = None" using ok by (simp add: gadget_ok_def)
  next
    fix e assume "\<exists>f. ((g_flags g)(t := Some (True, fin))) e = Some (True, f)"
    then have "e = t \<or> g_justified g e" by (auto simp: g_justified_def split: if_splits)
    then show "e \<le> t" using ok just by (auto simp: gadget_ok_def)
  next
    fix e assume "((g_flags g)(t := Some (True, fin))) e = Some (True, True)"
    then have "e = t \<and> fin \<or> g_flags g e = Some (True, True)" by (auto split: if_splits)
    then show "e \<le> (if fin then t else g_final g)" using ok \<open>g_final g \<le> t\<close> by (auto simp: gadget_ok_def)
  qed (use ok u final \<open>g_final g \<le> t\<close> in \<open>auto simp: gadget_ok_def split: if_splits\<close>)
qed

lemma gadget_ok_prune: "gadget_ok g \<Longrightarrow> gadget_ok (g_prune g)"
  by (auto simp: gadget_ok_def g_prune_def g_justified_def)

interpretation gadget: step_invariant gadget_step gadget_ok
  by unfold_locales (auto elim!: gadget_step.cases intro: gadget_ok_start gadget_ok_justify gadget_ok_prune)

lemma gadget_final_grows:
  assumes "gadget_ok g" "gadget_step g g'"
  shows "g_final g \<le> g_final g'" and "g_just g \<le> g_just g'" and "g_now g \<le> g_now g'"
  using assms(2,1)
  by (cases rule: gadget_step.cases;
      force simp: g_start_def g_justify_def g_prune_def gadget_ok_def word_le_nat_alt unat_u32_add1 unat_minus_one)+

interpretation gadget_final: step_monotone gadget_step gadget_ok g_final
  by unfold_locales (rule gadget_final_grows)

interpretation gadget_just: step_monotone gadget_step gadget_ok g_just
  by unfold_locales (rule gadget_final_grows)

interpretation gadget_now: step_monotone gadget_step gadget_ok g_now
  by unfold_locales (rule gadget_final_grows)

end
