(* ===== verification/FinStateInv.thy ===== *)
theory FinStateInv
  imports FinStateSpec Gadget
begin

section \<open>Invariants of the finalization state\<close>

text \<open>
  The states a node goes through: \<open>fin_step\<close> has one rule per operation of \<^verbatim>\<open>FinalizationState\<close>, guarded by the
  validation the node makes before it applies a finalizer commit. \<open>fin_inv\<close> is what every such step keeps: the
  epochs are ordered, the checkpoints the code looks up exist, and the dynasties of the validators are sane.
\<close>

inductive fin_step :: "(bytes \<Rightarrow> u160) \<Rightarrow> Params \<Rightarrow> FinState \<Rightarrow> FinState \<Rightarrow> bool" for Hash160 p where
  epoch: "InitializeEpoch p h st = Some (r, st') \<Longrightarrow> fin_step Hash160 p st st'"
| deposit: "ValidateDeposit p st a value = SUCCESS \<Longrightarrow> ProcessDeposit a value st = Some st' \<Longrightarrow> fin_step Hash160 p st st'"
| vote: "ValidateVote st v = SUCCESS \<Longrightarrow> ProcessVote v st = Some st' \<Longrightarrow> fin_step Hash160 p st st'"
| logout: "ValidateLogout p st a = SUCCESS \<Longrightarrow> ProcessLogout p a st = Some st' \<Longrightarrow> fin_step Hash160 p st st'"
| withdraw: "ValidateWithdraw p st a value = Some SUCCESS \<Longrightarrow> fin_step Hash160 p st (ProcessWithdraw a st)"
| slash: "IsSlashable st v1 v2 = SUCCESS \<Longrightarrow> ProcessSlash v1 v2 st = Some st' \<Longrightarrow> fin_step Hash160 p st st'"
| admin: "ProcessAdminCommands Hash160 commands st = Some st' \<Longrightarrow> fin_step Hash160 p st st'"
| last_tx: "RegisterLastTx a tx st = Some st' \<Longrightarrow> fin_step Hash160 p st st'"
| target: "fin_step Hash160 p st (st\<lparr>m_recommended_target_hash := h, m_recommended_target_epoch := e\<rparr>)"
| status: "fin_step Hash160 p st (FinState_copy st s)"

definition params_ok :: "Params \<Rightarrow> bool" where
  "params_ok p \<longleftrightarrow> epoch_length p \<noteq> 0 \<and> 1 \<le> unat (dynasty_logout_delay p) \<and> unat (dynasty_logout_delay p) \<le> 2 ^ 30"

subsection \<open>Epochs and checkpoints\<close>

definition gadget_of :: "FinState \<Rightarrow> Gadget" where
  "gadget_of st = \<lparr>g_flags = cp_flags (m_checkpoints st), g_now = m_current_epoch st,
     g_final = m_last_finalized_epoch st, g_just = m_last_justified_epoch st\<rparr>"

definition source_ok :: "FinState \<Rightarrow> bool" where
  "source_ok st \<longleftrightarrow> (\<exists>f. cp_flags (m_checkpoints st) (m_expected_source_epoch st) = Some (True, f))"

definition history_ok :: "FinState \<Rightarrow> bool" where
  "history_ok st \<longleftrightarrow> (\<forall>e. e \<le> m_current_epoch st \<longrightarrow>
     fmlookup (m_deposit_scale_factor st) e \<noteq> None \<and> fmlookup (m_total_slashed st) e \<noteq> None)"

definition chain_ok :: "FinState \<Rightarrow> bool" where
  "chain_ok st \<longleftrightarrow> gadget_ok (gadget_of st) \<and> source_ok st \<and> history_ok st"

text \<open>The operations on validators leave the epochs and checkpoints alone.\<close>

definition same_chain :: "FinState \<Rightarrow> FinState \<Rightarrow> bool" where
  "same_chain st st' \<longleftrightarrow>
     m_checkpoints st' = m_checkpoints st \<and> m_current_epoch st' = m_current_epoch st \<and>
     m_last_finalized_epoch st' = m_last_finalized_epoch st \<and> m_last_justified_epoch st' = m_last_justified_epoch st \<and>
     m_expected_source_epoch st' = m_expected_source_epoch st \<and> m_current_dynasty st' = m_current_dynasty st \<and>
     m_dynasty_start_epoch st' = m_dynasty_start_epoch st \<and>
     m_deposit_scale_factor st' = m_deposit_scale_factor st \<and> fmdom (m_total_slashed st') = fmdom (m_total_slashed st)"

lemma fmlookup_None_iff: "fmlookup m e = None \<longleftrightarrow> e |\<notin>| fmdom m"
  by (auto simp: fmlookup_dom_iff)

lemma same_chain_ok:
  assumes "same_chain st st'" "chain_ok st"
  shows "chain_ok st'"
proof -
  have "fmlookup (m_total_slashed st') e = None \<longleftrightarrow> fmlookup (m_total_slashed st) e = None" for e
    using assms(1) unfolding same_chain_def by (simp add: fmlookup_None_iff)
  then have "history_ok st'" using assms unfolding same_chain_def chain_ok_def history_ok_def by simp
  moreover have "gadget_of st' = gadget_of st" "source_ok st' = source_ok st"
    using assms(1) by (simp_all add: same_chain_def gadget_of_def source_ok_def)
  ultimately show ?thesis using assms(2) by (simp add: chain_ok_def)
qed

lemma ProcessDeposit_chain:
  assumes "ValidateDeposit p st a value = SUCCESS" "ProcessDeposit a value st = Some st'"
  shows "same_chain st st'"
proof -
  have "fmlookup (m_validators st) a = None" using assms(1) by (simp add: ValidateDeposit_def split: if_splits)
  then show ?thesis using assms(2)
    by (auto simp: ProcessDeposit_spec same_chain_def Let_def split: option.splits if_splits)
qed

lemma ProcessLogout_chain: "ProcessLogout p a st = Some st' \<Longrightarrow> same_chain st st'"
  by (auto simp: ProcessLogout_spec same_chain_def Let_def split: option.splits)

lemma ProcessWithdraw_chain: "same_chain st (ProcessWithdraw a st)"
  by (simp add: ProcessWithdraw_spec same_chain_def)

lemma IsSlashable_SUCCESS:
  assumes "IsSlashable st v1 v2 = SUCCESS"
  obtains v where "fmlookup (m_validators st) (v_validator_address v1) = Some v" "\<not> m_is_slashed v"
    "m_start_dynasty v \<le> m_current_dynasty st" "m_target_hash v1 \<noteq> m_target_hash v2" "isDoubleVote v1 v2 \<or> isSurroundVote v1 v2"
  using assms by (auto simp: IsSlashable_def split: option.splits if_splits)

lemma history_okE:
  assumes "history_ok st" "e \<le> m_current_epoch st"
  obtains scale slashed where "fmlookup (m_deposit_scale_factor st) e = Some scale" "fmlookup (m_total_slashed st) e = Some slashed"
  using assms by (auto simp: history_ok_def)

lemma chain_okE:
  assumes "chain_ok st"
  obtains scale slashed where "fmlookup (m_deposit_scale_factor st) (m_current_epoch st) = Some scale"
    "fmlookup (m_total_slashed st) (m_current_epoch st) = Some slashed"
  using assms by (auto simp: chain_ok_def elim: history_okE [of _ "m_current_epoch st"])

lemma ProcessSlash_chain:
  assumes "IsSlashable st v1 v2 = SUCCESS" "ProcessSlash v1 v2 st = Some st'" "chain_ok st"
  shows "same_chain st st'"
proof -
  obtain v where v: "fmlookup (m_validators st) (v_validator_address v1) = Some v" "\<not> m_is_slashed v"
    using assms(1) by (rule IsSlashable_SUCCESS)
  obtain scale slashed where h: "fmlookup (m_deposit_scale_factor st) (m_current_epoch st) = Some scale"
      "fmlookup (m_total_slashed st) (m_current_epoch st) = Some slashed"
    using assms(3) by (rule chain_okE)
  then have "finsert (m_current_epoch st) (fmdom (m_total_slashed st)) = fmdom (m_total_slashed st)"
    by (simp add: finsert_absorb fmdomI)
  with ProcessSlash_spec [OF v h, of v2, unfolded assms(2) option.inject] show ?thesis
    by (elim exE) (simp add: same_chain_def)
qed

lemma ProcessAdminCommands_chain: "ProcessAdminCommands Hash160 c st = Some st' \<Longrightarrow> same_chain st st'"
  by (auto simp: ProcessAdminCommands_def same_chain_def bind_eq_Some_conv)

lemma RegisterLastTx_chain: "RegisterLastTx a tx st = Some st' \<Longrightarrow> same_chain st st'"
  by (auto simp: RegisterLastTx_def set_validator_def same_chain_def bind_eq_Some_conv)

subsection \<open>Votes\<close>

lemma ValidateVote_SUCCESS:
  assumes "ValidateVote st vote = SUCCESS"
  obtains v cp f where "fmlookup (m_validators st) (v_validator_address vote) = Some v"
    "fmlookup (m_checkpoints st) (m_target_epoch vote) = Some cp" "m_validator_address v |\<notin>| m_vote_set cp"
    "m_target_epoch vote = m_current_epoch st - 1" "m_target_hash vote = m_recommended_target_hash st"
    "cp_flags (m_checkpoints st) (m_source_epoch vote) = Some (True, f)" "IsFinalizerVoting st v"
  using assms by (auto simp: ValidateVote_def IsVotable_def cp_flags_def split: option.splits if_splits)

lemma counted_state_chain:
  assumes "fmlookup (m_checkpoints st) (m_target_epoch vote) = Some cp"
  shows "same_chain (st\<lparr>m_checkpoints := fmupd (m_target_epoch vote) (voted_checkpoint vote v st cp) (m_checkpoints st)\<rparr>) (counted_state vote v cp st)"
    "cp_flags (m_checkpoints (counted_state vote v cp st)) = cp_flags (m_checkpoints st)"
    "fmlookup (m_checkpoints (counted_state vote v cp st)) (m_target_epoch vote) = Some (voted_checkpoint vote v st cp)"
  using assms
  by (auto simp: counted_state_def voted_state_def reward_state_def set_checkpoint_def same_chain_def fun_eq_iff cp_flags_Some)

definition vote_carries :: "Vote \<Rightarrow> Validator \<Rightarrow> Checkpoint \<Rightarrow> FinState \<Rightarrow> bool" where
  "vote_carries vote v cp st \<longleftrightarrow> \<not> m_is_justified cp \<and>
     enough_votes (lookup0 (m_cur_dynasty_votes (voted_checkpoint vote v st cp)) (m_source_epoch vote))
       (lookup0 (m_prev_dynasty_votes (voted_checkpoint vote v st cp)) (m_source_epoch vote)) (counted_state vote v cp st)"

definition vote_finalizes :: "Vote \<Rightarrow> bool" where
  "vote_finalizes vote \<longleftrightarrow> m_target_epoch vote = m_source_epoch vote + 1"

definition carried_state :: "Vote \<Rightarrow> Validator \<Rightarrow> Checkpoint \<Rightarrow> FinState \<Rightarrow> FinState" where
  "carried_state vote v cp st = (let t = m_target_epoch vote; st1 = counted_state vote v cp st in
     st1\<lparr>m_checkpoints := fmupd t ((voted_checkpoint vote v st cp)\<lparr>m_is_justified := True,
             m_is_finalized := m_is_finalized cp \<or> vote_finalizes vote\<rparr>) (m_checkpoints st1),
         m_last_justified_epoch := t,
         m_last_finalized_epoch := (if vote_finalizes vote then t else m_last_finalized_epoch st1)\<rparr>)"

lemma ProcessVote_effect:
  assumes "ValidateVote st vote = SUCCESS" "chain_ok st"
  obtains v cp f where "fmlookup (m_validators st) (v_validator_address vote) = Some v" "IsFinalizerVoting st v"
    "fmlookup (m_checkpoints st) (m_target_epoch vote) = Some cp" "m_target_epoch vote = m_current_epoch st - 1"
    "cp_flags (m_checkpoints st) (m_source_epoch vote) = Some (True, f)"
    "ProcessVote vote st = Some (if vote_carries vote v cp st then carried_state vote v cp st else counted_state vote v cp st)"
proof -
  obtain v cp f where v: "fmlookup (m_validators st) (v_validator_address vote) = Some v" "IsFinalizerVoting st v"
    and cp: "fmlookup (m_checkpoints st) (m_target_epoch vote) = Some cp" and t: "m_target_epoch vote = m_current_epoch st - 1"
    and s: "cp_flags (m_checkpoints st) (m_source_epoch vote) = Some (True, f)"
    using assms(1) by (rule ValidateVote_SUCCESS)
  obtain scale where h: "fmlookup (m_deposit_scale_factor st) (m_current_epoch st) = Some scale"
    using assms(2) by (rule chain_okE)
  show thesis
    by (rule that [OF v cp t s])
      (simp add: ProcessVote_spec [OF cp v(1) h] justify_target_spec [OF counted_state_chain(3) [OF cp]]
        vote_carries_def carried_state_def vote_finalizes_def Let_def)
qed

lemma carried_state_gadget:
  assumes "chain_ok st" "fmlookup (m_checkpoints st) (m_target_epoch vote) = Some cp" "\<not> m_is_justified cp"
    and "m_target_epoch vote = m_current_epoch st - 1"
  shows "gadget_of (carried_state vote v cp st) = g_justify (vote_finalizes vote) (gadget_of st)"
proof -
  have "\<not> m_is_finalized cp"
    using assms(1,2,3) by (auto simp: chain_ok_def gadget_ok_def gadget_of_def cp_flags_def)
  then show ?thesis
    using counted_state_chain [OF assms(2), of v] assms(4)
    by (simp add: carried_state_def gadget_of_def g_justify_def same_chain_def Let_def)
qed

lemma word_pred_twice: "t = n - 1 \<Longrightarrow> t = s + 1 \<Longrightarrow> s = n - (2 :: u32)"
  by (simp add: algebra_simps)

lemma counted_state_same [simp]:
  "m_expected_source_epoch (counted_state vote v cp st) = m_expected_source_epoch st"
  "m_deposit_scale_factor (counted_state vote v cp st) = m_deposit_scale_factor st"
  "m_total_slashed (counted_state vote v cp st) = m_total_slashed st"
  "m_current_epoch (counted_state vote v cp st) = m_current_epoch st"
  "m_last_finalized_epoch (counted_state vote v cp st) = m_last_finalized_epoch st"
  "m_last_justified_epoch (counted_state vote v cp st) = m_last_justified_epoch st"
  "m_current_dynasty (counted_state vote v cp st) = m_current_dynasty st"
  "m_dynasty_start_epoch (counted_state vote v cp st) = m_dynasty_start_epoch st"
  by (simp_all add: counted_state_def voted_state_def reward_state_def set_checkpoint_def)

lemma ProcessVote_chain:
  assumes "ValidateVote st vote = SUCCESS" "chain_ok st" "ProcessVote vote st = Some st'"
  shows "chain_ok st'" and "gadget_step\<^sup>*\<^sup>* (gadget_of st) (gadget_of st')"
proof -
  obtain v cp f where cp: "fmlookup (m_checkpoints st) (m_target_epoch vote) = Some cp"
    and t: "m_target_epoch vote = m_current_epoch st - 1"
    and s: "cp_flags (m_checkpoints st) (m_source_epoch vote) = Some (True, f)"
    and eff: "ProcessVote vote st = Some (if vote_carries vote v cp st then carried_state vote v cp st else counted_state vote v cp st)"
    using assms(1,2) by (rule ProcessVote_effect)
  have ok: "gadget_ok (gadget_of st)" "source_ok st" "history_ok st" using assms(2) by (simp_all add: chain_ok_def)
  have flags: "cp_flags (m_checkpoints (counted_state vote v cp st)) = cp_flags (m_checkpoints st)"
    using counted_state_chain [OF cp] by simp
  have step: "gadget_step\<^sup>*\<^sup>* (gadget_of st) (gadget_of st')"
  proof (cases "vote_carries vote v cp st")
    case True
    then have nj: "\<not> m_is_justified cp" by (simp add: vote_carries_def)
    have "m_current_epoch st \<noteq> 0"
    proof
      assume "m_current_epoch st = 0"
      then have "m_current_epoch st < m_target_epoch vote" using t by (simp add: word_gt_0)
      then show False using ok(1) cp by (auto simp: gadget_ok_def gadget_of_def)
    qed
    moreover have "m_source_epoch vote = m_current_epoch st - 2" if "vote_finalizes vote"
      using that t by (intro word_pred_twice) (simp_all add: vote_finalizes_def)
    ultimately have "gadget_step (gadget_of st) (g_justify (vote_finalizes vote) (gadget_of st))"
      using s cp_flags_Some [OF cp [unfolded t]] nj
      by (intro gadget_step.justify) (auto simp: gadget_of_def g_justified_def)
    then show ?thesis using eff assms(3) True carried_state_gadget [OF assms(2) cp nj t] by auto
  next
    case False
    then show ?thesis using eff assms(3) flags by (simp add: gadget_of_def)
  qed
  show "gadget_step\<^sup>*\<^sup>* (gadget_of st) (gadget_of st')" by (rule step)
  have "gadget_ok (gadget_of st')" using step ok(1) by (rule gadget.reachable)
  moreover have "source_ok st'" "history_ok st'"
    using ok eff assms(3) flags by (auto simp: source_ok_def history_ok_def carried_state_def Let_def)
  ultimately show "chain_ok st'" by (simp add: chain_ok_def)
qed

subsection \<open>Epochs\<close>

lemma IsEpochStart_bound:
  assumes "IsEpochStart p h" "epoch_length p \<noteq> 0"
  shows "unat (GetEpoch p h) \<le> 2 ^ 31"
proof -
  have L0: "unat (epoch_length p) \<noteq> 0" using assms(2) by (simp add: unat_eq_zero)
  have "unat h mod unat (epoch_length p) = 1"
    using assms(1) unat_u32_mod [of h "epoch_length p"] by (simp add: IsEpochStart_def)
  then have "unat (epoch_length p) \<noteq> 1" by (metis mod_by_1 zero_neq_one)
  with L0 have L: "2 \<le> unat (epoch_length p)" by simp
  have "(unat h + (unat (epoch_length p) - 1)) div unat (epoch_length p) \<le> (unat h + unat (epoch_length p)) div unat (epoch_length p)"
    by (rule div_le_mono) simp
  also have "\<dots> = unat h div unat (epoch_length p) + 1" using L by simp
  also have "unat h div unat (epoch_length p) \<le> unat h div 2" using L by (intro div_le_mono2) auto
  finally show ?thesis using GetEpoch_unat [OF assms(2), of h] u32_bound [of h] by simp
qed

lemma gadget_of_update [simp]:
  "gadget_of (st\<lparr>m_expected_source_epoch := e\<rparr>) = gadget_of st"
  by (simp add: gadget_of_def)

lemma epoch_started_chain:
  assumes "chain_ok st" "epoch_started st st1" "IsEpochStart p h" "epoch_length p \<noteq> 0" "GetEpoch p h = m_current_epoch st + 1"
  shows "gadget_of st1 = g_start (gadget_of st)" "gadget_step (gadget_of st) (gadget_of st1)" "gadget_ok (gadget_of st1)"
    "source_ok st1" "history_ok st1" "m_current_epoch st1 \<noteq> 0" "unat (m_current_epoch st1) = unat (m_current_epoch st) + 1"
    "unat (m_last_justified_epoch st1) \<le> unat (m_current_epoch st1) - 2"
proof -
  have ok: "gadget_ok (gadget_of st)" "source_ok st" "history_ok st" using assms(1) by (simp_all add: chain_ok_def)
  have now: "unat (m_current_epoch st) \<le> 2 ^ 31" using ok by (simp add: gadget_ok_def gadget_of_def)
  have suc: "unat (m_current_epoch st + 1) = unat (m_current_epoch st) + 1" using now by (rule unat_u32_add1)
  then have lt: "unat (m_current_epoch st) < 2 ^ 31" using IsEpochStart_bound [OF assms(3,4)] assms(5) by simp
  show g: "gadget_of st1 = g_start (gadget_of st)"
    using assms(2) by (auto simp: epoch_started_def Let_def gadget_of_def g_start_def)
  show step: "gadget_step (gadget_of st) (gadget_of st1)"
    unfolding g using lt by (intro gadget_step.start) (simp add: gadget_of_def)
  show "gadget_ok (gadget_of st1)" using ok(1) step by (rule gadget.preserved)
  show u: "unat (m_current_epoch st1) = unat (m_current_epoch st) + 1"
    using suc assms(2) by (auto simp: epoch_started_def Let_def)
  then show "m_current_epoch st1 \<noteq> 0" by auto
  have "m_expected_source_epoch st \<noteq> m_current_epoch st + 1"
  proof
    assume "m_expected_source_epoch st = m_current_epoch st + 1"
    moreover have "m_current_epoch st < m_current_epoch st + 1" using suc by (simp add: word_less_nat_alt)
    ultimately have "cp_flags (m_checkpoints st) (m_expected_source_epoch st) = None"
      using ok(1) by (auto simp: gadget_ok_def gadget_of_def)
    then show False using ok(2) by (auto simp: source_ok_def cp_flags_def)
  qed
  then show "source_ok st1" using ok(2) assms(2) by (auto simp: source_ok_def epoch_started_def Let_def)
  have "e \<le> m_current_epoch st + 1 \<longleftrightarrow> e = m_current_epoch st + 1 \<or> e \<le> m_current_epoch st" for e
    using suc by (auto simp: word_le_nat_alt word_unat_eq_iff)
  then show "history_ok st1" using ok(3) assms(2) by (auto simp: history_ok_def epoch_started_def Let_def)
  show "unat (m_last_justified_epoch st1) \<le> unat (m_current_epoch st1) - 2"
    using u ok(1) assms(2) by (auto simp: epoch_started_def Let_def gadget_ok_def gadget_of_def)
qed

lemma next_dynasty_gadget: "gadget_of (next_dynasty st) = g_prune (gadget_of st)"
  by (auto simp: next_dynasty_def gadget_of_def g_prune_def Let_def fun_eq_iff)

lemma insta_justified_gadget:
  assumes "\<not> m_is_finalized cp" "fmlookup (m_checkpoints st) (m_current_epoch st - 1) = Some cp"
  shows "gadget_of (insta_justified f cp st) = g_justify f (gadget_of st)"
  using assms by (simp add: insta_justified_def gadget_of_def g_justify_def Let_def)

lemma word_pred_unat:
  "(n :: u32) \<noteq> 0 \<Longrightarrow> unat (n - 1) = unat n - 1" "2 \<le> unat (n :: u32) \<Longrightarrow> unat (n - 2) = unat n - 2"
  by (auto simp: unat_minus_one unat_sub word_le_nat_alt)

text \<open>The lookups in the tail of \<^verbatim>\<open>InitializeEpoch\<close> always succeed.\<close>

lemma gadget_ok_before:
  assumes ok: "gadget_ok (gadget_of st)" and late: "unat (m_last_justified_epoch st) \<le> unat (m_current_epoch st) - 2"
    and now: "1 < m_current_epoch st"
  obtains cp cp2 where "fmlookup (m_checkpoints st) (m_current_epoch st - 1) = Some cp" "\<not> m_is_finalized cp" "\<not> m_is_justified cp"
    "fmlookup (m_checkpoints st) (m_current_epoch st - 2) = Some cp2"
proof -
  have n: "2 \<le> unat (m_current_epoch st)" "m_current_epoch st \<noteq> 0" using now by (auto simp: word_less_nat_alt)
  note u = word_pred_unat(1) [OF n(2)] word_pred_unat(2) [OF n(1)]
  have final: "unat (m_last_finalized_epoch st) \<le> unat (m_current_epoch st) - 2"
    using ok late by (auto simp: gadget_ok_def gadget_of_def word_le_nat_alt)
  then have "cp_flags (m_checkpoints st) (m_current_epoch st - 1) \<noteq> None" "cp_flags (m_checkpoints st) (m_current_epoch st - 2) \<noteq> None"
    using ok u by (auto simp: gadget_ok_def gadget_of_def word_le_nat_alt simp del: cp_flags_None)
  then obtain cp cp2 where cp: "fmlookup (m_checkpoints st) (m_current_epoch st - 1) = Some cp"
      "fmlookup (m_checkpoints st) (m_current_epoch st - 2) = Some cp2" by auto
  have "\<not> m_is_justified cp"
  proof
    assume "m_is_justified cp"
    then have "g_justified (gadget_of st) (m_current_epoch st - 1)"
      using cp by (simp add: g_justified_def gadget_of_def cp_flags_def)
    then have "unat (m_current_epoch st - 1) \<le> unat (m_last_justified_epoch st)"
      using ok by (auto simp: gadget_ok_def gadget_of_def word_le_nat_alt)
    then show False using u n late by simp
  qed
  moreover from this have "\<not> m_is_finalized cp"
    using ok cp by (auto simp: gadget_ok_def gadget_of_def cp_flags_def)
  ultimately show thesis using that cp by blast
qed

lemma gadget_ok_first:
  assumes ok: "gadget_ok (gadget_of st)" and late: "unat (m_last_justified_epoch st) \<le> unat (m_current_epoch st) - 2"
    and now: "m_current_epoch st = 1"
  obtains cp where "fmlookup (m_checkpoints st) (m_current_epoch st - 1) = Some cp" "m_is_finalized cp" "m_is_justified cp"
    "m_last_justified_epoch st = 0" "m_last_finalized_epoch st = 0"
proof -
  have z: "m_last_justified_epoch st = 0" "m_last_finalized_epoch st = 0"
    using ok late now by (auto simp: gadget_ok_def gadget_of_def word_le_nat_alt unat_eq_zero)
  then show thesis using ok now that by (auto simp: gadget_ok_def gadget_of_def cp_flags_def)
qed

lemma InstaJustify_chain:
  assumes ok: "gadget_ok (gadget_of st)" and late: "unat (m_last_justified_epoch st) \<le> unat (m_current_epoch st) - 2"
    and now: "m_current_epoch st \<noteq> 0"
  obtains f cp where "InstaJustify st = Some (insta_justified f cp st)"
    "gadget_step\<^sup>*\<^sup>* (gadget_of st) (gadget_of (insta_justified f cp st))"
proof (cases "m_current_epoch st = 1")
  case True
  obtain cp where cp: "fmlookup (m_checkpoints st) (m_current_epoch st - 1) = Some cp" "m_is_finalized cp" "m_is_justified cp"
    and z: "m_last_justified_epoch st = 0" "m_last_finalized_epoch st = 0"
    using gadget_ok_first [OF ok late True] .
  have "gadget_of (insta_justified False cp st) = gadget_of st"
    using cp z True by (auto simp: insta_justified_def gadget_of_def cp_flags_Some fun_eq_iff)
  moreover have "InstaJustify st = Some (insta_justified False cp st)"
    using InstaJustify_spec [OF cp(1)] True by simp
  ultimately show thesis using that by auto
next
  case False
  then have gt: "1 < m_current_epoch st" using now by (auto simp: word_less_nat_alt word_unat_eq_iff)
  obtain cp cp2 where cp: "fmlookup (m_checkpoints st) (m_current_epoch st - 1) = Some cp" "\<not> m_is_finalized cp" "\<not> m_is_justified cp"
    "fmlookup (m_checkpoints st) (m_current_epoch st - 2) = Some cp2"
    using gadget_ok_before [OF ok late gt] .
  have "gadget_step (gadget_of st) (g_justify (m_is_justified cp2) (gadget_of st))"
    using cp now by (intro gadget_step.justify) (auto simp: gadget_of_def cp_flags_Some g_justified_def)
  then have "gadget_step\<^sup>*\<^sup>* (gadget_of st) (gadget_of (insta_justified (m_is_justified cp2) cp st))"
    unfolding insta_justified_gadget [OF cp(2,1)] by blast
  moreover have "InstaJustify st = Some (insta_justified (m_is_justified cp2) cp st)"
    using InstaJustify_spec [OF cp(1,4)] gt by simp
  ultimately show thesis using that by blast
qed

lemma insta_justified_same [simp]:
  "history_ok (insta_justified f cp st) = history_ok st" "history_ok (next_dynasty st) = history_ok st"
  "history_ok (st\<lparr>m_expected_source_epoch := e\<rparr>) = history_ok st"
  by (simp_all add: insta_justified_def next_dynasty_def history_ok_def Let_def)

text \<open>What the tail does to the fields that are not about checkpoints.\<close>

definition dynasty_advanced :: "FinState \<Rightarrow> FinState \<Rightarrow> bool" where
  "dynasty_advanced st st' \<longleftrightarrow>
    (\<exists>st2 cps just final source. (st2 = st \<or> st2 = next_dynasty st \<and> \<not> m_current_epoch st < 3) \<and>
       st' = st2\<lparr>m_checkpoints := cps, m_last_justified_epoch := just, m_last_finalized_epoch := final, m_expected_source_epoch := source\<rparr>)"

lemma InitializeEpoch_tail_chain:
  assumes ok: "gadget_ok (gadget_of st)" "history_ok st"
    and late: "unat (m_last_justified_epoch st) \<le> unat (m_current_epoch st) - 2" and now: "m_current_epoch st \<noteq> 0"
  obtains st' where "InitializeEpoch_tail st = Some (SUCCESS, st')" "chain_ok st'"
    "gadget_step\<^sup>*\<^sup>* (gadget_of st) (gadget_of st')" "dynasty_advanced st st'"
proof -
  have "\<exists>cp. m_current_epoch st < 3 \<or> fmlookup (m_checkpoints st) (m_current_epoch st - 2) = Some cp"
  proof (cases "m_current_epoch st < 3")
    case False
    then have "1 < m_current_epoch st" by (auto simp: word_less_nat_alt)
    then show ?thesis using gadget_ok_before [OF ok(1) late] by metis
  qed simp
  then obtain cp where "m_current_epoch st < 3 \<or> fmlookup (m_checkpoints st) (m_current_epoch st - 2) = Some cp" by blast
  from IncrementDynasty_spec [OF this] obtain st2 where inc: "IncrementDynasty st = Some st2"
    and st2: "st2 = st \<or> st2 = next_dynasty st \<and> \<not> m_current_epoch st < 3" by (auto split: if_splits)
  then have step2: "gadget_step\<^sup>*\<^sup>* (gadget_of st) (gadget_of st2)"
    using gadget_step.prune [of "gadget_of st", THEN r_into_rtranclp [where r = gadget_step]] by (auto simp: next_dynasty_gadget)
  with ok(1) have ok2: "gadget_ok (gadget_of st2)" by (rule gadget.reachable [rotated])
  have same: "history_ok st2" "unat (m_last_justified_epoch st2) \<le> unat (m_current_epoch st2) - 2" "m_current_epoch st2 \<noteq> 0"
    using st2 ok(2) late now by (auto simp: next_dynasty_def Let_def history_ok_def)
  obtain f cp1 where ij: "InstaJustify st2 = Some (insta_justified f cp1 st2)"
    "gadget_step\<^sup>*\<^sup>* (gadget_of st2) (gadget_of (insta_justified f cp1 st2))"
    using InstaJustify_chain [OF ok2 same(2,3)] .
  define st3 where "st3 = (if GetActiveFinalizers st2 = [] then insta_justified f cp1 st2 else st2)"
  define st' where "st' = st3\<lparr>m_expected_source_epoch := m_last_justified_epoch st3\<rparr>"
  have tail: "InitializeEpoch_tail st = Some (SUCCESS, st')"
    using inc ij(1) by (simp add: InitializeEpoch_tail_def st3_def st'_def)
  have step3: "gadget_step\<^sup>*\<^sup>* (gadget_of st2) (gadget_of st')"
    using ij(2) by (simp add: st3_def st'_def)
  with ok2 have ok3: "gadget_ok (gadget_of st')" by (rule gadget.reachable [rotated])
  then have "chain_ok st'"
    using same(1) by (auto simp: chain_ok_def st'_def st3_def source_ok_def gadget_ok_def gadget_of_def g_justified_def)
  moreover have "dynasty_advanced st st'"
    unfolding dynasty_advanced_def
    by (rule exI [of _ st2], rule exI [of _ "m_checkpoints st'"], rule exI [of _ "m_last_justified_epoch st'"],
        rule exI [of _ "m_last_finalized_epoch st'"], rule exI [of _ "m_expected_source_epoch st'"])
      (use st2 in \<open>auto simp: st'_def st3_def insta_justified_def Let_def\<close>)
  ultimately show thesis using that tail step2 step3 by (meson rtranclp_trans)
qed

lemma InitializeEpoch_chain:
  assumes ok: "chain_ok st" and len: "epoch_length p \<noteq> 0" and run: "InitializeEpoch p h st = Some (r, st')"
  shows "chain_ok st'" and "gadget_step\<^sup>*\<^sup>* (gadget_of st) (gadget_of st')"
    and "st' = st \<or> (\<exists>st1. epoch_started st st1 \<and> unat (m_current_epoch st1) = unat (m_current_epoch st) + 1 \<and>
          (st' = st1 \<or> dynasty_advanced st1 st'))"
proof -
  have "chain_ok st' \<and> gadget_step\<^sup>*\<^sup>* (gadget_of st) (gadget_of st') \<and>
    (st' = st \<or> (\<exists>st1. epoch_started st st1 \<and> unat (m_current_epoch st1) = unat (m_current_epoch st) + 1 \<and>
          (st' = st1 \<or> dynasty_advanced st1 st')))"
    using run
  proof (cases rule: InitializeEpoch_cases)
    case (started st1)
    note started_chain = epoch_started_chain [OF ok started(3,1) len started(2)]
    from started(4) show ?thesis
    proof
      assume "r = INIT_INVALID_REWARD \<and> st' = st1"
      then show ?thesis using started(3) started_chain by (auto simp: chain_ok_def)
    next
      assume "InitializeEpoch_tail st1 = Some (r, st')"
      then have "chain_ok st'" "gadget_step\<^sup>*\<^sup>* (gadget_of st1) (gadget_of st')" "dynasty_advanced st1 st'"
        using InitializeEpoch_tail_chain [OF started_chain(3,5,8,6)] by auto
      then show ?thesis using started(3) started_chain(2,7) by (auto intro: converse_rtranclp_into_rtranclp)
    qed
  qed (use ok in auto)
  then show "chain_ok st'" "gadget_step\<^sup>*\<^sup>* (gadget_of st) (gadget_of st')"
    "st' = st \<or> (\<exists>st1. epoch_started st st1 \<and> unat (m_current_epoch st1) = unat (m_current_epoch st) + 1 \<and>
          (st' = st1 \<or> dynasty_advanced st1 st'))" by blast+
qed

lemma same_chain_gadget: "same_chain st st' \<Longrightarrow> gadget_of st' = gadget_of st"
  by (simp add: same_chain_def gadget_of_def)

lemma fin_step_chain:
  assumes "fin_step Hash160 p st st'" "chain_ok st" "epoch_length p \<noteq> 0"
  shows "chain_ok st' \<and> gadget_step\<^sup>*\<^sup>* (gadget_of st) (gadget_of st')"
proof -
  have same: "chain_ok s' \<and> gadget_step\<^sup>*\<^sup>* (gadget_of st) (gadget_of s')" if "same_chain st s'" for s'
    using that assms(2) same_chain_ok same_chain_gadget by auto
  from assms(1) show ?thesis
  proof cases
    case epoch
    then show ?thesis using InitializeEpoch_chain [OF assms(2,3)] by blast
  next
    case deposit
    then show ?thesis by (intro same ProcessDeposit_chain)
  next
    case vote
    then show ?thesis using ProcessVote_chain assms(2) by blast
  next
    case logout
    then show ?thesis by (intro same ProcessLogout_chain)
  next
    case withdraw
    then show ?thesis using same ProcessWithdraw_chain by blast
  next
    case slash
    then show ?thesis using assms(2) by (intro same ProcessSlash_chain)
  next
    case admin
    then show ?thesis by (intro same ProcessAdminCommands_chain)
  next
    case last_tx
    then show ?thesis by (intro same RegisterLastTx_chain)
  qed (auto intro!: same simp: same_chain_def FinState_copy_def)
qed

end
