(* ===== verification/StakeAccounting.thy ===== *)
theory StakeAccounting
  imports FinStateInv
begin

section \<open>Dynasties and the accounting of stake\<close>

text \<open>
  \<^verbatim>\<open>FinalizationState\<close> never sums deposits: it keeps the totals of the current and the previous dynasty and a map
  of differences between consecutive dynasties. The invariant \<open>stake_ok\<close> says that these agree with the sum of the
  deposits of the validators of a dynasty, in the 64 bit arithmetic of the code, and every step keeps it.
\<close>

subsection \<open>Validators\<close>

definition validator_ok :: "Params \<Rightarrow> u32 \<Rightarrow> u160 \<Rightarrow> Validator \<Rightarrow> bool" where
  "validator_ok p dynasty a v \<longleftrightarrow>
     m_validator_address v = a \<and> 2 \<le> unat (m_start_dynasty v) \<and> unat (m_start_dynasty v) \<le> unat dynasty + 2 \<and>
     m_start_dynasty v < m_end_dynasty v \<and>
     (m_end_dynasty v = MAX_END_DYNASTY \<or> unat (m_end_dynasty v) \<le> unat dynasty + unat (dynasty_logout_delay p))"

definition dynasties_ok :: "Params \<Rightarrow> FinState \<Rightarrow> bool" where
  "dynasties_ok p st \<longleftrightarrow>
     unat (m_current_dynasty st) \<le> unat (m_current_epoch st) - 2 \<and>
     (\<forall>d. fmlookup (m_dynasty_start_epoch st) d \<noteq> None \<longleftrightarrow> d \<le> m_current_dynasty st) \<and>
     (\<forall>a v. fmlookup (m_validators st) a = Some v \<longrightarrow> validator_ok p (m_current_dynasty st) a v)"

lemma unat_MAX_END_DYNASTY [simp]: "unat MAX_END_DYNASTY = 2 ^ 32 - 1"
  by (simp add: MAX_END_DYNASTY_def unsigned_minus_1_eq_mask mask_eq_exp_minus_1)

lemma not_in_last_dynasty [simp]: "\<not> IsInDynasty v MAX_END_DYNASTY"
  by (simp add: IsInDynasty_def MAX_END_DYNASTY_def not_less)

lemma not_in_dynasty_0: "validator_ok p c a v \<Longrightarrow> \<not> IsInDynasty v 0"
  by (auto simp: validator_ok_def IsInDynasty_def)

subsection \<open>Stake\<close>

definition weight :: "Validator option \<Rightarrow> u32 \<Rightarrow> u64" where
  "weight v d = (case v of None \<Rightarrow> 0 | Some v \<Rightarrow> if IsInDynasty v d then m_deposit v else 0)"

definition stake :: "(u160, Validator) fmap \<Rightarrow> u32 \<Rightarrow> u64" where
  "stake vs d = (\<Sum>a\<in>fset (fmdom vs). weight (fmlookup vs a) d)"

lemma weight_None [simp]: "weight None d = 0"
  by (simp add: weight_def)

lemma stake_insert:
  assumes "finite A" "fset (fmdom vs) \<subseteq> A"
  shows "stake vs d = (\<Sum>a\<in>A. weight (fmlookup vs a) d)"
  unfolding stake_def
  by (rule sum.mono_neutral_left [OF assms]) (auto simp: weight_def split: option.split dest: fmdomI)

lemma stake_change:
  assumes "\<And>b. b \<noteq> a \<Longrightarrow> fmlookup vs' b = fmlookup vs b"
  shows "stake vs' d = stake vs d - weight (fmlookup vs a) d + weight (fmlookup vs' a) d"
proof -
  define A where "A = insert a (fset (fmdom vs) \<union> fset (fmdom vs'))"
  have A: "finite A" "a \<in> A" "fset (fmdom vs) \<subseteq> A" "fset (fmdom vs') \<subseteq> A" by (auto simp: A_def)
  have eq: "(\<Sum>b\<in>A - {a}. weight (fmlookup vs' b) d) = (\<Sum>b\<in>A - {a}. weight (fmlookup vs b) d)"
    using assms by (intro sum.cong) auto
  show ?thesis
    unfolding stake_insert [OF A(1,3)] stake_insert [OF A(1,4)]
    using eq sum.remove [OF A(1,2), of "\<lambda>b. weight (fmlookup vs b) d"]
      sum.remove [OF A(1,2), of "\<lambda>b. weight (fmlookup vs' b) d"] by simp
qed

lemma stake_fmupd: "stake (fmupd a v vs) d = stake vs d - weight (fmlookup vs a) d + weight (Some v) d"
  using stake_change [of a "fmupd a v vs" vs d] by simp

lemma stake_fmdrop: "stake (fmdrop a vs) d = stake vs d - weight (fmlookup vs a) d"
  using stake_change [of a "fmdrop a vs" vs d] by simp

lemma weight_last [simp]: "weight v MAX_END_DYNASTY = 0"
  by (simp add: weight_def split: option.split)

lemma stake_last [simp]: "stake vs MAX_END_DYNASTY = 0"
  by (simp add: stake_def)

definition stake_ok :: "FinState \<Rightarrow> bool" where
  "stake_ok st \<longleftrightarrow>
     m_cur_dyn_deposits st = stake (m_validators st) (m_current_dynasty st) \<and>
     m_prev_dyn_deposits st = stake (m_validators st) (m_current_dynasty st - 1) \<and>
     (\<forall>d. m_current_dynasty st < d \<and> d < MAX_END_DYNASTY \<longrightarrow>
        lookup0 (m_dynasty_deltas st) d = stake (m_validators st) d - stake (m_validators st) (d - 1))"

definition fin_inv :: "Params \<Rightarrow> FinState \<Rightarrow> bool" where
  "fin_inv p st \<longleftrightarrow> chain_ok st \<and> dynasties_ok p st \<and> stake_ok st"

text \<open>One validator changes: what has to be added to the totals and the differences.\<close>

definition weight_step :: "Validator option \<Rightarrow> u32 \<Rightarrow> u64" where
  "weight_step v d = (case v of None \<Rightarrow> 0
     | Some v \<Rightarrow> (if d = m_start_dynasty v then m_deposit v else 0) - (if d = m_end_dynasty v then m_deposit v else 0))"

lemma word_pred_less: "d \<noteq> 0 \<Longrightarrow> d - 1 < h \<longleftrightarrow> d \<le> (h :: u32)" "d \<noteq> 0 \<Longrightarrow> l \<le> d - 1 \<longleftrightarrow> l < (d :: u32)"
  by (auto simp: word_less_nat_alt word_le_nat_alt unat_minus_one unat_gt_0 Suc_le_eq less_Suc_eq_le
      simp flip: unat_gt_0)

lemma weight_diff:
  assumes "d \<noteq> 0" "\<And>w. v = Some w \<Longrightarrow> m_start_dynasty w \<le> m_end_dynasty w"
  shows "weight v d - weight v (d - 1) = weight_step v d"
proof (cases v)
  case (Some w)
  then show ?thesis
    using assms(2) [OF Some] by (auto simp: weight_def weight_step_def IsInDynasty_def word_pred_less [OF assms(1)])
qed (simp add: weight_step_def)

lemma stake_ok_change:
  assumes ok: "stake_ok st" and c: "m_current_dynasty st' = m_current_dynasty st"
    and other: "\<And>b. b \<noteq> a \<Longrightarrow> fmlookup (m_validators st') b = fmlookup (m_validators st) b"
    and sane: "\<And>v. fmlookup (m_validators st) a = Some v \<Longrightarrow> m_start_dynasty v \<le> m_end_dynasty v"
      "\<And>v. fmlookup (m_validators st') a = Some v \<Longrightarrow> m_start_dynasty v \<le> m_end_dynasty v"
    and cur: "m_cur_dyn_deposits st' = m_cur_dyn_deposits st +
      weight (fmlookup (m_validators st') a) (m_current_dynasty st) - weight (fmlookup (m_validators st) a) (m_current_dynasty st)"
    and prev: "m_prev_dyn_deposits st' = m_prev_dyn_deposits st +
      weight (fmlookup (m_validators st') a) (m_current_dynasty st - 1) - weight (fmlookup (m_validators st) a) (m_current_dynasty st - 1)"
    and deltas: "\<And>d. m_current_dynasty st < d \<Longrightarrow> d < MAX_END_DYNASTY \<Longrightarrow>
      lookup0 (m_dynasty_deltas st') d = lookup0 (m_dynasty_deltas st) d +
        weight_step (fmlookup (m_validators st') a) d - weight_step (fmlookup (m_validators st) a) d"
  shows "stake_ok st'"
proof -
  have s: "stake (m_validators st') d = stake (m_validators st) d + (weight (fmlookup (m_validators st') a) d - weight (fmlookup (m_validators st) a) d)" for d
    using stake_change [OF other, of a d] by (simp add: algebra_simps)
  have "lookup0 (m_dynasty_deltas st') d = stake (m_validators st') d - stake (m_validators st') (d - 1)"
    if d: "m_current_dynasty st < d" "d < MAX_END_DYNASTY" for d
  proof -
    have "d \<noteq> 0" using d(1) by auto
    then have w: "weight (fmlookup (m_validators st) a) d = weight_step (fmlookup (m_validators st) a) d + weight (fmlookup (m_validators st) a) (d - 1)"
      "weight (fmlookup (m_validators st') a) d = weight_step (fmlookup (m_validators st') a) d + weight (fmlookup (m_validators st') a) (d - 1)"
      using weight_diff [of d "fmlookup (m_validators st) a"] weight_diff [of d "fmlookup (m_validators st') a"] sane
      by (auto simp: algebra_simps)
    have "stake (m_validators st) d = lookup0 (m_dynasty_deltas st) d + stake (m_validators st) (d - 1)"
      using ok d by (simp add: stake_ok_def)
    then show ?thesis unfolding s deltas [OF d] w by simp
  qed
  then show ?thesis using ok cur prev by (simp add: stake_ok_def s c)
qed

subsection \<open>Deposit\<close>

text \<open>Bounds that keep the dynasty arithmetic away from wrap-around.\<close>

lemma dynasty_bound:
  assumes "chain_ok st" "dynasties_ok p st"
  shows "unat (m_current_dynasty st) < 2 ^ 31"
  using assms by (auto simp: chain_ok_def gadget_ok_def gadget_of_def dynasties_ok_def)

lemma fin_inv_bound: "fin_inv p st \<Longrightarrow> unat (m_current_dynasty st) < 2 ^ 31"
  using dynasty_bound unfolding fin_inv_def by blast

lemma unat_add_small: "unat (c :: u32) < 2 ^ 31 \<Longrightarrow> n \<le> 2 ^ 30 \<Longrightarrow> unat (c + of_nat n) = unat c + n"
  by (simp add: unat_plus_if' unat_of_nat)

lemma unat_next2: "unat (c :: u32) < 2 ^ 31 \<Longrightarrow> unat (c + 2) = unat c + 2"
  by (simp add: unat_plus_if')

lemma unat_next: "unat (c :: u32) < 2 ^ 31 \<Longrightarrow> unat (c + 1) = unat c + 1"
  by (simp add: unat_plus_if')

lemma GetEndDynasty_unat:
  assumes "params_ok p" "unat (m_current_dynasty st) < 2 ^ 31"
  shows "unat (GetEndDynasty p st) = unat (m_current_dynasty st) + unat (dynasty_logout_delay p)"
proof -
  have "unat (ucast (m_current_dynasty st) + dynasty_logout_delay p) = unat (m_current_dynasty st) + unat (dynasty_logout_delay p)"
    using assms by (simp add: params_ok_def unat_plus_if' unat_ucast_u32_u64)
  then show ?thesis
    using assms by (simp add: GetEndDynasty_def params_ok_def unat_ucast_low32)
qed

lemma ProcessDeposit_inv:
  assumes ok: "fin_inv p st" and val: "ValidateDeposit p st a value = SUCCESS" and run: "ProcessDeposit a value st = Some st'"
  shows "dynasties_ok p st'" "stake_ok st'"
proof -
  have new: "fmlookup (m_validators st) a = None" using val by (simp add: ValidateDeposit_def split: if_splits)
  define c where "c = m_current_dynasty st"
  obtain dep where st': "st' = st\<lparr>m_validators := fmupd a (Validator_new dep (c + 2) a) (m_validators st),
      m_dynasty_deltas := fmupd (c + 2) (lookup0 (m_dynasty_deltas st) (c + 2) + dep) (m_dynasty_deltas st)\<rparr>"
    using run new by (auto simp: ProcessDeposit_spec Let_def c_def split: option.splits if_splits)
  have c: "unat c < 2 ^ 31" using fin_inv_bound [OF ok] by (simp add: c_def)
  then have start: "unat (c + 2) = unat c + 2" by (rule unat_next2)
  show "dynasties_ok p st'"
    using ok start c by (auto simp: fin_inv_def dynasties_ok_def st' validator_ok_def Validator_new_def c_def word_less_nat_alt)
  show "stake_ok st'"
    by (rule stake_ok_change [where a = a and st = st])
      (use ok start c new in \<open>auto simp: st' c_def fin_inv_def weight_def weight_step_def IsInDynasty_def Validator_new_def
        word_le_nat_alt word_less_nat_alt unat_sub_if'\<close>)
qed

subsection \<open>Logout, withdraw and slash\<close>

lemma fin_inv_validator:
  "fin_inv p st \<Longrightarrow> fmlookup (m_validators st) a = Some v \<Longrightarrow> validator_ok p (m_current_dynasty st) a v"
  by (simp add: fin_inv_def dynasties_ok_def)

text \<open>A validator that may log out has not done so: the code relies on it when it does not undo an earlier
  difference.\<close>

lemma ValidateLogout_SUCCESS:
  assumes ok: "fin_inv p st" "params_ok p" and val: "ValidateLogout p st a = SUCCESS"
  obtains v where "fmlookup (m_validators st) a = Some v" "m_start_dynasty v \<le> m_current_dynasty st" "m_end_dynasty v = MAX_END_DYNASTY"
proof -
  from val obtain v where v: "fmlookup (m_validators st) a = Some v" "\<not> m_start_dynasty v > m_current_dynasty st"
    "\<not> m_end_dynasty v \<le> GetEndDynasty p st" by (auto simp: ValidateLogout_def split: option.splits if_splits)
  then have "m_end_dynasty v = MAX_END_DYNASTY"
    using fin_inv_validator [OF ok(1) v(1)] GetEndDynasty_unat [OF ok(2) fin_inv_bound [OF ok(1)]]
    by (auto simp: validator_ok_def word_le_nat_alt)
  then show thesis using that v by auto
qed

lemma validator_pred:
  assumes "validator_ok p c a v" "m_start_dynasty v \<le> c"
  shows "c - 1 \<le> c"
proof -
  have "c \<noteq> 0" using assms by (auto simp: validator_ok_def word_le_nat_alt)
  then show ?thesis by (simp add: word_le_nat_alt unat_minus_one)
qed

lemma dynasties_ok_upd:
  assumes "dynasties_ok p st" "validator_ok p (m_current_dynasty st) a v"
    and "m_validators st' = fmupd a v (m_validators st)" "m_current_dynasty st' = m_current_dynasty st"
    "m_current_epoch st' = m_current_epoch st" "m_dynasty_start_epoch st' = m_dynasty_start_epoch st"
  shows "dynasties_ok p st'"
  using assms by (auto simp: dynasties_ok_def)

lemma ProcessLogout_inv:
  assumes ok: "fin_inv p st" "params_ok p" and val: "ValidateLogout p st a = SUCCESS" and run: "ProcessLogout p a st = Some st'"
  shows "dynasties_ok p st'" "stake_ok st'"
proof -
  obtain v where v: "fmlookup (m_validators st) a = Some v" "m_start_dynasty v \<le> m_current_dynasty st" "m_end_dynasty v = MAX_END_DYNASTY"
    using ok val by (rule ValidateLogout_SUCCESS)
  define e where "e = GetEndDynasty p st"
  have st': "st' = st\<lparr>m_validators := fmupd a (v\<lparr>m_end_dynasty := e, m_deposits_at_logout := m_cur_dyn_deposits st\<rparr>) (m_validators st),
      m_dynasty_deltas := fmupd e (lookup0 (m_dynasty_deltas st) e - m_deposit v) (m_dynasty_deltas st)\<rparr>"
    using run v by (simp add: ProcessLogout_spec e_def Let_def)
  have c: "unat (m_current_dynasty st) < 2 ^ 31" using ok(1) by (rule fin_inv_bound)
  have e: "unat e = unat (m_current_dynasty st) + unat (dynasty_logout_delay p)" "1 \<le> unat (dynasty_logout_delay p)"
      "unat (dynasty_logout_delay p) \<le> 2 ^ 30"
    using GetEndDynasty_unat [OF ok(2) c] ok(2) by (simp_all add: e_def params_ok_def)
  have vok: "validator_ok p (m_current_dynasty st) a v" using ok(1) v(1) by (rule fin_inv_validator)
  show "dynasties_ok p st'"
    by (rule dynasties_ok_upd [where st = st])
      (use ok vok v e in \<open>auto simp: st' fin_inv_def validator_ok_def word_le_nat_alt word_less_nat_alt\<close>)
  have lt: "m_current_dynasty st < e" "m_current_dynasty st < MAX_END_DYNASTY" "e < MAX_END_DYNASTY"
    using e c by (simp_all add: word_less_nat_alt)
  have in_old: "IsInDynasty (v\<lparr>m_end_dynasty := e, m_deposits_at_logout := x\<rparr>) d = IsInDynasty v d" if "d \<le> m_current_dynasty st" for d x
    using that lt v(3) by (auto simp: IsInDynasty_def)
  have pred: "m_current_dynasty st - 1 \<le> m_current_dynasty st" using vok v(2) by (rule validator_pred)
  show "stake_ok st'"
  proof (rule stake_ok_change [where a = a and st = st])
    fix d assume "m_current_dynasty st < d" "d < MAX_END_DYNASTY"
    then show "lookup0 (m_dynasty_deltas st') d = lookup0 (m_dynasty_deltas st) d +
        weight_step (fmlookup (m_validators st') a) d - weight_step (fmlookup (m_validators st) a) d"
      using v by (auto simp: st' weight_step_def)
  qed (use ok v lt pred in_old in \<open>auto simp: st' fin_inv_def weight_def\<close>)
qed

lemma ValidateWithdraw_SUCCESS:
  assumes ok: "chain_ok st" and val: "ValidateWithdraw p st a value = Some SUCCESS"
  obtains v where "fmlookup (m_validators st) a = Some v" "m_end_dynasty v < m_current_dynasty st" "m_end_dynasty v \<noteq> MAX_END_DYNASTY"
proof -
  have now: "m_current_epoch st < - 1"
    using ok by (simp add: chain_ok_def gadget_ok_def gadget_of_def word_less_nat_alt flip: MAX_END_DYNASTY_def)
  from val obtain x where "CalculateWithdrawAmount p st a = Some (SUCCESS, x)"
    by (auto simp: ValidateWithdraw_def bind_eq_Some_conv split: if_splits)
  then obtain v w where v: "fmlookup (m_validators st) a = Some v" "CalculateWithdrawEpoch p st v = Some w" "\<not> m_current_epoch st < w"
    by (auto simp: CalculateWithdrawAmount_def bind_eq_Some_conv split: option.splits if_splits)
  then have "\<not> m_current_dynasty st \<le> m_end_dynasty v" "m_end_dynasty v \<noteq> MAX_END_DYNASTY"
    using now by (auto simp: CalculateWithdrawEpoch_def split: if_splits)
  then show thesis using that v(1) by auto
qed

lemma ProcessWithdraw_inv:
  assumes ok: "fin_inv p st" and val: "ValidateWithdraw p st a value = Some SUCCESS"
  shows "dynasties_ok p (ProcessWithdraw a st)" "stake_ok (ProcessWithdraw a st)"
proof -
  obtain v where v: "fmlookup (m_validators st) a = Some v" "m_end_dynasty v < m_current_dynasty st"
    using ValidateWithdraw_SUCCESS ok val unfolding fin_inv_def by metis
  show "dynasties_ok p (ProcessWithdraw a st)"
    using ok by (auto simp: fin_inv_def dynasties_ok_def ProcessWithdraw_spec split: if_splits)
  have vok: "validator_ok p (m_current_dynasty st) a v" using ok v(1) by (rule fin_inv_validator)
  have "m_current_dynasty st \<noteq> 0" using v(2) by auto
  then have le: "m_end_dynasty v \<le> m_current_dynasty st - 1" using v(2) by (simp add: word_pred_less)
  show "stake_ok (ProcessWithdraw a st)"
  proof (rule stake_ok_change [where a = a and st = st])
    fix d assume "m_current_dynasty st < d"
    then have "d \<noteq> m_start_dynasty v" "d \<noteq> m_end_dynasty v" using v(2) vok by (auto simp: validator_ok_def)
    then show "lookup0 (m_dynasty_deltas (ProcessWithdraw a st)) d = lookup0 (m_dynasty_deltas st) d +
        weight_step (fmlookup (m_validators (ProcessWithdraw a st)) a) d - weight_step (fmlookup (m_validators st) a) d"
      using v(1) by (simp add: ProcessWithdraw_spec weight_step_def)
  qed (use ok v vok le in \<open>auto simp: ProcessWithdraw_spec fin_inv_def weight_def IsInDynasty_def validator_ok_def\<close>)
qed

lemma ProcessSlash_inv:
  assumes ok: "fin_inv p st" "params_ok p" and val: "IsSlashable st v1 v2 = SUCCESS" and run: "ProcessSlash v1 v2 st = Some st'"
  shows "dynasties_ok p st'" "stake_ok st'"
proof -
  define c where "c = m_current_dynasty st"
  obtain v where v: "fmlookup (m_validators st) (v_validator_address v1) = Some v" "\<not> m_is_slashed v" "m_start_dynasty v \<le> c"
    using val unfolding c_def by (rule IsSlashable_SUCCESS)
  obtain scale slashed where h: "fmlookup (m_deposit_scale_factor st) (m_current_epoch st) = Some scale"
      "fmlookup (m_total_slashed st) (m_current_epoch st) = Some slashed"
    using ok(1) unfolding fin_inv_def by (auto elim: chain_okE)
  from ProcessSlash_spec [OF v(1,2) h, of v2, unfolded run option.inject, folded c_def] obtain log ts where
    st': "st' = st\<lparr>m_total_slashed := ts,
      m_validators := fmupd (v_validator_address v1)
        (if c < m_end_dynasty v then v\<lparr>m_is_slashed := True, m_end_dynasty := c + 1, m_deposits_at_logout := log\<rparr>
         else v\<lparr>m_is_slashed := True\<rparr>) (m_validators st),
      m_dynasty_deltas := (if c < m_end_dynasty v then slashed_deltas v st else m_dynasty_deltas st)\<rparr>" by blast
  have vok: "validator_ok p c (v_validator_address v1) v" using ok(1) v(1) unfolding c_def by (rule fin_inv_validator)
  have "unat c < 2 ^ 31" using ok(1) unfolding c_def by (rule fin_inv_bound)
  then have n: "unat (c + 1) = unat c + 1" "c < c + 1" "c + 1 < MAX_END_DYNASTY"
    by (auto simp: unat_next word_less_nat_alt)
  have pred: "c - 1 \<le> c" using vok v(3) by (rule validator_pred)
  show "dynasties_ok p st'"
    by (rule dynasties_ok_upd [where st = st])
      (use ok vok v n in \<open>auto simp: st' fin_inv_def c_def validator_ok_def params_ok_def word_le_nat_alt word_less_nat_alt\<close>)
  have in_old: "IsInDynasty (v\<lparr>m_is_slashed := True, m_end_dynasty := c + 1, m_deposits_at_logout := x\<rparr>) d = IsInDynasty v d"
    if "d \<le> c" "c < m_end_dynasty v" for d x
    using that n by (auto simp: IsInDynasty_def)
  have "m_start_dynasty v \<le> c + 1" using v(3) n(2) by simp
  show "stake_ok st'"
  proof (rule stake_ok_change [where a = "v_validator_address v1" and st = st])
    fix d assume d: "m_current_dynasty st < d" "d < MAX_END_DYNASTY"
    then have "d \<noteq> m_start_dynasty v" using v(3) by (auto simp: c_def)
    with d show "lookup0 (m_dynasty_deltas st') d = lookup0 (m_dynasty_deltas st) d +
        weight_step (fmlookup (m_validators st') (v_validator_address v1)) d - weight_step (fmlookup (m_validators st) (v_validator_address v1)) d"
      using v(1) by (auto simp: st' weight_step_def slashed_deltas_def Let_def c_def [symmetric])
  qed (use ok v vok n pred in_old in \<open>auto simp: st' fin_inv_def weight_def validator_ok_def c_def [symmetric] IsInDynasty_def
        split: if_splits\<close>)
qed

subsection \<open>Votes\<close>

lemma IsFinalizerVoting_start:
  assumes "validator_ok p (m_current_dynasty st) a v" "IsFinalizerVoting st v"
  shows "m_start_dynasty v \<le> m_current_dynasty st" "m_current_dynasty st \<le> m_end_dynasty v"
proof -
  have "m_start_dynasty v \<le> m_current_dynasty st \<and> m_current_dynasty st \<le> m_end_dynasty v"
  proof (cases "IsInDynasty v (m_current_dynasty st)")
    case False
    then have in_prev: "IsInDynasty v (m_current_dynasty st - 1)" using assms(2) by (simp add: IsFinalizerVoting_def)
    then have "m_current_dynasty st \<noteq> 0" using not_in_last_dynasty [of v] by (auto simp: MAX_END_DYNASTY_def)
    then show ?thesis using in_prev by (auto simp: IsInDynasty_def word_pred_less)
  qed (auto simp: IsInDynasty_def)
  then show "m_start_dynasty v \<le> m_current_dynasty st" "m_current_dynasty st \<le> m_end_dynasty v" by auto
qed

lemma reward_state_inv:
  assumes ok: "dynasties_ok p st" "stake_ok st" and v: "fmlookup (m_validators st) a = Some v" "IsFinalizerVoting st v"
  shows "dynasties_ok p (reward_state a v r st)" "stake_ok (reward_state a v r st)"
proof -
  have vok: "validator_ok p (m_current_dynasty st) a v" using ok(1) v(1) by (simp add: dynasties_ok_def)
  have vok': "validator_ok p (m_current_dynasty st) a (v\<lparr>m_deposit := x\<rparr>)" for x
    using vok by (simp add: validator_ok_def)
  show "dynasties_ok p (reward_state a v r st)"
    by (rule dynasties_ok_upd [OF ok(1) vok']) (simp_all add: reward_state_def)
  have ind: "IsInDynasty (v\<lparr>m_deposit := x\<rparr>) d = IsInDynasty v d" for x d by (simp add: IsInDynasty_def)
  show "stake_ok (reward_state a v r st)"
  proof (rule stake_ok_change [where a = a and st = st])
    fix d assume d: "m_current_dynasty st < d" "d < MAX_END_DYNASTY"
    then have "d \<noteq> m_start_dynasty v" using IsFinalizerVoting_start [OF vok v(2)] by auto
    with d show "lookup0 (m_dynasty_deltas (reward_state a v r st)) d = lookup0 (m_dynasty_deltas st) d +
        weight_step (fmlookup (m_validators (reward_state a v r st)) a) d - weight_step (fmlookup (m_validators st) a) d"
      using v(1) by (auto simp: reward_state_def weight_step_def)
  qed (use ok v vok in \<open>auto simp: reward_state_def weight_def ind validator_ok_def\<close>)
qed

lemma stake_cong:
  assumes "m_validators st' = m_validators st" "m_current_dynasty st' = m_current_dynasty st" "m_current_epoch st' = m_current_epoch st"
    "m_dynasty_start_epoch st' = m_dynasty_start_epoch st" "m_cur_dyn_deposits st' = m_cur_dyn_deposits st"
    "m_prev_dyn_deposits st' = m_prev_dyn_deposits st" "m_dynasty_deltas st' = m_dynasty_deltas st"
  shows "dynasties_ok p st' = dynasties_ok p st" "stake_ok st' = stake_ok st"
  using assms by (simp_all add: dynasties_ok_def stake_ok_def)

lemma ProcessVote_inv:
  assumes ok: "fin_inv p st" and val: "ValidateVote st vote = SUCCESS" and run: "ProcessVote vote st = Some st'"
  shows "dynasties_ok p st'" "stake_ok st'"
proof -
  obtain v cp where v: "fmlookup (m_validators st) (v_validator_address vote) = Some v" "IsFinalizerVoting st v"
    and eff: "ProcessVote vote st = Some (if vote_carries vote v cp st then carried_state vote v cp st else counted_state vote v cp st)"
    using val ok unfolding fin_inv_def by (auto elim: ProcessVote_effect)
  define st0 where "st0 = voted_state vote v cp st"
  have same0: "dynasties_ok p st0 = dynasties_ok p st" "stake_ok st0 = stake_ok st"
    by (rule stake_cong; simp add: st0_def voted_state_def set_checkpoint_def)+
  have ok0: "dynasties_ok p st0" "stake_ok st0" using ok same0 by (simp_all add: fin_inv_def)
  have v0: "fmlookup (m_validators st0) (v_validator_address vote) = Some v" "IsFinalizerVoting st0 v"
    using v by (simp_all add: st0_def voted_state_def set_checkpoint_def IsFinalizerVoting_def)
  define st1 where "st1 = counted_state vote v cp st"
  have ok1: "dynasties_ok p st1" "stake_ok st1"
    using ok0 reward_state_inv [OF ok0 v0] by (auto simp: st1_def counted_state_def st0_def)
  have "dynasties_ok p (carried_state vote v cp st) = dynasties_ok p st1" "stake_ok (carried_state vote v cp st) = stake_ok st1"
    by (rule stake_cong; simp add: st1_def carried_state_def Let_def)+
  then show "dynasties_ok p st'" "stake_ok st'" using ok1 eff run by (auto simp: st1_def)
qed

subsection \<open>Epochs\<close>

lemma next_dynasty_inv:
  assumes ok: "stake_ok st" and bound: "unat (m_current_dynasty st) < 2 ^ 31"
  shows "stake_ok (next_dynasty st)"
proof -
  define c where "c = m_current_dynasty st"
  have n: "c < c + 1" "c + 1 < MAX_END_DYNASTY" using bound by (auto simp: c_def unat_next word_less_nat_alt)
  have "c < d" if "c + 1 < d" for d using that n by auto
  then show ?thesis
    using ok n by (auto simp: stake_ok_def next_dynasty_def Let_def c_def [symmetric])
qed

lemma validator_ok_mono: "validator_ok p c a v \<Longrightarrow> c \<le> c' \<Longrightarrow> validator_ok p c' a v"
  by (auto simp: validator_ok_def word_le_nat_alt)

lemma next_dynasty_dynasties:
  assumes ok: "dynasties_ok p st" and late: "unat (m_current_dynasty st) \<le> unat (m_current_epoch st) - 3" "3 \<le> unat (m_current_epoch st)"
    and bound: "unat (m_current_dynasty st) < 2 ^ 31"
  shows "dynasties_ok p (next_dynasty st)"
proof -
  define c where "c = m_current_dynasty st"
  have n: "unat (c + 1) = unat c + 1" using bound by (simp add: c_def unat_next)
  have le: "d \<le> c + 1 \<longleftrightarrow> d = c + 1 \<or> d \<le> c" for d
    using n by (auto simp: word_le_nat_alt word_unat_eq_iff)
  have "validator_ok p (c + 1) a v" if "validator_ok p c a v" for a v
    using that by (rule validator_ok_mono) (simp add: le)
  then show ?thesis
    using ok late n by (auto simp: dynasties_ok_def next_dynasty_def Let_def c_def [symmetric] le)
qed

lemma InitializeEpoch_inv:
  assumes ok: "fin_inv p st" "params_ok p" and run: "InitializeEpoch p h st = Some (r, st')"
  shows "dynasties_ok p st'" "stake_ok st'"
proof -
  have c: "unat (m_current_dynasty st) < 2 ^ 31" using ok(1) by (rule fin_inv_bound)
  have chain: "chain_ok st" "dynasties_ok p st" "stake_ok st" using ok(1) by (simp_all add: fin_inv_def)
  have "epoch_length p \<noteq> 0" using ok(2) by (simp add: params_ok_def)
  from InitializeEpoch_chain(3) [OF chain(1) this run]
  have "dynasties_ok p st' \<and> stake_ok st'"
  proof (elim disjE exE conjE)
    fix st1 assume st1: "epoch_started st st1" "unat (m_current_epoch st1) = unat (m_current_epoch st) + 1"
    then have fields: "m_validators st1 = m_validators st" "m_current_dynasty st1 = m_current_dynasty st"
        "m_dynasty_start_epoch st1 = m_dynasty_start_epoch st" "m_cur_dyn_deposits st1 = m_cur_dyn_deposits st"
        "m_prev_dyn_deposits st1 = m_prev_dyn_deposits st" "m_dynasty_deltas st1 = m_dynasty_deltas st"
      by (auto simp: epoch_started_def Let_def)
    then have ok1: "stake_ok st1" "dynasties_ok p st1" using chain st1(2) by (auto simp: stake_ok_def dynasties_ok_def)
    {
      assume "st' = st1"
      then show ?thesis using ok1 by simp
    next
      assume "dynasty_advanced st1 st'"
      then obtain st2 cps just final source where st2: "st2 = st1 \<or> st2 = next_dynasty st1 \<and> \<not> m_current_epoch st1 < 3"
        and st': "st' = st2\<lparr>m_checkpoints := cps, m_last_justified_epoch := just, m_last_finalized_epoch := final, m_expected_source_epoch := source\<rparr>"
        unfolding dynasty_advanced_def by blast
      have "dynasties_ok p (next_dynasty st1)" if "\<not> m_current_epoch st1 < 3"
      proof (rule next_dynasty_dynasties [OF ok1(2)])
        show "3 \<le> unat (m_current_epoch st1)" using that by (simp add: word_less_nat_alt)
        show "unat (m_current_dynasty st1) \<le> unat (m_current_epoch st1) - 3"
          using chain(2) st1(2) fields by (simp add: dynasties_ok_def)
        show "unat (m_current_dynasty st1) < 2 ^ 31" using c fields by simp
      qed
      moreover have "stake_ok (next_dynasty st1)" using ok1(1) c fields by (intro next_dynasty_inv) simp_all
      ultimately have "dynasties_ok p st2" "stake_ok st2" using st2 ok1 by auto
      moreover have "dynasties_ok p st' = dynasties_ok p st2" "stake_ok st' = stake_ok st2"
        by (rule stake_cong; simp add: st')+
      ultimately show ?thesis by simp
    }
  qed (use chain in auto)
  then show "dynasties_ok p st'" "stake_ok st'" by auto
qed

subsection \<open>Every step keeps the invariant\<close>

lemma fin_step_inv:
  assumes ok: "fin_inv p st" "params_ok p" and step: "fin_step Hash160 p st st'"
  shows "fin_inv p st'"
proof -
  have "chain_ok st'" using fin_step_chain [OF step] ok by (simp add: fin_inv_def params_ok_def)
  moreover have "dynasties_ok p st' \<and> stake_ok st'"
    using step
  proof cases
    case (last_tx a tx)
    then obtain v where v: "fmlookup (m_validators st) a = Some v"
      "st' = st\<lparr>m_validators := fmupd a (v\<lparr>m_last_transaction_hash := tx_hash tx\<rparr>) (m_validators st)\<rparr>"
      by (auto simp: RegisterLastTx_def bind_eq_Some_conv set_validator_def)
    have vok: "validator_ok p (m_current_dynasty st) a v" using ok(1) v(1) by (rule fin_inv_validator)
    have "dynasties_ok p st'"
      by (rule dynasties_ok_upd [where st = st]) (use ok vok v in \<open>auto simp: fin_inv_def validator_ok_def\<close>)
    moreover have "stake_ok st'"
      by (rule stake_ok_change [where a = a and st = st])
        (use ok vok v in \<open>auto simp: fin_inv_def weight_def weight_step_def IsInDynasty_def validator_ok_def\<close>)
    ultimately show ?thesis by simp
  next
    case (admin commands)
    then show ?thesis
      using ok stake_cong [of st' st] by (auto simp: fin_inv_def ProcessAdminCommands_def bind_eq_Some_conv)
  next
    case (target h e)
    then show ?thesis using ok stake_cong [of st' st] by (auto simp: fin_inv_def)
  next
    case (status s)
    then show ?thesis using ok stake_cong [of st' st] by (auto simp: fin_inv_def FinState_copy_def)
  qed (use ok in \<open>blast dest: InitializeEpoch_inv ProcessDeposit_inv ProcessVote_inv ProcessLogout_inv ProcessWithdraw_inv ProcessSlash_inv\<close>)+
  ultimately show ?thesis by (simp add: fin_inv_def)
qed

end
