(* ===== verification/FinSafety.thy ===== *)
theory FinSafety
  imports StakeAccounting
begin

section \<open>What the finalization state guarantees\<close>

text \<open>
  The properties of the states reached from the initial one by validated steps: the totals are the sums of the
  deposits, epochs and dynasties only move forward, a checkpoint is justified by two thirds of the stake, no
  validated commit makes the node abort, and no vote is counted twice.
\<close>

definition fin_ok :: "Params \<Rightarrow> FinState \<Rightarrow> bool" where
  "fin_ok p st \<longleftrightarrow> params_ok p \<and> fin_inv p st"

lemma fin_ok_step: "fin_ok p st \<Longrightarrow> fin_step Hash160 p st st' \<Longrightarrow> fin_ok p st'"
  unfolding fin_ok_def using fin_step_inv by blast

interpretation fin: step_invariant "fin_step Hash160 p" "fin_ok p" for Hash160 p
  by unfold_locales (rule fin_ok_step)

lemma fin_ok_chain: "fin_ok p st \<Longrightarrow> chain_ok st" "fin_ok p st \<Longrightarrow> epoch_length p \<noteq> 0" "fin_ok p st \<Longrightarrow> gadget_ok (gadget_of st)"
  by (simp_all add: fin_ok_def fin_inv_def params_ok_def chain_ok_def)

lemma fin_step_gadget:
  assumes "fin_ok p st" "fin_step Hash160 p st st'"
  shows "gadget_step\<^sup>*\<^sup>* (gadget_of st) (gadget_of st')"
  using fin_step_chain [OF assms(2)] fin_ok_chain [OF assms(1)] by blast

lemma fin_final_grows:
  "fin_ok p st \<Longrightarrow> fin_step Hash160 p st st' \<Longrightarrow> m_last_finalized_epoch st \<le> m_last_finalized_epoch st'"
  using gadget_final.never_decreases [OF fin_step_gadget fin_ok_chain(3)] by (simp add: gadget_of_def)

lemma fin_just_grows:
  "fin_ok p st \<Longrightarrow> fin_step Hash160 p st st' \<Longrightarrow> m_last_justified_epoch st \<le> m_last_justified_epoch st'"
  using gadget_just.never_decreases [OF fin_step_gadget fin_ok_chain(3)] by (simp add: gadget_of_def)

lemma fin_epoch_grows:
  "fin_ok p st \<Longrightarrow> fin_step Hash160 p st st' \<Longrightarrow> m_current_epoch st \<le> m_current_epoch st'"
  using gadget_now.never_decreases [OF fin_step_gadget fin_ok_chain(3)] by (simp add: gadget_of_def)

interpretation fin_final: step_monotone "fin_step Hash160 p" "fin_ok p" m_last_finalized_epoch for Hash160 p
  by unfold_locales (rule fin_final_grows)

interpretation fin_just: step_monotone "fin_step Hash160 p" "fin_ok p" m_last_justified_epoch for Hash160 p
  by unfold_locales (rule fin_just_grows)

interpretation fin_epoch: step_monotone "fin_step Hash160 p" "fin_ok p" m_current_epoch for Hash160 p
  by unfold_locales (rule fin_epoch_grows)

lemma FinState_new_ok:
  assumes "params_ok p" "FinState_new IsFullyValid p = Some st"
  shows "fin_ok p st"
proof -
  from assms(2) obtain admin where st: "st = \<lparr>m_checkpoints = fmupd 0 (Checkpoint_new\<lparr>m_is_justified := True, m_is_finalized := True\<rparr>) fmempty,
       m_dynasty_start_epoch = fmupd 0 1 fmempty, m_validators = fmempty,
       m_dynasty_deltas = fmupd 0 0 fmempty, m_deposit_scale_factor = fmupd 0 BASE_DEPOSIT_SCALE_FACTOR fmempty,
       m_total_slashed = fmupd 0 0 fmempty, m_current_epoch = 0, m_current_dynasty = 0,
       m_cur_dyn_deposits = 0, m_prev_dyn_deposits = 0, m_expected_source_epoch = 0,
       m_last_finalized_epoch = 0, m_last_justified_epoch = 0, m_recommended_target_hash = 0,
       m_recommended_target_epoch = 0, m_reward_factor = 0, m_admin_state = admin, m_status = NEW\<rparr>"
    by (auto simp: FinState_new_def bind_eq_Some_conv)
  have "gadget_ok (gadget_of st)"
    by (auto simp: st gadget_ok_def gadget_of_def g_justified_def cp_flags_def split: if_splits)
  moreover have "source_ok st" "history_ok st" by (auto simp: st source_ok_def history_ok_def cp_flags_def)
  moreover have "dynasties_ok p st" by (auto simp: st dynasties_ok_def)
  moreover have "stake_ok st" by (auto simp: st stake_ok_def stake_def lookup0_def)
  ultimately show ?thesis using assms(1) by (simp add: fin_ok_def fin_inv_def chain_ok_def)
qed

end
