(* ===== verification/FinScenario.thy ===== *)
theory FinScenario
  imports FinSafety
begin

section \<open>A run of the finalization state\<close>

text \<open>
  A concrete run, evaluated: four epochs start, a finalizer deposits in the first and votes in the fourth. The
  properties are applied to its states. The lemmas \<open>ufp_code\<close> give the fixed point operations as integer arithmetic for
  the evaluation.
\<close>

lemma quotient_word_of_int:
  "(of_nat (unat (x :: u64) * unat (y :: u64) div SCALE) :: u64) = word_of_int (uint x * uint y div 100000000)"
  "(of_nat (unat (x :: u64) * SCALE div unat (y :: u64)) :: u64) = word_of_int (uint x * 100000000 div uint y)"
proof -
  have "int (unat x * unat y div SCALE) = uint x * uint y div 100000000"
    "int (unat x * SCALE div unat y) = uint x * 100000000 div uint y"
    by (simp_all only: SCALE_def zdiv_int of_nat_mult uint_nat of_nat_numeral)
  then show "(of_nat (unat x * unat y div SCALE) :: u64) = word_of_int (uint x * uint y div 100000000)"
    "(of_nat (unat x * SCALE div unat y) :: u64) = word_of_int (uint x * 100000000 div uint y)"
    by (metis of_int_of_nat_eq)+
qed

lemma scale_numeral: "add_uint ufp x = ucast (x * 100000000 :: u32) + ufp" "to_ufp64 y = y * 100000000"
  by (simp_all add: add_uint_def to_ufp64_def SCALE_def)

lemmas ufp_code [code] = scale_numeral mul_by_uint_spec div_by_uint_spec
  mul_to_uint_spec [unfolded quotient_word_of_int] ufp_mul_spec [unfolded quotient_word_of_int]
  div_2uint_spec [unfolded quotient_word_of_int] div_to_uint_spec [unfolded quotient_word_of_int]
  ufp_div_spec [unfolded quotient_word_of_int]

fun newton_int :: "nat \<Rightarrow> int \<Rightarrow> int \<Rightarrow> int" where
  "newton_int 0 y s = s"
| "newton_int (Suc n) y s = newton_int n y ((s + y div s) div 2)"

lemma newton_int: "int (newton n y s) = newton_int n (int y) (int s)"
  by (induction n arbitrary: s) (simp_all add: zdiv_int)

lemma sqrt_uint_code [code]:
  "sqrt_uint x = (if x = 0 then None else
     let y = uint x * 10000000000000000 in Some (word_of_int (newton_int SQRT_ITERATIONS y (y div 2))))"
proof (cases "x = 0")
  case False
  define y where "y = unat x * SCALE * SCALE"
  have y: "int y = uint x * 10000000000000000" unfolding y_def SCALE_def by simp
  have "(of_nat (newton SQRT_ITERATIONS y (y div 2)) :: u64) = word_of_int (int (newton SQRT_ITERATIONS y (y div 2)))" by simp
  also have "\<dots> = word_of_int (newton_int SQRT_ITERATIONS (int y) (int (y div 2)))" unfolding newton_int ..
  finally have "sqrt_uint x = Some (word_of_int (newton_int SQRT_ITERATIONS (int y) (int (y div 2))))"
    using sqrt_uint_newton [OF False, folded y_def] by simp
  then show ?thesis using False unfolding zdiv_int y by (simp add: Let_def)
qed (simp add: sqrt_uint_zero)

definition demo_params :: Params where
  "demo_params = \<lparr>epoch_length = 5, min_deposit_size = 150000000000, dynasty_logout_delay = 2, withdrawal_epoch_delay = 5,
     slash_fraction_multiplier = 3, bounty_fraction_denominator = 25, base_interest_factor = 700000000, base_penalty_factor = 2000,
     admin_params = \<lparr>admin_keys = None, white_list = []\<rparr>\<rparr>"

definition demo_start :: "FinState option" where
  "demo_start = do {
     st \<leftarrow> FinState_new (\<lambda>_. True) demo_params;
     (_, st) \<leftarrow> InitializeEpoch demo_params 1 st;
     Some st
   }"

definition demo_deposit :: "FinState option" where
  "demo_deposit = do {
     st \<leftarrow> demo_start;
     require (ValidateDeposit demo_params st 7 150000000000 = SUCCESS);
     ProcessDeposit 7 150000000000 st
   }"

definition demo_epoch4 :: "FinState option" where
  "demo_epoch4 = do {
     st \<leftarrow> demo_deposit;
     (_, st) \<leftarrow> InitializeEpoch demo_params 6 st;
     (_, st) \<leftarrow> InitializeEpoch demo_params 11 st;
     let st = st\<lparr>m_recommended_target_hash := 99, m_recommended_target_epoch := 3\<rparr>;
     (_, st) \<leftarrow> InitializeEpoch demo_params 16 st;
     Some st
   }"

definition demo_vote :: Vote where
  "demo_vote = \<lparr>v_validator_address = 7, m_target_hash = 99, m_source_epoch = 2, m_target_epoch = 3\<rparr>"

definition demo_voted :: "FinState option" where
  "demo_voted = do {
     st \<leftarrow> demo_epoch4;
     require (ValidateVote st demo_vote = SUCCESS);
     ProcessVote demo_vote st
   }"

text \<open>The states of the run exist.\<close>

lemma demo_voted_Some: "demo_voted \<noteq> None"
  unfolding demo_voted_def by code_simp

text \<open>Transactions of one finalizer, whose key hashes to 7.\<close>

definition demo_key :: CPubKey where
  "demo_key = 2 # replicate 32 9"

definition demo_hash :: "bytes \<Rightarrow> u160" where
  "demo_hash k = (if k = demo_key then 7 else 8)"

definition demo_script :: "CPubKey \<Rightarrow> bytes" where
  "demo_script k = the (CreateFinalizerCommitScript demo_hash k)"

definition demo_commit :: "TxType \<Rightarrow> CPubKey \<Rightarrow> bytes \<Rightarrow> u256 \<Rightarrow> CTransaction" where
  "demo_commit t k sig h = SetType t \<lparr>vin = [\<lparr>prevout = \<lparr>out_hash = 5, out_n = 0\<rparr>, scriptSig = sig, nSequence = 0, scriptWitness = []\<rparr>],
     vout = [\<lparr>nValue = 150000000000, scriptPubKey = demo_script k\<rparr>], nVersion = 1, nLockTime = 0, tx_hash = h\<rparr>"

end
