(* ===== verification/FinProps.thy ===== *)
theory FinProps
  imports FinScenario
begin

section \<open>Properties of finalization\<close>

text \<open>The main theorems about the finalization state, over the states a node reaches from the initial one by
  validated steps.\<close>

definition fin_reachable :: "(bytes \<Rightarrow> u160) \<Rightarrow> (CPubKey \<Rightarrow> bool) \<Rightarrow> Params \<Rightarrow> FinState \<Rightarrow> bool" where
  "fin_reachable Hash160 IsFullyValid p st \<longleftrightarrow>
     params_ok p \<and> (\<exists>st0. FinState_new IsFullyValid p = Some st0 \<and> (fin_step Hash160 p)\<^sup>*\<^sup>* st0 st)"

lemma fin_reachable_ok: "fin_reachable Hash160 IsFullyValid p st \<Longrightarrow> fin_ok p st"
  unfolding fin_reachable_def using fin.reachable FinState_new_ok by blast

lemma fin_reachable_inv:
  assumes "fin_reachable Hash160 IsFullyValid p st"
  shows "params_ok p" "fin_inv p st" "chain_ok st" "dynasties_ok p st" "source_ok st" "history_ok st" "gadget_ok (gadget_of st)"
  using fin_reachable_ok [OF assms] by (simp_all add: fin_ok_def fin_inv_def chain_ok_def)

lemma fin_reachable_step: "fin_reachable Hash160 IsFullyValid p st \<Longrightarrow> fin_step Hash160 p st st' \<Longrightarrow> fin_reachable Hash160 IsFullyValid p st'"
  unfolding fin_reachable_def by (meson rtranclp.rtrancl_into_rtrancl)

lemma demo_params_ok: "params_ok demo_params"
  by (simp add: params_ok_def demo_params_def)

text \<open>The states of the concrete run are reachable.\<close>

lemma demo_start_reachable: "demo_start = Some st \<Longrightarrow> fin_reachable Hash160 (\<lambda>_. True) demo_params st"
  unfolding demo_start_def using demo_params_ok
  by (auto simp: bind_eq_Some_conv fin_reachable_def intro: fin_step.epoch r_into_rtranclp)

lemma demo_deposit_reachable: "demo_deposit = Some st \<Longrightarrow> fin_reachable Hash160 (\<lambda>_. True) demo_params st"
  unfolding demo_deposit_def
  by (auto simp: bind_eq_Some_conv require_def split: if_splits
      intro: fin_reachable_step demo_start_reachable fin_step.deposit)

lemma demo_epoch4_reachable: "demo_epoch4 = Some st \<Longrightarrow> fin_reachable Hash160 (\<lambda>_. True) demo_params st"
  unfolding demo_epoch4_def Let_def bind_eq_Some_conv
  by (elim exE conjE, clarsimp simp: bind_eq_Some_conv)
    (rule fin_reachable_step [OF fin_reachable_step [OF fin_reachable_step [OF fin_reachable_step
      [OF demo_deposit_reachable fin_step.epoch] fin_step.epoch] fin_step.target] fin_step.epoch])

lemma demo_voted_reachable: "demo_voted = Some st \<Longrightarrow> fin_reachable Hash160 (\<lambda>_. True) demo_params st"
  unfolding demo_voted_def
  by (auto simp: bind_eq_Some_conv require_def split: if_splits
      intro: fin_reachable_step demo_epoch4_reachable fin_step.vote)

definition demo_state :: FinState where
  "demo_state = the demo_voted"

lemma demo_state_reachable: "fin_reachable Hash160 (\<lambda>_. True) demo_params demo_state"
  using demo_voted_Some demo_voted_reachable by (auto simp: demo_state_def)

lemma demo_steps:
  "\<exists>st. demo_epoch4 = Some st \<and> ValidateVote st demo_vote = SUCCESS \<and> ProcessVote demo_vote st = Some demo_state"
proof -
  obtain st' where st': "demo_voted = Some st'" using demo_voted_Some by blast
  then have "demo_state = st'" unfolding demo_state_def by (metis option.sel)
  then show ?thesis using st' by (auto simp: demo_voted_def require_def bind_eq_Some_conv split: if_splits)
qed

subsection \<open>Accounting\<close>

text \<open>C1: In every reachable state the two totals the code keeps are the sums of the deposits of the validators of
  the current and of the previous dynasty, and the difference kept for a later dynasty is the difference of the sums.\<close>

theorem reachable_stake:
  assumes "fin_reachable Hash160 IsFullyValid p st"
  shows "m_cur_dyn_deposits st = stake (m_validators st) (m_current_dynasty st) \<and>
    m_prev_dyn_deposits st = stake (m_validators st) (m_current_dynasty st - 1) \<and>
    (\<forall>d. m_current_dynasty st < d \<and> d < MAX_END_DYNASTY \<longrightarrow>
      lookup0 (m_dynasty_deltas st) d = stake (m_validators st) d - stake (m_validators st) (d - 1))"
  using fin_reachable_ok [OF assms] by (simp add: fin_ok_def fin_inv_def stake_ok_def)

theorem reachable_stake_witness:
  "m_cur_dyn_deposits demo_state = stake (m_validators demo_state) 2 \<and> m_cur_dyn_deposits demo_state = 150000000000 \<and>
   lookup0 (m_dynasty_deltas demo_state) 3 = stake (m_validators demo_state) 3 - stake (m_validators demo_state) 2"
proof -
  have now: "m_current_dynasty demo_state = 2" "m_cur_dyn_deposits demo_state = 150000000000" unfolding demo_state_def by code_simp+
  have "(3 :: u32) < MAX_END_DYNASTY" by (simp add: word_less_nat_alt)
  then show ?thesis using reachable_stake [OF demo_state_reachable] now by auto
qed

text \<open>C2: A step never lowers the current epoch, the last justified epoch or the last finalized epoch: what is
  final stays final.\<close>

theorem finality_never_reverted:
  assumes "fin_reachable Hash160 IsFullyValid p st" "(fin_step Hash160 p)\<^sup>*\<^sup>* st st'"
  shows "m_last_finalized_epoch st \<le> m_last_finalized_epoch st' \<and> m_last_justified_epoch st \<le> m_last_justified_epoch st' \<and>
    m_current_epoch st \<le> m_current_epoch st'"
  using assms fin_reachable_ok fin_final.never_decreases fin_just.never_decreases fin_epoch.never_decreases by blast

theorem finality_never_reverted_witness:
  "\<exists>st st'. fin_reachable (\<lambda>_. 0) (\<lambda>_. True) demo_params st \<and> ProcessVote demo_vote st = Some st' \<and>
     m_last_finalized_epoch st \<le> m_last_finalized_epoch st' \<and> m_last_finalized_epoch st' = 3"
proof -
  obtain st where st: "demo_epoch4 = Some st" "ValidateVote st demo_vote = SUCCESS" "ProcessVote demo_vote st = Some demo_state"
    using demo_steps by blast
  have "m_last_finalized_epoch demo_state = 3" unfolding demo_state_def by code_simp
  moreover have "(fin_step (\<lambda>_. 0) demo_params)\<^sup>*\<^sup>* st demo_state"
    using fin_step.vote [OF st(2,3)] by blast
  ultimately show ?thesis
    using finality_never_reverted [OF demo_epoch4_reachable [OF st(1)]] demo_epoch4_reachable [OF st(1)] st(3) by blast
qed

subsection \<open>Checkpoints\<close>

text \<open>C3: The finalization state implements the abstract finality gadget: every step is a sequence of steps of the
  gadget on the flags of the checkpoints and the three epochs.\<close>

theorem finalization_refines_gadget:
  assumes "fin_reachable Hash160 IsFullyValid p st" "fin_step Hash160 p st st'"
  shows "gadget_step\<^sup>*\<^sup>* (gadget_of st) (gadget_of st')"
  using fin_step_gadget [OF fin_reachable_ok [OF assms(1)] assms(2)] .

theorem finalization_refines_gadget_witness:
  "\<exists>st. fin_step (\<lambda>_. 0) demo_params st demo_state \<and> gadget_step\<^sup>*\<^sup>* (gadget_of st) (gadget_of demo_state) \<and> g_final (gadget_of demo_state) = 3"
proof -
  obtain st where st: "demo_epoch4 = Some st" "ValidateVote st demo_vote = SUCCESS" "ProcessVote demo_vote st = Some demo_state"
    using demo_steps by blast
  have "g_final (gadget_of demo_state) = 3" unfolding gadget_of_def demo_state_def Gadget.select_convs by code_simp
  moreover have "fin_step (\<lambda>_. 0) demo_params st demo_state" using st(2,3) by (rule fin_step.vote)
  ultimately show ?thesis using finalization_refines_gadget [OF demo_epoch4_reachable [OF st(1)]] by blast
qed

text \<open>C5: In every reachable state the last finalized epoch is at most the last justified one, which is before the
  current one; both checkpoints exist and carry their flags; no checkpoint after them does; every checkpoint from the
  last finalized one to the current one exists, and so do the scale factor and the total of slashed deposits of every
  epoch so far.\<close>

theorem reachable_checkpoints:
  assumes "fin_reachable Hash160 IsFullyValid p st"
  shows "m_last_finalized_epoch st \<le> m_last_justified_epoch st \<and>
    unat (m_last_justified_epoch st) \<le> unat (m_current_epoch st) - 1 \<and>
    cp_flags (m_checkpoints st) (m_last_finalized_epoch st) = Some (True, True) \<and>
    (\<exists>f. cp_flags (m_checkpoints st) (m_last_justified_epoch st) = Some (True, f)) \<and>
    (\<forall>e f. cp_flags (m_checkpoints st) e = Some (True, f) \<longrightarrow> e \<le> m_last_justified_epoch st) \<and>
    (\<forall>e j. cp_flags (m_checkpoints st) e = Some (j, True) \<longrightarrow> j \<and> e \<le> m_last_finalized_epoch st) \<and>
    (\<forall>e. m_last_finalized_epoch st \<le> e \<and> e \<le> m_current_epoch st \<longrightarrow> fmlookup (m_checkpoints st) e \<noteq> None) \<and>
    (\<forall>e. e \<le> m_current_epoch st \<longrightarrow> fmlookup (m_deposit_scale_factor st) e \<noteq> None \<and> fmlookup (m_total_slashed st) e \<noteq> None)"
proof -
  have ok: "chain_ok st" using assms by (rule fin_reachable_inv)
  have g: "gadget_ok (gadget_of st)" "history_ok st" using ok by (simp_all add: chain_ok_def)
  have "j \<and> e \<le> m_last_finalized_epoch st" if "cp_flags (m_checkpoints st) e = Some (j, True)" for e j
    using g(1) that by (cases j) (auto simp: gadget_ok_def gadget_of_def)
  then show ?thesis
    using g by (auto simp: gadget_ok_def gadget_of_def g_justified_def history_ok_def)
qed

theorem reachable_checkpoints_witness:
  "m_last_finalized_epoch demo_state = 3 \<and> cp_flags (m_checkpoints demo_state) 3 = Some (True, True) \<and>
   fmlookup (m_checkpoints demo_state) 4 \<noteq> None"
proof -
  have "m_last_finalized_epoch demo_state = 3" "m_current_epoch demo_state = 4" unfolding demo_state_def by code_simp+
  then show ?thesis using reachable_checkpoints [OF demo_state_reachable] by auto
qed

subsection \<open>Votes\<close>

text \<open>C4: A validated vote justifies a checkpoint only if it is the one before the current epoch, the source of the
  vote is justified, and in both dynasties the votes counted for that source reach two thirds of the total deposits,
  rounded down; the checkpoint is finalized as well exactly when it directly follows the source.\<close>

theorem justification_threshold:
  assumes reach: "fin_reachable Hash160 IsFullyValid p st" and val: "ValidateVote st vote = SUCCESS"
    and run: "ProcessVote vote st = Some st'"
    and new: "cp_flags (m_checkpoints st') e = Some (True, f)" and old: "\<forall>f. cp_flags (m_checkpoints st) e \<noteq> Some (True, f)"
  shows "e = m_target_epoch vote \<and> e = m_current_epoch st - 1 \<and> (f \<longleftrightarrow> e = m_source_epoch vote + 1) \<and>
    (\<exists>f'. cp_flags (m_checkpoints st) (m_source_epoch vote) = Some (True, f')) \<and>
    (\<exists>cp. fmlookup (m_checkpoints st') e = Some cp \<and>
      unat (m_cur_dyn_deposits st' * 2) div 3 \<le> unat (lookup0 (m_cur_dynasty_votes cp) (m_source_epoch vote)) \<and>
      unat (m_prev_dyn_deposits st' * 2) div 3 \<le> unat (lookup0 (m_prev_dynasty_votes cp) (m_source_epoch vote)))"
proof -
  have ok: "chain_ok st" using reach by (rule fin_reachable_inv)
  obtain v cp f' where cp: "fmlookup (m_checkpoints st) (m_target_epoch vote) = Some cp" and t: "m_target_epoch vote = m_current_epoch st - 1"
    and s: "cp_flags (m_checkpoints st) (m_source_epoch vote) = Some (True, f')"
    and eff: "ProcessVote vote st = Some (if vote_carries vote v cp st then carried_state vote v cp st else counted_state vote v cp st)"
    using val ok by (rule ProcessVote_effect)
  have carried: "vote_carries vote v cp st" "st' = carried_state vote v cp st"
    using new old eff run counted_state_chain(2) [OF cp, of v] by (auto split: if_splits)
  then have "\<not> m_is_justified cp" by (simp add: vote_carries_def)
  moreover from this have "\<not> m_is_finalized cp"
    using ok cp by (auto simp: chain_ok_def gadget_ok_def gadget_of_def cp_flags_def)
  moreover have e: "e = m_target_epoch vote"
    using new old counted_state_chain(2) [OF cp, of v] by (auto simp: carried(2) carried_state_def Let_def split: if_splits)
  ultimately have "f \<longleftrightarrow> e = m_source_epoch vote + 1"
    using new by (auto simp: carried(2) carried_state_def Let_def vote_finalizes_def)
  moreover have "fmlookup (m_checkpoints st') e = Some ((voted_checkpoint vote v st cp)\<lparr>m_is_justified := True,
      m_is_finalized := m_is_finalized cp \<or> vote_finalizes vote\<rparr>)"
    by (simp add: carried(2) carried_state_def Let_def e)
  moreover have "m_cur_dyn_deposits st' = m_cur_dyn_deposits (counted_state vote v cp st)"
    "m_prev_dyn_deposits st' = m_prev_dyn_deposits (counted_state vote v cp st)"
    by (simp_all add: carried(2) carried_state_def Let_def)
  ultimately show ?thesis
    using carried(1) e t s by (auto simp: vote_carries_def enough_votes_def)
qed

theorem justification_threshold_witness:
  "\<exists>cp. fmlookup (m_checkpoints demo_state) 3 = Some cp \<and>
     unat (m_cur_dyn_deposits demo_state * 2) div 3 \<le> unat (lookup0 (m_cur_dynasty_votes cp) 2)"
proof -
  obtain st where st: "demo_epoch4 = Some st" "ValidateVote st demo_vote = SUCCESS" "ProcessVote demo_vote st = Some demo_state"
    using demo_steps by blast
  have new: "cp_flags (m_checkpoints demo_state) 3 = Some (True, True)" unfolding demo_state_def by code_simp
  have "map_option (\<lambda>st. cp_flags (m_checkpoints st) 3) demo_epoch4 = Some (Some (False, False))" by code_simp
  then have old: "\<forall>f. cp_flags (m_checkpoints st) 3 \<noteq> Some (True, f)" unfolding st(1) by simp
  have "m_source_epoch demo_vote = 2" by (simp add: demo_vote_def)
  then show ?thesis
    using justification_threshold [OF demo_epoch4_reachable [OF st(1)] st(2,3) new old] by metis
qed



text \<open>C23: No vote is counted twice: once a vote of a validator is processed, every further vote of that validator for
  the same target is refused as already cast.\<close>

theorem vote_once:
  assumes reach: "fin_reachable Hash160 IsFullyValid p st" and val: "ValidateVote st vote = SUCCESS"
    and run: "ProcessVote vote st = Some st'"
    and again: "v_validator_address vote2 = v_validator_address vote" "m_target_epoch vote2 = m_target_epoch vote"
  shows "ValidateVote st' vote2 = VOTE_ALREADY_VOTED"
proof -
  note inv = fin_reachable_inv(2,3) [OF reach]
  obtain v cp where v: "fmlookup (m_validators st) (v_validator_address vote) = Some v"
    and cp: "fmlookup (m_checkpoints st) (m_target_epoch vote) = Some cp"
    and eff: "ProcessVote vote st = Some (if vote_carries vote v cp st then carried_state vote v cp st else counted_state vote v cp st)"
    using val inv(2) by (rule ProcessVote_effect)
  have addr: "m_validator_address v = v_validator_address vote"
    using fin_inv_validator [OF inv(1) v] by (simp add: validator_ok_def)
  have "\<exists>v'. fmlookup (m_validators (counted_state vote v cp st)) (v_validator_address vote) = Some v' \<and>
      m_validator_address v' = v_validator_address vote"
    using v addr by (simp add: counted_state_def voted_state_def reward_state_def set_checkpoint_def)
  then obtain v' where v': "fmlookup (m_validators st') (v_validator_address vote) = Some v'" "m_validator_address v' = v_validator_address vote"
    using eff run by (auto simp: carried_state_def Let_def split: if_splits)
  have admin: "m_admin_state st' = m_admin_state st"
    using eff run by (auto simp: carried_state_def counted_state_def voted_state_def reward_state_def set_checkpoint_def Let_def split: if_splits)
  have auth: "IsValidatorAuthorized (m_admin_state st) (v_validator_address vote)"
    using val by (simp add: ValidateVote_def split: if_splits)
  obtain cp' where "fmlookup (m_checkpoints st') (m_target_epoch vote) = Some cp'" "v_validator_address vote |\<in>| m_vote_set cp'"
    using eff run counted_state_chain(3) [OF cp, of v] by (auto simp: carried_state_def Let_def split: if_splits)
  then show ?thesis using v' admin auth again by (simp add: ValidateVote_def IsVotable_def)
qed

theorem vote_once_witness: "ValidateVote demo_state demo_vote = VOTE_ALREADY_VOTED"
proof -
  obtain st where st: "demo_epoch4 = Some st" "ValidateVote st demo_vote = SUCCESS" "ProcessVote demo_vote st = Some demo_state"
    using demo_steps by blast
  show ?thesis using vote_once [OF demo_epoch4_reachable [OF st(1)] st(2,3)] by simp
qed

text \<open>C24: A validator that follows the recommendation can always vote: in an epoch whose target is the checkpoint
  before it, the vote the state recommends to an authorized, active validator that has not voted is accepted.\<close>

theorem recommended_vote_accepted:
  assumes reach: "fin_reachable Hash160 IsFullyValid p st" and now: "m_recommended_target_epoch st = m_current_epoch st - 1" "m_current_epoch st \<noteq> 0"
    and v: "fmlookup (m_validators st) a = Some v" "IsValidatorAuthorized (m_admin_state st) a" "IsFinalizerVoting st v"
    and first: "fmlookup (m_checkpoints st) (m_current_epoch st - 1) = Some cp" "a |\<notin>| m_vote_set cp"
  shows "ValidateVote st (GetRecommendedVote st a) = SUCCESS"
proof -
  note inv = fin_reachable_inv(2,5) [OF reach]
  have "m_validator_address v = a" using fin_inv_validator [OF inv(1) v(1)] by (simp add: validator_ok_def)
  then show ?thesis
    using inv(2) now v first by (auto simp: ValidateVote_def IsVotable_def GetRecommendedVote_def source_ok_def cp_flags_def)
qed

theorem recommended_vote_accepted_witness:
  "\<exists>st. demo_epoch4 = Some st \<and> ValidateVote st (GetRecommendedVote st 7) = SUCCESS"
proof -
  obtain st where st: "demo_epoch4 = Some st" using demo_steps by blast
  have "map_option (\<lambda>st. m_recommended_target_epoch st = m_current_epoch st - 1 \<and> m_current_epoch st \<noteq> 0 \<and>
      IsValidatorAuthorized (m_admin_state st) 7 \<and>
      (case fmlookup (m_validators st) 7 of None \<Rightarrow> False | Some v \<Rightarrow> IsFinalizerVoting st v) \<and>
      (case fmlookup (m_checkpoints st) (m_current_epoch st - 1) of None \<Rightarrow> False | Some cp \<Rightarrow> 7 |\<notin>| m_vote_set cp)) demo_epoch4 = Some True"
    by code_simp
  then have ready: "m_recommended_target_epoch st = m_current_epoch st - 1" "m_current_epoch st \<noteq> 0"
      "IsValidatorAuthorized (m_admin_state st) 7"
      "case fmlookup (m_validators st) 7 of None \<Rightarrow> False | Some v \<Rightarrow> IsFinalizerVoting st v"
      "case fmlookup (m_checkpoints st) (m_current_epoch st - 1) of None \<Rightarrow> False | Some cp \<Rightarrow> 7 |\<notin>| m_vote_set cp"
    unfolding st by simp_all
  then obtain v cp where "fmlookup (m_validators st) 7 = Some v" "IsFinalizerVoting st v"
      "fmlookup (m_checkpoints st) (m_current_epoch st - 1) = Some cp" "7 |\<notin>| m_vote_set cp" by (auto split: option.splits)
  then show ?thesis
    using recommended_vote_accepted [OF demo_epoch4_reachable [OF st] ready(1,2)] ready(3) st by blast
qed

end
