(* ===== verification/NumberProps.thy ===== *)
theory NumberProps
  imports Ufp64
begin

section \<open>Properties of the number types\<close>

text \<open>What the limb arithmetic of \<^verbatim>\<open>arith_uint256\<close> and the fixed point numbers of \<^verbatim>\<open>ufp64\<close> compute.\<close>

text \<open>C31: The limb operations are arithmetic on 256 bit numbers: sum and product modulo \<open>2 ^ 256\<close>, difference and
  quotient exact; a quotient by zero is the only one that is not returned.\<close>

theorem limb_arithmetic:
  assumes "length a = WIDTH" "length b = WIDTH"
  shows "valu (op_add a b) = (valu a + valu b) mod 2 ^ 256 \<and> valu (op_mul a b) = (valu a * valu b) mod 2 ^ 256 \<and>
    (valu b \<le> valu a \<longrightarrow> valu (op_sub a b) = valu a - valu b) \<and>
    (if valu b = 0 then op_div a b = None else \<exists>q. op_div a b = Some q \<and> length q = WIDTH \<and> valu q = valu a div valu b)"
proof -
  have "valu (op_add a b) = (valu a + valu b) mod 2 ^ 256" using assms by (rule au.num_plus)
  moreover have "valu (op_mul a b) = (valu a * valu b) mod 2 ^ 256" using assms by (rule valu_mul)
  moreover have "valu b \<le> valu a \<longrightarrow> valu (op_sub a b) = valu a - valu b" using assms valu_sub_le by blast
  moreover have "if valu b = 0 then op_div a b = None else \<exists>q. op_div a b = Some q \<and> length q = WIDTH \<and> valu q = valu a div valu b"
    using au.divide_zero [of a b] op_div_total [of a b] assms by simp
  ultimately show ?thesis by blast
qed

theorem limb_arithmetic_witness:
  "\<exists>q. op_div (of_u64 7) (of_u64 2) = Some q \<and> length q = WIDTH \<and> valu q = 3"
proof -
  have "length (of_u64 7) = WIDTH" "length (of_u64 2) = WIDTH" "valu (of_u64 7) = 7" "valu (of_u64 2) = 2"
    by (simp_all add: length_of_u64 valu_of_u64)
  then show ?thesis using limb_arithmetic [of "of_u64 7" "of_u64 2"] by simp
qed

text \<open>C33: A 256 bit number survives the compact format of difficulty targets up to the precision of the mantissa:
  encoding always succeeds, decoding raises neither flag, and the result is at most the number and smaller by at most
  one part in \<open>2 ^ 15\<close>.\<close>

theorem compact_roundtrip:
  assumes "length a = WIDTH"
  shows "\<exists>c r. GetCompact a False = Some c \<and> SetCompact c = (r, False, False) \<and>
    length r = WIDTH \<and> valu r \<le> valu a \<and> (valu a - valu r) * 2 ^ 15 \<le> valu a"
  using assms by (rule compact_roundtrip_error)

theorem compact_roundtrip_witness:
  "\<exists>c r. GetCompact (of_u64 0x123456789A) False = Some c \<and> SetCompact c = (r, False, False) \<and>
    (0x123456789A - valu r) * 2 ^ 15 \<le> 0x123456789A"
proof -
  have "valu (of_u64 0x123456789A) = 0x123456789A" by (simp add: valu_of_u64)
  then show ?thesis using compact_roundtrip [of "of_u64 0x123456789A"] by (auto simp: length_of_u64)
qed

text \<open>C34: The fixed point square root of a positive integer is at least the integer square root of the scaled
  argument, and exceeds it by at most one and the residue of the sixty Newton steps.\<close>

theorem sqrt_uint_accuracy:
  assumes "x \<noteq> 0" "R\<^sup>2 \<le> unat x * 10 ^ 16" "unat x * 10 ^ 16 < (R + 1)\<^sup>2"
  shows "\<exists>r. sqrt_uint x = Some r \<and> R \<le> unat r \<and> unat r \<le> R + 1 + unat x * 10 ^ 16 div 2 ^ 61"
  using assms by (rule sqrt_uint_bounds)

theorem sqrt_uint_accuracy_witness:
  "\<exists>r. sqrt_uint 4 = Some r \<and> 200000000 \<le> unat r \<and> unat r \<le> 200000001"
proof -
  have "\<exists>r. sqrt_uint 4 = Some r \<and> 200000000 \<le> unat r \<and> unat r \<le> 200000000 + 1 + unat (4 :: u64) * 10 ^ 16 div 2 ^ 61"
    by (rule sqrt_uint_accuracy) simp_all
  then show ?thesis by simp
qed

text \<open>C35: The fixed point operations used for stake compute exact quotients reduced to 64 bits: multiplying by a
  fraction, and dividing by one, round down; only a zero divisor fails.\<close>

theorem fixed_point_exact:
  "mul_to_uint x y = Some (of_nat (unat x * unat y div 10 ^ 8)) \<and> ufp_mul x y = Some (of_nat (unat x * unat y div 10 ^ 8)) \<and>
   div_to_uint x y = (if y = 0 then None else Some (of_nat (unat x * 10 ^ 8 div unat y))) \<and>
   ufp_div x y = (if y = 0 then None else Some (of_nat (unat x * 10 ^ 8 div unat y)))"
proof -
  have "SCALE = 10 ^ 8" by (simp add: SCALE_def)
  then show ?thesis by (simp only: ufp_spec conj_assoc simp_thms)
qed

text \<open>\<^verbatim>\<open>add_uint\<close> adds an integer to a fixed point number only while the integer is below 43: its product with
  the scale is taken in 32 bits and wraps.\<close>

theorem add_uint_wraps:
  "unat (add_uint ufp x - ufp) = unat x * 10 ^ 8 mod 2 ^ 32"
proof -
  have "unat (ucast (x * of_nat SCALE :: u32) :: u64) = unat x * 10 ^ 8 mod 2 ^ 32"
    by (simp add: unat_ucast_u32_u64 unat_word_ariths(2) SCALE_def)
  then show ?thesis by (simp add: add_uint_def)
qed

end
