(* ===== verification/CodecProps.thy ===== *)
theory CodecProps
  imports FinalizationParams Solver
begin

section \<open>Properties of scripts, votes, commands and epochs\<close>

text \<open>Round trips of the encodings that finalization relies on, and what their decoders let through.\<close>

subsection \<open>Scripts and votes\<close>

text \<open>The script encoding of a number is read back as the same number, for every 64 bit integer.\<close>

theorem script_number_roundtrip: "set_vch (serialize v) = Some v"
  by (rule set_vch_serialize)

text \<open>C36: A vote and its signature, encoded into the input script of a vote transaction, are read back unchanged.\<close>

theorem vote_signature_roundtrip:
  assumes "sig \<noteq> []" "length sig + 105 < 2 ^ 32" "length txsig < 2 ^ 32" "EncodeVote v sig = Some s"
  shows "ExtractVoteFromVoteSignature (push_data txsig @ push_data s @ rest) = Some (Some (v, sig))"
proof -
  have s: "length s < 2 ^ 32" using length_EncodeVote [OF assms(4)] assms(2) by simp
  have "DecodeVote s = Some (Some (v, sig))"
    using DecodeVote_EncodeVote [OF assms(1), of v] assms(2,4) by simp
  then show ?thesis
    using read_push_push_data [OF assms(3), of "push_data s @ rest"] read_push_push_data [OF s, of rest]
    by (simp add: ExtractVoteFromVoteSignature_def)
qed

definition demo_codec_vote :: Vote where
  "demo_codec_vote = \<lparr>v_validator_address = 7, m_target_hash = 99, m_source_epoch = 2, m_target_epoch = 3\<rparr>"

theorem vote_signature_roundtrip_witness:
  "\<exists>s. EncodeVote demo_codec_vote [1, 2] = Some s \<and>
     ExtractVoteFromVoteSignature (push_data [5] @ push_data s @ []) = Some (Some (demo_codec_vote, [1, 2]))"
proof -
  obtain s where s: "EncodeVote demo_codec_vote [1, 2] = Some s" by (auto simp: EncodeVote_def require_def)
  then show ?thesis using vote_signature_roundtrip [OF _ _ _ s, of "[5]" "[]"] by simp
qed

text \<open>C37: The two votes of a slash transaction are read back unchanged from its input script.\<close>

theorem slash_signature_roundtrip:
  assumes "sig1 \<noteq> []" "length sig1 + 105 < 2 ^ 32" "EncodeVote v1 sig1 = Some s1"
    and "sig2 \<noteq> []" "length sig2 + 105 < 2 ^ 32" "EncodeVote v2 sig2 = Some s2"
  shows "ExtractVotesFromSlashSignature (push_data s1 @ push_data s2 @ rest) = Some (Some ((v1, sig1), (v2, sig2)))"
proof -
  have s: "length s1 < 2 ^ 32" "length s2 < 2 ^ 32"
    using length_EncodeVote [OF assms(3)] length_EncodeVote [OF assms(6)] assms(2,5) by simp_all
  have "DecodeVote s1 = Some (Some (v1, sig1))" "DecodeVote s2 = Some (Some (v2, sig2))"
    using DecodeVote_EncodeVote [OF assms(1), of v1] DecodeVote_EncodeVote [OF assms(4), of v2] assms by simp_all
  then show ?thesis
    using read_push_push_data [OF s(1), of "push_data s2 @ rest"] read_push_push_data [OF s(2), of rest]
    by (simp add: ExtractVotesFromSlashSignature_def)
qed

theorem slash_signature_roundtrip_witness:
  "\<exists>s. EncodeVote demo_codec_vote [1, 2] = Some s \<and>
     ExtractVotesFromSlashSignature (push_data s @ push_data s @ []) = Some (Some ((demo_codec_vote, [1, 2]), (demo_codec_vote, [1, 2])))"
proof -
  obtain s where s: "EncodeVote demo_codec_vote [1, 2] = Some s" by (auto simp: EncodeVote_def require_def)
  then show ?thesis using slash_signature_roundtrip [of "[1, 2]" demo_codec_vote s "[1, 2]" demo_codec_vote s "[]"] by simp
qed

text \<open>C38: The script a finalizer locks its deposit with is recognized as such, and the address read from the
  deposit is the hash of the key it was made for.\<close>

theorem commit_script_address:
  assumes "length k = 33" "pubkey_IsCompressed k" "CreateFinalizerCommitScript Hash160 k = Some s"
    and "GetType tx = Some DEPOSIT" "vout tx = out # outs" "scriptPubKey out = s"
  shows "Solver s = Some (True, TX_COMMIT, [k]) \<and> ExtractValidatorAddress Hash160 tx = Some (Some (Hash160 k))"
proof -
  have "IsFinalizerCommitScript s" "take 33 (drop 1 s) = k"
    using CreateFinalizerCommitScript_matches [OF assms(1,2), of Hash160] assms(3) by auto
  then have sol: "Solver s = Some (True, TX_COMMIT, [k])" using Solver_commit by blast
  moreover have "ValidSize k" using assms(1,2) by (auto simp: ValidSize_def pubkey_IsCompressed_def pubkey_size_def)
  ultimately show ?thesis
    using assms(4-6) by (simp add: ExtractValidatorAddress_def GetID_CPubKey_of require_def)
qed

definition demo_deposit_tx :: "bytes \<Rightarrow> CTransaction" where
  "demo_deposit_tx s = \<lparr>vin = [], vout = [\<lparr>nValue = 1, scriptPubKey = s\<rparr>], nVersion = 0x20001, nLockTime = 0, tx_hash = 0\<rparr>"

theorem commit_script_address_witness:
  "\<exists>s. CreateFinalizerCommitScript (\<lambda>_. 7) (2 # replicate 32 9) = Some s \<and>
     ExtractValidatorAddress (\<lambda>_. 7) (demo_deposit_tx s) = Some (Some 7)"
proof -
  have k: "length (2 # replicate 32 (9 :: u8)) = 33" "pubkey_IsCompressed (2 # replicate 32 9)"
    by (simp_all add: pubkey_IsCompressed_def pubkey_size_def GetLen_def)
  obtain s where s: "CreateFinalizerCommitScript (\<lambda>_. 7) (2 # replicate 32 9) = Some s"
    using CreateFinalizerCommitScript_matches [OF k] by blast
  have "GetType (demo_deposit_tx s) = Some DEPOSIT" unfolding demo_deposit_tx_def by code_simp
  then have "ExtractValidatorAddress (\<lambda>_. 7) (demo_deposit_tx s) = Some (Some 7)"
    using commit_script_address [OF k s, of "demo_deposit_tx s"] by (simp add: demo_deposit_tx_def)
  then show ?thesis using s by blast
qed

text \<open>The output type \<^verbatim>\<open>TX_COMMIT\<close> is given exactly to finalizer commit scripts, and \<^verbatim>\<open>Solver\<close> always returns.\<close>

theorem solver_commit_iff:
  "Solver s \<noteq> None \<and> ((\<exists>ok v. Solver s = Some (ok, TX_COMMIT, v)) \<longleftrightarrow> IsFinalizerCommitScript s)"
  using Solver_defined Solver_commit Solver_TX_COMMIT by blast

subsection \<open>Administration commands\<close>

text \<open>C39: A valid administration command with compressed keys is read back unchanged from its output script.\<close>

theorem admin_command_roundtrip:
  assumes "AdminCommand_IsValid c" "list_all (\<lambda>k. length k = 33) (m_payload c)" "length (m_payload c) \<le> MAX_SIZE"
  shows "Option.bind (EncodeAdminCommand c) DecodeAdminCommand = Some c"
  using assms by (rule DecodeAdminCommand_EncodeAdminCommand)

theorem admin_command_roundtrip_witness:
  "Option.bind (EncodeAdminCommand \<lparr>m_command_type = ADD_TO_WHITELIST, m_payload = [2 # replicate 32 9]\<rparr>) DecodeAdminCommand =
     Some \<lparr>m_command_type = ADD_TO_WHITELIST, m_payload = [2 # replicate 32 9]\<rparr>"
  by (rule admin_command_roundtrip)
    (simp_all add: AdminCommand_IsValid_def pubkey_IsValid_def pubkey_IsCompressed_def pubkey_size_def GetLen_def MAX_SIZE_def)



text \<open>A command can carry a key whose bytes are not all there: it is decoded as valid, and the identifier of its
  key reads bytes that were never written.\<close>

theorem admin_short_key_accepted:
  "\<exists>script c k. DecodeAdminCommand script = Some c \<and> AdminCommand_IsValid c \<and> m_payload c = [k] \<and> GetID Hash160 k = None"
proof -
  define c where "c = \<lparr>m_command_type = ADD_TO_WHITELIST, m_payload = [[2 :: u8]]\<rparr>"
  have one: "ReadCompactSize (1 # r) = Some (Suc 0, r)" for r
    using ReadCompactSize_WriteCompactSize [of "Suc 0" r] by (simp add: WriteCompactSize_def MAX_SIZE_def)
  have "AdminCommand_Unserialize [0, 1, 1, 2] = Some (c, [])"
    by (simp add: AdminCommand_Unserialize_def stream_read_def command_of_code_def pubkey_Unserialize_def one c_def CPubKey_invalid_def)
  moreover have valid: "AdminCommand_IsValid c"
    by (simp add: c_def AdminCommand_IsValid_def pubkey_IsValid_def pubkey_IsCompressed_def pubkey_size_def GetLen_def)
  ultimately have "DecodeAdminCommand ([OP_RETURN] @ push_data [0, 1, 1, 2]) = Some c"
    using DecodeAdminCommand_push [of "[0, 1, 1, 2]"] by simp
  moreover have "GetID Hash160 [2] = None"
    by (simp add: GetID_def pubkey_data_def pubkey_size_def GetLen_def)
  moreover have "m_payload c = [[2]]" by (simp add: c_def)
  ultimately show ?thesis using valid by blast
qed

subsection \<open>Transactions and epochs\<close>

text \<open>The total of the outputs of a transaction is returned only when every output and every partial sum is in
  the range of money, and then it is the sum of the outputs.\<close>

theorem value_out_sum:
  assumes "GetValueOut tx = Some v"
  shows "MoneyRange v \<and> list_all (\<lambda>x. MoneyRange (nValue x)) (vout tx) \<and> sint v = (\<Sum>x\<leftarrow>vout tx. sint (nValue x))"
  using GetValueOut_loop_range [of 0 "vout tx" v] assms by (simp add: GetValueOut_def MoneyRange_def sint_MAX_MONEY)

theorem value_out_sum_witness: "\<exists>v. GetValueOut (demo_deposit_tx []) = Some v \<and> sint v = 1"
proof -
  have "GetValueOut (demo_deposit_tx []) = Some 1"
    by (simp add: demo_deposit_tx_def GetValueOut_def MoneyRange_def sint_MAX_MONEY)
  then show ?thesis using value_out_sum [of "demo_deposit_tx []" 1] by (auto simp: demo_deposit_tx_def)
qed

text \<open>The epochs partition the heights: with a positive epoch length, a height is in epoch \<open>e\<close> exactly when it
  lies between the start and the checkpoint of the epoch.\<close>

theorem epoch_heights:
  assumes "epoch_length p \<noteq> 0" "e \<noteq> 0" "unat e * unat (epoch_length p) < 2 ^ 32"
  shows "GetEpoch p h = e \<longleftrightarrow> GetEpochStartHeight p e \<le> h \<and> h \<le> GetEpochCheckpointHeight p e"
  using assms by (rule GetEpoch_eq_iff)

definition demo_epochs :: Params where
  "demo_epochs = \<lparr>epoch_length = 5, min_deposit_size = 0, dynasty_logout_delay = 2, withdrawal_epoch_delay = 5,
     slash_fraction_multiplier = 3, bounty_fraction_denominator = 25, base_interest_factor = 0, base_penalty_factor = 0,
     admin_params = \<lparr>admin_keys = None, white_list = []\<rparr>\<rparr>"

theorem epoch_heights_witness: "GetEpochStartHeight demo_epochs 2 \<le> 7 \<and> 7 \<le> GetEpochCheckpointHeight demo_epochs 2"
proof -
  have "GetEpoch demo_epochs 7 = 2" by code_simp
  moreover have "epoch_length demo_epochs \<noteq> 0" "unat (2 :: u32) * unat (epoch_length demo_epochs) < 2 ^ 32"
    by (simp_all add: demo_epochs_def)
  ultimately show ?thesis using epoch_heights [of demo_epochs 2 7] by simp
qed

end
