(* ===== verification/Checks.thy ===== *)
theory Checks
  imports FinalizationState
begin

section \<open>Checks of finalizer commits\<close>

text \<open>
  \<^verbatim>\<open>esperanza/checks.cpp\<close> with \<^verbatim>\<open>CValidationState\<close> of \<^verbatim>\<open>consensus/validation.h\<close>. A check either accepts, and
  hands out what it extracted, or refuses and leaves its reason in the validation state; \<open>'a check\<close> is
  \<^const>\<open>None\<close> for an abnormal end, \<open>Inl\<close> the validation state of a refusal and \<open>Inr\<close> what an accepting check
  extracted. An accepting check does not touch the validation state. Arguments stand for the code outside:
  \<open>Hash160\<close>, \<open>VerifyVote\<close> (\<^verbatim>\<open>pubkey.Verify(vote.GetHash(), sig)\<close>), the transaction pool \<open>mempool\<close>
  (\<^verbatim>\<open>mempool.get\<close>) and the coins \<open>view\<close> (\<^verbatim>\<open>CCoinsView::GetCoin\<close>).
\<close>

datatype mode_state = MODE_VALID | MODE_INVALID | MODE_ERROR

record CValidationState =
  mode :: mode_state
  nDoS :: "32 word"
  strRejectReason :: string
  chRejectCode :: u32
  corruptionPossible :: bool
  strDebugMessage :: string

definition CValidationState_new :: CValidationState where
  "CValidationState_new = \<lparr>mode = MODE_VALID, nDoS = 0, strRejectReason = [], chRejectCode = 0, corruptionPossible = False,
     strDebugMessage = []\<rparr>"

definition ADMIN_MULTISIG_SIGNATURES :: nat where
  "ADMIN_MULTISIG_SIGNATURES = 2"

definition REJECT_INVALID :: u32 where
  "REJECT_INVALID = 0x10"

definition DoS :: "32 word \<Rightarrow> u32 \<Rightarrow> string \<Rightarrow> bool \<Rightarrow> string \<Rightarrow> CValidationState \<Rightarrow> CValidationState" where
  "DoS level code reason corruption debug s =
     (let s = s\<lparr>chRejectCode := code, strRejectReason := reason, corruptionPossible := corruption, strDebugMessage := debug\<rparr>
      in if mode s = MODE_ERROR then s else s\<lparr>nDoS := nDoS s + level, mode := MODE_INVALID\<rparr>)"

definition Invalid :: "u32 \<Rightarrow> string \<Rightarrow> string \<Rightarrow> CValidationState \<Rightarrow> CValidationState" where
  "Invalid code reason debug s = DoS 0 code reason False debug s"

definition Error :: "string \<Rightarrow> CValidationState \<Rightarrow> CValidationState" where
  "Error reason s = (if mode s = MODE_VALID then s\<lparr>strRejectReason := reason\<rparr> else s)\<lparr>mode := MODE_ERROR\<rparr>"

type_synonym 'a check = "(CValidationState + 'a) option"

definition accept :: "'a \<Rightarrow> 'a check" where
  "accept a = Some (Inr a)"

definition refuse :: "32 word \<Rightarrow> string \<Rightarrow> CValidationState \<Rightarrow> 'a check" where
  "refuse level reason s = Some (Inl (DoS level REJECT_INVALID reason False [] s))"

definition and_then :: "'a check \<Rightarrow> ('a \<Rightarrow> 'b check) \<Rightarrow> 'b check" where
  "and_then c f = (case c of None \<Rightarrow> None | Some (Inl s) \<Rightarrow> Some (Inl s) | Some (Inr a) \<Rightarrow> f a)"

record Coin =
  coin_out :: CTxOut
  coin_tx_type :: TxType
  coin_height :: u32

subsection \<open>Shared helpers\<close>

definition CheckValidatorAddress :: "(bytes \<Rightarrow> u160) \<Rightarrow> CTransaction \<Rightarrow> u160 option option" where
  "CheckValidatorAddress Hash160 tx = ExtractValidatorAddress Hash160 tx"

text \<open>The type of the transaction and the script of the output \<open>outpoint\<close>; an index past the outputs of a pooled
  transaction is a read past the end of the vector.\<close>

definition FindPrevOutData ::
  "(u256 \<Rightarrow> CTransaction option) \<Rightarrow> (COutPoint \<Rightarrow> Coin option) \<Rightarrow> COutPoint \<Rightarrow> (TxType \<times> bytes) option option" where
  "FindPrevOutData mempool view outpoint =
     (case mempool (out_hash outpoint) of
        Some prev_tx \<Rightarrow> do {
          t \<leftarrow> GetType prev_tx;
          require (unat (out_n outpoint) < length (vout prev_tx));
          Some (Some (t, scriptPubKey (vout prev_tx ! unat (out_n outpoint))))
        }
      | None \<Rightarrow>
         (case view outpoint of
            Some prev_coin \<Rightarrow> Some (Some (coin_tx_type prev_coin, scriptPubKey (coin_out prev_coin)))
          | None \<Rightarrow> Some None))"

text \<open>The three steps the checks of deposits, logouts and withdrawals share: the script of the first output is
  solvable and the address of the validator can be extracted.\<close>

definition check_solvable_address ::
  "(bytes \<Rightarrow> u160) \<Rightarrow> string \<Rightarrow> string \<Rightarrow> CTransaction \<Rightarrow> CValidationState \<Rightarrow> u160 check" where
  "check_solvable_address Hash160 unsolvable no_address tx s = do {
     (ok, _, _) \<leftarrow> Solver (scriptPubKey (vout tx ! 0));
     if \<not> ok then refuse 100 unsolvable s
     else do {
       a \<leftarrow> CheckValidatorAddress Hash160 tx;
       (case a of None \<Rightarrow> refuse 100 no_address s | Some a \<Rightarrow> accept a)
     }
   }"

subsection \<open>Deposit\<close>

definition CheckDepositTx :: "(bytes \<Rightarrow> u160) \<Rightarrow> CTransaction \<Rightarrow> CValidationState \<Rightarrow> u160 check" where
  "CheckDepositTx Hash160 tx s = do {
     t \<leftarrow> GetType tx;
     require (t = DEPOSIT);
     if vin tx = [] \<or> vout tx = [] then refuse 100 ''bad-deposit-malformed'' s
     else if \<not> IsFinalizerCommitScript (scriptPubKey (vout tx ! 0)) then refuse 100 ''bad-deposit-vout-script'' s
     else check_solvable_address Hash160 ''bad-deposit-script-not-solvable'' ''bad-deposit-cannot-extract-validator-address'' tx s
   }"

definition ContextualCheckDepositTx ::
  "(bytes \<Rightarrow> u160) \<Rightarrow> Params \<Rightarrow> FinState \<Rightarrow> CTransaction \<Rightarrow> CValidationState \<Rightarrow> unit check" where
  "ContextualCheckDepositTx Hash160 p fin_state tx s =
     and_then (CheckDepositTx Hash160 tx s) (\<lambda>validator_address.
       case ValidateDeposit p fin_state validator_address (nValue (vout tx ! 0)) of
         SUCCESS \<Rightarrow> accept ()
       | DEPOSIT_DUPLICATE \<Rightarrow> Some (Inl (Invalid REJECT_INVALID ''bad-deposit-duplicate'' [] s))
       | _ \<Rightarrow> refuse 100 ''bad-deposit-invalid'' s)"

subsection \<open>Logout\<close>

definition IsVoteExpired :: "CTransaction \<Rightarrow> FinState \<Rightarrow> bool option" where
  "IsVoteExpired tx fin_state = do {
     t \<leftarrow> GetType tx;
     require (t = VOTE);
     require (vin tx \<noteq> []);
     (vote, _) \<leftarrow> asserted (ExtractVoteFromVoteSignature (scriptSig (vin tx ! 0)));
     Some (m_target_epoch vote < m_current_epoch fin_state - 1)
   }"

definition CheckLogoutTx :: "(bytes \<Rightarrow> u160) \<Rightarrow> CTransaction \<Rightarrow> CValidationState \<Rightarrow> u160 check" where
  "CheckLogoutTx Hash160 tx s = do {
     t \<leftarrow> GetType tx;
     require (t = LOGOUT);
     if length (vin tx) \<noteq> 1 \<or> length (vout tx) \<noteq> 1 then refuse 100 ''bad-logout-malformed'' s
     else if \<not> IsFinalizerCommitScript (scriptPubKey (vout tx ! 0)) then refuse 100 ''bad-logout-vout-script'' s
     else check_solvable_address Hash160 ''bad-logout-script-not-solvable'' ''bad-logout-cannot-extract-validator-address'' tx s
   }"

definition ContextualCheckLogoutTx ::
  "(bytes \<Rightarrow> u160) \<Rightarrow> (u256 \<Rightarrow> CTransaction option) \<Rightarrow> Params \<Rightarrow> FinState \<Rightarrow> (COutPoint \<Rightarrow> Coin option) \<Rightarrow> CTransaction \<Rightarrow> CValidationState \<Rightarrow> unit check" where
  "ContextualCheckLogoutTx Hash160 mempool p fin_state view tx s =
     and_then (CheckLogoutTx Hash160 tx s) (\<lambda>validator_address.
       case ValidateLogout p fin_state validator_address of
         SUCCESS \<Rightarrow> do {
           prev \<leftarrow> FindPrevOutData mempool view (prevout (vin tx ! 0));
           (case prev of
              None \<Rightarrow> refuse 0 ''bad-logout-no-prev-tx-found'' s
            | Some (prev_tx_type, prev_out_script) \<Rightarrow>
                if prev_tx_type \<noteq> DEPOSIT \<and> prev_tx_type \<noteq> VOTE then refuse 100 ''bad-logout-prev-not-deposit-or-vote'' s
                else if prev_out_script \<noteq> scriptPubKey (vout tx ! 0) then refuse 100 ''bad-logout-not-same-finalizercommit-script'' s
                else accept ())
         }
       | LOGOUT_NOT_A_VALIDATOR \<Rightarrow> refuse 100 ''bad-logout-not-from-validator'' s
       | _ \<Rightarrow> refuse 0 ''bad-logout-invalid'' s)"

subsection \<open>Withdraw\<close>

text \<open>The number of outputs has no lower bound here; \<^verbatim>\<open>tx.vout[0]\<close> of a transaction without outputs is a read past
  the end.\<close>

definition CheckWithdrawTx :: "(bytes \<Rightarrow> u160) \<Rightarrow> CTransaction \<Rightarrow> CValidationState \<Rightarrow> u160 check" where
  "CheckWithdrawTx Hash160 tx s = do {
     t \<leftarrow> GetType tx;
     require (t = WITHDRAW);
     if length (vin tx) \<noteq> 1 \<or> length (vout tx) > 3 then refuse 100 ''bad-withdraw-malformed'' s
     else do {
       require (vout tx \<noteq> []);
       if \<not> IsPayToPublicKeyHash (scriptPubKey (vout tx ! 0)) then refuse 100 ''bad-withdraw-vout-script-invalid-p2pkh'' s
       else check_solvable_address Hash160 ''bad-withdraw-script-not-solvable'' ''bad-withdraw-cannot-extract-validator-address'' tx s
     }
   }"

definition ContextualCheckWithdrawTx ::
  "(bytes \<Rightarrow> u160) \<Rightarrow> (u256 \<Rightarrow> CTransaction option) \<Rightarrow> Params \<Rightarrow> FinState \<Rightarrow> (COutPoint \<Rightarrow> Coin option) \<Rightarrow> CTransaction \<Rightarrow> CValidationState \<Rightarrow> unit check" where
  "ContextualCheckWithdrawTx Hash160 mempool p fin_state view tx s =
     and_then (CheckWithdrawTx Hash160 tx s) (\<lambda>validator_address. do {
       prev \<leftarrow> FindPrevOutData mempool view (prevout (vin tx ! 0));
       (case prev of
          None \<Rightarrow> refuse 0 ''bad-withdraw-no-prev-tx-found'' s
        | Some (prev_tx_type, prev_out_script) \<Rightarrow>
            if prev_tx_type \<noteq> LOGOUT \<and> prev_tx_type \<noteq> VOTE then refuse 100 ''bad-withdraw-prev-not-logout-or-vote'' s
            else do {
              (ok, _, _) \<leftarrow> Solver prev_out_script;
              if \<not> ok then refuse 100 ''bad-withdraw-script-not-solvable'' s
              else do {
                res \<leftarrow> ValidateWithdraw p fin_state validator_address (nValue (vout tx ! 0));
                if res \<noteq> SUCCESS then refuse 100 ''bad-withdraw-invalid-state'' s else accept ()
              }
            })
     })"

subsection \<open>Vote\<close>

definition CheckVoteTx ::
  "(CPubKey \<Rightarrow> Vote \<Rightarrow> bytes \<Rightarrow> bool) \<Rightarrow> CTransaction \<Rightarrow> CValidationState \<Rightarrow> (Vote \<times> bytes) check" where
  "CheckVoteTx VerifyVote tx s = do {
     t \<leftarrow> GetType tx;
     require (t = VOTE);
     if length (vin tx) \<noteq> 1 \<or> length (vout tx) \<noteq> 1 then refuse 100 ''bad-vote-malformed'' s
     else if \<not> IsFinalizerCommitScript (scriptPubKey (vout tx ! 0)) then refuse 100 ''bad-vote-vout-script'' s
     else do {
       v \<leftarrow> ExtractVoteFromVoteSignature (scriptSig (vin tx ! 0));
       (case v of None \<Rightarrow> refuse 100 ''bad-vote-data-format'' s
        | Some (vote, vote_sig) \<Rightarrow> do {
            k \<leftarrow> ExtractValidatorPubkey tx;
            (case k of None \<Rightarrow> refuse 100 ''bad-scriptpubkey-pubkey-format'' s
             | Some pubkey \<Rightarrow>
                 if \<not> VerifyVote pubkey vote vote_sig then refuse 100 ''bad-vote-signature'' s
                 else accept (vote, vote_sig))
          })
     }
   }"

definition ContextualCheckVoteTx ::
  "(CPubKey \<Rightarrow> Vote \<Rightarrow> bytes \<Rightarrow> bool) \<Rightarrow> (u256 \<Rightarrow> CTransaction option) \<Rightarrow> FinState \<Rightarrow> (COutPoint \<Rightarrow> Coin option) \<Rightarrow> CTransaction \<Rightarrow> CValidationState \<Rightarrow> unit check" where
  "ContextualCheckVoteTx VerifyVote mempool fin_state view tx s =
     and_then (CheckVoteTx VerifyVote tx s) (\<lambda>(vote, vote_sig).
       case ValidateVote fin_state vote of
         SUCCESS \<Rightarrow> do {
           prev \<leftarrow> FindPrevOutData mempool view (prevout (vin tx ! 0));
           (case prev of
              None \<Rightarrow> refuse 0 ''bad-vote-no-prev-tx-found'' s
            | Some (prev_tx_type, prev_out_script) \<Rightarrow>
                if prev_tx_type \<noteq> DEPOSIT \<and> prev_tx_type \<noteq> VOTE \<and> prev_tx_type \<noteq> LOGOUT
                then refuse 100 ''bad-vote-prev-not-deposit-vote-or-logout'' s
                else if prev_out_script \<noteq> scriptPubKey (vout tx ! 0) then refuse 100 ''bad-vote-not-same-finalizercommit-script'' s
                else accept ())
         }
       | VOTE_NOT_BY_VALIDATOR \<Rightarrow> refuse 100 ''bad-vote-not-from-validator'' s
       | _ \<Rightarrow> refuse 0 ''bad-vote-invalid'' s)"

subsection \<open>Slash\<close>

definition CheckSlashTx :: "CTransaction \<Rightarrow> CValidationState \<Rightarrow> (Vote \<times> Vote) check" where
  "CheckSlashTx tx s = do {
     t \<leftarrow> GetType tx;
     require (t = SLASH);
     if length (vin tx) \<noteq> 1 \<or> length (vout tx) \<noteq> 1 then refuse 100 ''bad-slash-malformed'' s
     else do {
       v \<leftarrow> ExtractVotesFromSlashSignature (scriptSig (vin tx ! 0));
       (case v of None \<Rightarrow> refuse 100 ''bad-slash-data-format'' s
        | Some ((vote1, _), (vote2, _)) \<Rightarrow> accept (vote1, vote2))
     }
   }"

definition ContextualCheckSlashTx :: "FinState \<Rightarrow> CTransaction \<Rightarrow> CValidationState \<Rightarrow> unit check" where
  "ContextualCheckSlashTx fin_state tx s =
     and_then (CheckSlashTx tx s) (\<lambda>(vote1, vote2).
       case IsSlashable fin_state vote1 vote2 of
         SUCCESS \<Rightarrow> accept ()
       | SLASH_TOO_EARLY \<Rightarrow> refuse 0 ''bad-slash-not-slashable'' s
       | SLASH_ALREADY_SLASHED \<Rightarrow> refuse 0 ''bad-slash-not-slashable'' s
       | _ \<Rightarrow> refuse 100 ''bad-slash-not-slashable'' s)"

subsection \<open>Administration\<close>

text \<open>The loop over the outputs, with \<open>valid_commands\<close> and \<open>disable_permissioning\<close>.\<close>

fun CheckAdminTx_loop :: "CTxOut list \<Rightarrow> nat \<Rightarrow> bool \<Rightarrow> CValidationState \<Rightarrow> nat check" where
  "CheckAdminTx_loop [] valid_commands disable_permissioning s = accept valid_commands"
| "CheckAdminTx_loop (out # r) valid_commands disable_permissioning s =
     (if \<not> MatchAdminCommand (scriptPubKey out) then CheckAdminTx_loop r valid_commands disable_permissioning s
      else case DecodeAdminCommand (scriptPubKey out) of None \<Rightarrow> refuse 10 ''admin-invalid-command'' s
        | Some command \<Rightarrow>
            if disable_permissioning then refuse 10 ''admin-double-disable'' s
            else CheckAdminTx_loop r (valid_commands + 1) (m_command_type command = END_PERMISSIONING) s)"

definition CheckAdminTx :: "CTransaction \<Rightarrow> CValidationState \<Rightarrow> CPubKey list check" where
  "CheckAdminTx tx s = do {
     t \<leftarrow> GetType tx;
     require (t = ADMIN);
     if vin tx = [] then refuse 10 ''admin-vin-empty'' s
     else if vout tx = [] then refuse 10 ''admin-vout-empty'' s
     else and_then (CheckAdminTx_loop (vout tx) 0 False s) (\<lambda>valid_commands.
       if valid_commands = 0 then refuse 10 ''admin-no-commands'' s
       else let witness = scriptWitness (vin tx ! 0) in
         if length witness \<noteq> ADMIN_MULTISIG_SIGNATURES + 2 then refuse 10 ''admin-invalid-witness'' s
         else case ExtractAdminKeysFromWitness witness of None \<Rightarrow> refuse 10 ''admin-invalid-witness'' s
           | Some keys \<Rightarrow>
               if length keys \<noteq> ADMIN_MULTISIG_KEYS then refuse 10 ''admin-invalid-witness'' s else accept keys)
   }"

definition ContextualCheckAdminTx :: "FinState \<Rightarrow> CTransaction \<Rightarrow> CValidationState \<Rightarrow> unit check" where
  "ContextualCheckAdminTx fin_state tx s =
     (if \<not> IsPermissioningActive fin_state then refuse 10 ''admin-disabled'' s
      else and_then (CheckAdminTx tx s) (\<lambda>keys. do {
        result \<leftarrow> ValidateAdminKeys fin_state (take ADMIN_MULTISIG_KEYS keys);
        if result \<noteq> SUCCESS then refuse 10 ''admin-not-authorized'' s else accept ()
      }))"

subsection \<open>Any finalizer commit\<close>

definition CheckFinalizerCommit ::
  "(bytes \<Rightarrow> u160) \<Rightarrow> (CPubKey \<Rightarrow> Vote \<Rightarrow> bytes \<Rightarrow> bool) \<Rightarrow> CTransaction \<Rightarrow> CValidationState \<Rightarrow> unit check" where
  "CheckFinalizerCommit Hash160 VerifyVote tx s = do {
     t \<leftarrow> GetType tx;
     (case t of
        REGULAR \<Rightarrow> None
      | COINBASE \<Rightarrow> None
      | DEPOSIT \<Rightarrow> and_then (CheckDepositTx Hash160 tx s) (\<lambda>_. accept ())
      | VOTE \<Rightarrow> and_then (CheckVoteTx VerifyVote tx s) (\<lambda>_. accept ())
      | LOGOUT \<Rightarrow> and_then (CheckLogoutTx Hash160 tx s) (\<lambda>_. accept ())
      | SLASH \<Rightarrow> and_then (CheckSlashTx tx s) (\<lambda>_. accept ())
      | WITHDRAW \<Rightarrow> and_then (CheckWithdrawTx Hash160 tx s) (\<lambda>_. accept ())
      | ADMIN \<Rightarrow> and_then (CheckAdminTx tx s) (\<lambda>_. accept ()))
   }"

definition ContextualCheckFinalizerCommit ::
  "(bytes \<Rightarrow> u160) \<Rightarrow> (CPubKey \<Rightarrow> Vote \<Rightarrow> bytes \<Rightarrow> bool) \<Rightarrow> (u256 \<Rightarrow> CTransaction option) \<Rightarrow> Params \<Rightarrow> FinState \<Rightarrow>
   (COutPoint \<Rightarrow> Coin option) \<Rightarrow> CTransaction \<Rightarrow> CValidationState \<Rightarrow> unit check" where
  "ContextualCheckFinalizerCommit Hash160 VerifyVote mempool p fin_state view tx s = do {
     t \<leftarrow> GetType tx;
     (case t of
        REGULAR \<Rightarrow> None
      | COINBASE \<Rightarrow> None
      | DEPOSIT \<Rightarrow> ContextualCheckDepositTx Hash160 p fin_state tx s
      | VOTE \<Rightarrow> ContextualCheckVoteTx VerifyVote mempool fin_state view tx s
      | LOGOUT \<Rightarrow> ContextualCheckLogoutTx Hash160 mempool p fin_state view tx s
      | SLASH \<Rightarrow> ContextualCheckSlashTx fin_state tx s
      | WITHDRAW \<Rightarrow> ContextualCheckWithdrawTx Hash160 mempool p fin_state view tx s
      | ADMIN \<Rightarrow> ContextualCheckAdminTx fin_state tx s)
   }"

subsection \<open>What an accepted commit satisfies\<close>

named_theorems check_accepts \<open>when the combinators of checks accept\<close>

lemma accept_eq [check_accepts]: "accept a = Some (Inr b) \<longleftrightarrow> a = b"
  by (simp add: accept_def)

lemma refuse_eq [check_accepts]: "refuse level reason s \<noteq> Some (Inr b)"
  by (simp add: refuse_def)

lemma and_then_eq [check_accepts]: "and_then c f = Some (Inr b) \<longleftrightarrow> (\<exists>a. c = Some (Inr a) \<and> f a = Some (Inr b))"
  by (auto simp: and_then_def split: option.split sum.split)

lemmas check_splits = option.splits if_splits prod.splits

lemma check_solvable_address_accepts:
  "check_solvable_address Hash160 u n tx s = Some (Inr a) \<Longrightarrow> ExtractValidatorAddress Hash160 tx = Some (Some a)"
  by (auto simp: check_solvable_address_def CheckValidatorAddress_def check_accepts bind_eq_Some_conv split: check_splits)

lemma CheckDepositTx_accepts:
  assumes "CheckDepositTx Hash160 tx s = Some (Inr a)"
  shows "GetType tx = Some DEPOSIT" "ExtractValidatorAddress Hash160 tx = Some (Some a)" "vin tx \<noteq> []" "vout tx \<noteq> []"
    "IsFinalizerCommitScript (scriptPubKey (vout tx ! 0))"
  using assms by (auto simp: CheckDepositTx_def check_accepts bind_eq_Some_conv split: if_splits dest: check_solvable_address_accepts)

lemma CheckLogoutTx_accepts:
  assumes "CheckLogoutTx Hash160 tx s = Some (Inr a)"
  shows "GetType tx = Some LOGOUT" "ExtractValidatorAddress Hash160 tx = Some (Some a)" "length (vin tx) = 1" "length (vout tx) = 1"
    "IsFinalizerCommitScript (scriptPubKey (vout tx ! 0))"
  using assms by (auto simp: CheckLogoutTx_def check_accepts bind_eq_Some_conv split: if_splits dest: check_solvable_address_accepts)

lemma CheckWithdrawTx_accepts:
  assumes "CheckWithdrawTx Hash160 tx s = Some (Inr a)"
  shows "GetType tx = Some WITHDRAW" "ExtractValidatorAddress Hash160 tx = Some (Some a)" "length (vin tx) = 1" "vout tx \<noteq> []" "length (vout tx) \<le> 3"
    "IsPayToPublicKeyHash (scriptPubKey (vout tx ! 0))"
  using assms by (auto simp: CheckWithdrawTx_def check_accepts bind_eq_Some_conv split: if_splits dest: check_solvable_address_accepts)

lemma CheckVoteTx_accepts:
  assumes "CheckVoteTx VerifyVote tx s = Some (Inr (vote, sig))"
  shows "GetType tx = Some VOTE" "length (vin tx) = 1" "length (vout tx) = 1"
    "ExtractVoteFromVoteSignature (scriptSig (vin tx ! 0)) = Some (Some (vote, sig))"
    "IsFinalizerCommitScript (scriptPubKey (vout tx ! 0))"
    "\<exists>pubkey. ExtractValidatorPubkey tx = Some (Some pubkey) \<and> VerifyVote pubkey vote sig"
  using assms by (auto simp: CheckVoteTx_def check_accepts bind_eq_Some_conv split: option.splits if_splits)

lemma CheckSlashTx_accepts:
  assumes "CheckSlashTx tx s = Some (Inr (vote1, vote2))"
  shows "GetType tx = Some SLASH" "length (vin tx) = 1"
    "\<exists>s1 s2. ExtractVotesFromSlashSignature (scriptSig (vin tx ! 0)) = Some (Some ((vote1, s1), (vote2, s2)))"
  using assms by (auto simp: CheckSlashTx_def check_accepts bind_eq_Some_conv split: option.splits if_splits)

text \<open>The commands an accepted admin transaction carries decode, the way \<^const>\<open>admin_commands\<close> needs it.\<close>

lemma CheckAdminTx_loop_accepts:
  "CheckAdminTx_loop os n d s = Some (Inr m) \<Longrightarrow> \<exists>cs. admin_commands os = Some cs \<and> m = n + length cs"
  by (induction os n d s rule: CheckAdminTx_loop.induct) (fastforce simp: check_accepts split: if_splits option.splits)+

lemma CheckAdminTx_accepts:
  assumes "CheckAdminTx tx s = Some (Inr keys)"
  shows "GetType tx = Some ADMIN" "\<exists>cs. admin_commands (vout tx) = Some cs \<and> cs \<noteq> []" "length keys = ADMIN_MULTISIG_KEYS"
  using assms CheckAdminTx_loop_accepts
  by (fastforce simp: CheckAdminTx_def check_accepts bind_eq_Some_conv Let_def split: if_splits option.splits)+

lemmas CheckTx_accepts = CheckDepositTx_accepts CheckLogoutTx_accepts CheckWithdrawTx_accepts CheckVoteTx_accepts CheckSlashTx_accepts

lemma refusal_cases [check_accepts]:
  "(if b then refuse l m s else c) = Some (Inr u) \<longleftrightarrow> \<not> b \<and> c = Some (Inr u)"
  "(case x of None \<Rightarrow> refuse l m s | Some y \<Rightarrow> f y) = Some (Inr u) \<longleftrightarrow> (\<exists>y. x = Some y \<and> f y = Some (Inr u))"
  by (auto simp: refuse_def split: option.split)

text \<open>Every result but the first is refused.\<close>

lemma result_cases [check_accepts]:
  "(case r of SUCCESS \<Rightarrow> c | DEPOSIT_DUPLICATE \<Rightarrow> Some (Inl e) | _ \<Rightarrow> refuse l m s) = Some (Inr u) \<longleftrightarrow> r = SUCCESS \<and> c = Some (Inr u)"
  "(case r of SUCCESS \<Rightarrow> c | LOGOUT_NOT_A_VALIDATOR \<Rightarrow> refuse l1 m1 s | _ \<Rightarrow> refuse l m s) = Some (Inr u) \<longleftrightarrow> r = SUCCESS \<and> c = Some (Inr u)"
  "(case r of SUCCESS \<Rightarrow> c | VOTE_NOT_BY_VALIDATOR \<Rightarrow> refuse l1 m1 s | _ \<Rightarrow> refuse l m s) = Some (Inr u) \<longleftrightarrow> r = SUCCESS \<and> c = Some (Inr u)"
  "(case r of SUCCESS \<Rightarrow> c | SLASH_TOO_EARLY \<Rightarrow> refuse l1 m1 s | SLASH_ALREADY_SLASHED \<Rightarrow> refuse l2 m2 s | _ \<Rightarrow> refuse l m s) = Some (Inr u)
     \<longleftrightarrow> r = SUCCESS \<and> c = Some (Inr u)"
  by (cases r; simp add: refuse_def)+

lemma ContextualCheckDepositTx_accepts:
  assumes "ContextualCheckDepositTx Hash160 p st tx s = Some (Inr u)"
  obtains a where "CheckDepositTx Hash160 tx s = Some (Inr a)" "ValidateDeposit p st a (nValue (vout tx ! 0)) = SUCCESS"
  using assms that by (auto simp: ContextualCheckDepositTx_def check_accepts split: prod.splits)

lemma ContextualCheckLogoutTx_accepts:
  assumes "ContextualCheckLogoutTx Hash160 mempool p st view tx s = Some (Inr u)"
  obtains a where "CheckLogoutTx Hash160 tx s = Some (Inr a)" "ValidateLogout p st a = SUCCESS"
    "\<exists>t. FindPrevOutData mempool view (prevout (vin tx ! 0)) = Some (Some (t, scriptPubKey (vout tx ! 0))) \<and> (t = DEPOSIT \<or> t = VOTE)"
  using assms that by (fastforce simp: ContextualCheckLogoutTx_def check_accepts bind_eq_Some_conv split: prod.splits)

lemma ContextualCheckWithdrawTx_accepts:
  assumes "ContextualCheckWithdrawTx Hash160 mempool p st view tx s = Some (Inr u)"
  obtains a where "CheckWithdrawTx Hash160 tx s = Some (Inr a)" "ValidateWithdraw p st a (nValue (vout tx ! 0)) = Some SUCCESS"
    "\<exists>t script. FindPrevOutData mempool view (prevout (vin tx ! 0)) = Some (Some (t, script)) \<and> (t = LOGOUT \<or> t = VOTE)"
  using assms that by (fastforce simp: ContextualCheckWithdrawTx_def check_accepts bind_eq_Some_conv split: prod.splits)

lemma ContextualCheckVoteTx_accepts:
  assumes "ContextualCheckVoteTx VerifyVote mempool st view tx s = Some (Inr u)"
  obtains vote sig where "CheckVoteTx VerifyVote tx s = Some (Inr (vote, sig))" "ValidateVote st vote = SUCCESS"
    "\<exists>t. FindPrevOutData mempool view (prevout (vin tx ! 0)) = Some (Some (t, scriptPubKey (vout tx ! 0))) \<and> (t = DEPOSIT \<or> t = VOTE \<or> t = LOGOUT)"
  using assms that by (fastforce simp: ContextualCheckVoteTx_def check_accepts bind_eq_Some_conv split: prod.splits)

lemma ContextualCheckSlashTx_accepts:
  assumes "ContextualCheckSlashTx st tx s = Some (Inr u)"
  obtains vote1 vote2 where "CheckSlashTx tx s = Some (Inr (vote1, vote2))" "IsSlashable st vote1 vote2 = SUCCESS"
  using assms that by (fastforce simp: ContextualCheckSlashTx_def check_accepts bind_eq_Some_conv split: prod.splits)

lemma ContextualCheckAdminTx_accepts:
  assumes "ContextualCheckAdminTx st tx s = Some (Inr u)"
  obtains keys where "IsPermissioningActive st" "CheckAdminTx tx s = Some (Inr keys)" "ValidateAdminKeys st keys = Some SUCCESS"
  using assms that CheckAdminTx_accepts(3)
  by (fastforce simp: ContextualCheckAdminTx_def check_accepts bind_eq_Some_conv split: if_splits)

end
