(* ===== verification/VoteRecorder.thy ===== *)
theory VoteRecorder
  imports Checks
begin

section \<open>The vote recorder\<close>

text \<open>
  \<^verbatim>\<open>finalization/vote_recorder.cpp\<close> and the two functions of \<^verbatim>\<open>validation.cpp\<close> that record the votes of a
  transaction or block while checking its finalizer commits.

  \<^item> \<open>m_db\<close> is the content of the database \<^verbatim>\<open>CDBWrapper\<close>: \<^verbatim>\<open>Write\<close> replaces the value of a key. What a cursor
    over the database yields is the argument \<open>cursor\<close>, one pair of a key and a value per entry, \<^const>\<open>None\<close> where
    \<^verbatim>\<open>GetKey\<close> or \<^verbatim>\<open>GetValue\<close> returns false.
  \<^item> \<open>signals\<close> collects the calls of \<^verbatim>\<open>GetMainSignals().SlashingConditionDetected\<close>.
  \<^item> \<^verbatim>\<open>assert(false)\<close> at the end of \<^verbatim>\<open>RecordVote\<close> is \<^const>\<open>None\<close>.
\<close>

record VoteRecord =
  rec_vote :: Vote
  rec_sig :: bytes

type_synonym DBKey = "u160 \<times> u32"

record VoteRecorder =
  voteRecords :: "(u160, (u32, VoteRecord) fmap) fmap"
  voteCache :: "(u160, VoteRecord) fmap"
  m_db :: "(DBKey, VoteRecord) fmap"
  signals :: "(VoteRecord \<times> VoteRecord) list"

record DBParams =
  db_inmemory :: bool
  db_wipe :: bool

subsection \<open>Storage\<close>

definition emplace :: "'k \<Rightarrow> 'v \<Rightarrow> ('k, 'v) fmap \<Rightarrow> ('k, 'v) fmap" where
  "emplace k v m = (case fmlookup m k of None \<Rightarrow> fmupd k v m | Some _ \<Rightarrow> m)"

text \<open>\<^verbatim>\<open>voteRecords[key.first].emplace(key.second, record)\<close>; \<^verbatim>\<open>operator[]\<close> creates the inner map.\<close>

definition store_record :: "DBKey \<Rightarrow> VoteRecord \<Rightarrow> (u160, (u32, VoteRecord) fmap) fmap \<Rightarrow> (u160, (u32, VoteRecord) fmap) fmap" where
  "store_record key record1 m =
     (let inner = (case fmlookup m (fst key) of None \<Rightarrow> fmempty | Some x \<Rightarrow> x)
      in fmupd (fst key) (emplace (snd key) record1 inner) m)"

fun LoadFromDB_loop :: "(DBKey option \<times> VoteRecord option) list \<Rightarrow> (u160, (u32, VoteRecord) fmap) fmap \<Rightarrow> (u160, (u32, VoteRecord) fmap) fmap" where
  "LoadFromDB_loop [] m = m"
| "LoadFromDB_loop ((None, _) # r) m = m"
| "LoadFromDB_loop ((Some key, None) # r) m = m"
| "LoadFromDB_loop ((Some key, Some record1) # r) m = LoadFromDB_loop r (store_record key record1 m)"

definition LoadFromDB :: "((DBKey, VoteRecord) fmap \<Rightarrow> (DBKey option \<times> VoteRecord option) list) \<Rightarrow> VoteRecorder \<Rightarrow> VoteRecorder" where
  "LoadFromDB cursor r = r\<lparr>voteCache := fmempty, voteRecords := LoadFromDB_loop (cursor (m_db r)) fmempty\<rparr>"

definition SaveVoteToDB :: "VoteRecord \<Rightarrow> VoteRecorder \<Rightarrow> VoteRecorder" where
  "SaveVoteToDB record1 r =
     (let key = (v_validator_address (rec_vote record1), m_target_epoch (rec_vote record1))
      in r\<lparr>m_db := fmupd key record1 (m_db r)\<rparr>)"

text \<open>The constructor; \<open>disk\<close> is the content of the database at its path, which \<^verbatim>\<open>wipe\<close> and \<^verbatim>\<open>inmemory\<close> ignore.\<close>

definition VoteRecorder_new ::
  "((DBKey, VoteRecord) fmap \<Rightarrow> (DBKey option \<times> VoteRecord option) list) \<Rightarrow> (DBKey, VoteRecord) fmap \<Rightarrow> DBParams \<Rightarrow> VoteRecorder" where
  "VoteRecorder_new cursor disk q =
     (let r = \<lparr>voteRecords = fmempty, voteCache = fmempty, m_db = (if db_wipe q \<or> db_inmemory q then fmempty else disk), signals = []\<rparr>
      in if \<not> db_wipe q \<and> \<not> db_inmemory q then LoadFromDB cursor r else r)"

subsection \<open>Looking for slashable votes\<close>

text \<open>The loop over the records from \<^verbatim>\<open>lower_bound(vote.m_source_epoch)\<close> on.\<close>

fun surround_loop :: "Vote \<Rightarrow> (u32 \<times> VoteRecord) list \<Rightarrow> VoteRecord option" where
  "surround_loop vote [] = None"
| "surround_loop vote ((_, record1) # r) =
     (let v = rec_vote record1 in
      if m_source_epoch v < m_target_epoch vote \<and>
         ((m_source_epoch v > m_source_epoch vote \<and> m_target_epoch v < m_target_epoch vote) \<or>
          (m_source_epoch v < m_source_epoch vote \<and> m_target_epoch v > m_target_epoch vote))
      then Some record1 else surround_loop vote r)"

definition FindOffendingVote :: "Vote \<Rightarrow> VoteRecorder \<Rightarrow> VoteRecord option" where
  "FindOffendingVote vote r =
     (let cached = (case fmlookup (voteCache r) (v_validator_address vote) of None \<Rightarrow> False | Some c \<Rightarrow> rec_vote c = vote) in
      if cached then None
      else case fmlookup (voteRecords r) (v_validator_address vote) of None \<Rightarrow> None
        | Some voteMap \<Rightarrow>
          let surrounding = surround_loop vote (filter (\<lambda>(e, _). m_source_epoch vote \<le> e) (sorted_list_of_fmap voteMap)) in
          (case fmlookup voteMap (m_target_epoch vote) of
             Some record1 \<Rightarrow> if m_target_hash (rec_vote record1) \<noteq> m_target_hash vote then Some record1 else surrounding
           | None \<Rightarrow> surrounding))"

definition GetVote :: "u160 \<Rightarrow> u32 \<Rightarrow> VoteRecorder \<Rightarrow> VoteRecord option" where
  "GetVote validatorAddress epoch r =
     (case fmlookup (voteRecords r) validatorAddress of None \<Rightarrow> None | Some m \<Rightarrow> fmlookup m epoch)"

definition GetScript :: "VoteRecord \<Rightarrow> bytes option" where
  "GetScript record1 = EncodeVote (rec_vote record1) (rec_sig record1)"

subsection \<open>Recording\<close>

definition save_in_memory :: "Vote \<Rightarrow> VoteRecord \<Rightarrow> VoteRecorder \<Rightarrow> bool \<times> VoteRecorder" where
  "save_in_memory vote voteRecord r =
     (case fmlookup (voteRecords r) (v_validator_address vote) of
        Some m \<Rightarrow> (fmlookup m (m_target_epoch vote) = None,
          r\<lparr>voteRecords := fmupd (v_validator_address vote) (emplace (m_target_epoch vote) voteRecord m) (voteRecords r)\<rparr>)
      | None \<Rightarrow> (True,
          r\<lparr>voteRecords := fmupd (v_validator_address vote) (fmupd (m_target_epoch vote) voteRecord fmempty) (voteRecords r)\<rparr>))"

definition RecordVote :: "Vote \<Rightarrow> bytes \<Rightarrow> FinState \<Rightarrow> VoteRecorder \<Rightarrow> VoteRecorder option" where
  "RecordVote vote voteSig fin_state r =
     (if GetValidator fin_state (v_validator_address vote) = None then Some r
      else
        let offendingVote = FindOffendingVote vote r;
            voteRecord = \<lparr>rec_vote = vote, rec_sig = voteSig\<rparr>;
            (saved, r) = save_in_memory vote voteRecord r;
            r = (if saved then SaveVoteToDB voteRecord r else r)
        in case offendingVote of None \<Rightarrow> Some r
           | Some offending \<Rightarrow>
               if IsSlashable fin_state vote (rec_vote offending) = SUCCESS
               then Some (r\<lparr>signals := signals r @ [(voteRecord, offending)]\<rparr>)
               else None)"

text \<open>The free function \<^verbatim>\<open>finalization::RecordVote\<close>: the outcome for the validation state, and the recorder.\<close>

definition RecordVote_tx :: "FinState \<Rightarrow> CTransaction \<Rightarrow> CValidationState \<Rightarrow> VoteRecorder \<Rightarrow> ((CValidationState + unit) \<times> VoteRecorder) option" where
  "RecordVote_tx fin_state tx s r = do {
     t \<leftarrow> GetType tx;
     require (t = VOTE);
     require (vin tx \<noteq> []);
     v \<leftarrow> ExtractVoteFromVoteSignature (scriptSig (vin tx ! 0));
     (case v of None \<Rightarrow> Some (Inl (DoS 10 REJECT_INVALID ''bad-vote-data-format'' False [] s), r)
      | Some (vote, voteSig) \<Rightarrow>
          let res = ValidateVote fin_state vote in
          if res \<noteq> ADMIN_BLACKLISTED \<and> res \<noteq> VOTE_NOT_BY_VALIDATOR
          then do { r \<leftarrow> RecordVote vote voteSig fin_state r; Some (Inr (), r) }
          else Some (Inr (), r))
   }"

subsection \<open>Finalizer commits of a block\<close>

text \<open>The functions of \<^verbatim>\<open>validation.cpp\<close>. Every commit of a block is checked in the state \<open>fin_state\<close> of the parent
  of the block; votes are recorded in the state of the tip.\<close>

definition node_ContextualCheckFinalizerCommit ::
  "(bytes \<Rightarrow> u160) \<Rightarrow> (CPubKey \<Rightarrow> Vote \<Rightarrow> bytes \<Rightarrow> bool) \<Rightarrow> (u256 \<Rightarrow> CTransaction option) \<Rightarrow> Params \<Rightarrow> FinState \<Rightarrow> FinState \<Rightarrow>
   (COutPoint \<Rightarrow> Coin option) \<Rightarrow> CTransaction \<Rightarrow> CValidationState \<Rightarrow> VoteRecorder \<Rightarrow> ((CValidationState + unit) \<times> VoteRecorder) option" where
  "node_ContextualCheckFinalizerCommit Hash160 VerifyVote mempool p fin_state tip_fin_state view tx s r = do {
     t \<leftarrow> GetType tx;
     (recorded, r) \<leftarrow> (if t = VOTE then do {
         c \<leftarrow> CheckVoteTx VerifyVote tx s;
         (case c of Inl e \<Rightarrow> Some (Inl e, r) | Inr _ \<Rightarrow> RecordVote_tx tip_fin_state tx s r)
       } else Some (Inr (), r));
     (case recorded of Inl e \<Rightarrow> Some (Inl e, r)
      | Inr _ \<Rightarrow> do {
          c \<leftarrow> ContextualCheckFinalizerCommit Hash160 VerifyVote mempool p fin_state view tx s;
          Some (c, r)
        })
   }"

fun ContextualCheckBlockFinalizerCommits ::
  "(bytes \<Rightarrow> u160) \<Rightarrow> (CPubKey \<Rightarrow> Vote \<Rightarrow> bytes \<Rightarrow> bool) \<Rightarrow> (u256 \<Rightarrow> CTransaction option) \<Rightarrow> Params \<Rightarrow> FinState \<Rightarrow> FinState \<Rightarrow>
   (COutPoint \<Rightarrow> Coin option) \<Rightarrow> CTransaction list \<Rightarrow> CValidationState \<Rightarrow> VoteRecorder \<Rightarrow> ((CValidationState + unit) \<times> VoteRecorder) option" where
  "ContextualCheckBlockFinalizerCommits Hash160 VerifyVote mempool p fin_state tip_fin_state view [] s r = Some (Inr (), r)"
| "ContextualCheckBlockFinalizerCommits Hash160 VerifyVote mempool p fin_state tip_fin_state view (tx # vtx) s r = do {
     c \<leftarrow> IsFinalizerCommit tx;
     if c then do {
       (res, r) \<leftarrow> node_ContextualCheckFinalizerCommit Hash160 VerifyVote mempool p fin_state tip_fin_state view tx s r;
       (case res of Inl e \<Rightarrow> Some (Inl e, r)
        | Inr _ \<Rightarrow> ContextualCheckBlockFinalizerCommits Hash160 VerifyVote mempool p fin_state tip_fin_state view vtx s r)
     } else ContextualCheckBlockFinalizerCommits Hash160 VerifyVote mempool p fin_state tip_fin_state view vtx s r
   }"

subsection \<open>Records in memory and in the database\<close>

definition recorder_ok :: "VoteRecorder \<Rightarrow> bool" where
  "recorder_ok r \<longleftrightarrow> voteCache r = fmempty \<and>
     (\<forall>a e. fmlookup (m_db r) (a, e) = GetVote a e r) \<and>
     (\<forall>a e x. GetVote a e r = Some x \<longrightarrow> v_validator_address (rec_vote x) = a \<and> m_target_epoch (rec_vote x) = e)"

lemma recorder_okD: "recorder_ok r \<Longrightarrow> GetVote a e r = Some x \<Longrightarrow> v_validator_address (rec_vote x) = a \<and> m_target_epoch (rec_vote x) = e"
  by (simp add: recorder_ok_def)

text \<open>What the code relies on of the database cursor: it yields every entry, and only entries.\<close>

definition faithful_cursor :: "((DBKey, VoteRecord) fmap \<Rightarrow> (DBKey option \<times> VoteRecord option) list) \<Rightarrow> bool" where
  "faithful_cursor cursor \<longleftrightarrow> (\<forall>m. set (cursor m) = {(Some k, Some x) |k x. fmlookup m k = Some x})"

lemma fmlookup_emplace: "fmlookup (emplace k v m) j = (if j = k then Some (case fmlookup m k of None \<Rightarrow> v | Some w \<Rightarrow> w) else fmlookup m j)"
  by (simp add: emplace_def split: option.split)

definition get_record :: "(u160, (u32, VoteRecord) fmap) fmap \<Rightarrow> DBKey \<Rightarrow> VoteRecord option" where
  "get_record m key = (case fmlookup m (fst key) of None \<Rightarrow> None | Some n \<Rightarrow> fmlookup n (snd key))"

lemma GetVote_record: "GetVote a e r = get_record (voteRecords r) (a, e)"
  by (simp add: GetVote_def get_record_def split: option.split)

lemma get_record_store:
  "get_record (store_record key x m) k = (if k = key then Some (case get_record m key of None \<Rightarrow> x | Some y \<Rightarrow> y) else get_record m k)"
  by (cases k; cases key) (auto simp: get_record_def store_record_def Let_def fmlookup_emplace split: option.split)

lemma get_record_empty [simp]: "get_record fmempty k = None"
  by (simp add: get_record_def)

lemma save_in_memory_spec:
  "save_in_memory vote x r = (GetVote (v_validator_address vote) (m_target_epoch vote) r = None,
     r\<lparr>voteRecords := store_record (v_validator_address vote, m_target_epoch vote) x (voteRecords r)\<rparr>)"
  by (auto simp: save_in_memory_def GetVote_def store_record_def Let_def emplace_def split: option.split)

text \<open>What \<^const>\<open>RecordVote\<close> leaves behind when it returns.\<close>

definition recorded :: "Vote \<Rightarrow> bytes \<Rightarrow> VoteRecorder \<Rightarrow> VoteRecorder" where
  "recorded vote sig r = (let key = (v_validator_address vote, m_target_epoch vote); x = \<lparr>rec_vote = vote, rec_sig = sig\<rparr> in
     r\<lparr>voteRecords := store_record key x (voteRecords r),
       m_db := (if GetVote (fst key) (snd key) r = None then fmupd key x (m_db r) else m_db r)\<rparr>)"

lemma RecordVote_spec:
  "RecordVote vote sig st r =
    (if fmlookup (m_validators st) (v_validator_address vote) = None then Some r
     else case FindOffendingVote vote r of
       None \<Rightarrow> Some (recorded vote sig r)
     | Some x \<Rightarrow> if IsSlashable st vote (rec_vote x) = SUCCESS
         then Some ((recorded vote sig r)\<lparr>signals := signals r @ [(\<lparr>rec_vote = vote, rec_sig = sig\<rparr>, x)]\<rparr>) else None)"
  by (simp add: RecordVote_def GetValidator_def save_in_memory_spec recorded_def SaveVoteToDB_def Let_def split: option.split)

lemma GetVote_recorded:
  "GetVote a e (recorded vote sig r) =
    (if a = v_validator_address vote \<and> e = m_target_epoch vote \<and> GetVote a e r = None then Some \<lparr>rec_vote = vote, rec_sig = sig\<rparr>
     else GetVote a e r)"
  by (auto simp: GetVote_record recorded_def Let_def get_record_store split: option.split)

lemma recorder_ok_recorded: "recorder_ok r \<Longrightarrow> recorder_ok (recorded vote sig r)"
  unfolding recorder_ok_def GetVote_recorded by (auto simp: recorded_def Let_def)

lemma recorder_ok_signals [simp]: "recorder_ok (r\<lparr>signals := x\<rparr>) = recorder_ok r"
  by (simp add: recorder_ok_def GetVote_def)

lemma RecordVote_ok: "recorder_ok r \<Longrightarrow> RecordVote vote sig st r = Some r' \<Longrightarrow> recorder_ok r'"
  by (auto simp: RecordVote_spec intro: recorder_ok_recorded split: if_splits option.splits)

lemma RecordVote_keeps:
  "RecordVote vote sig st r = Some r' \<Longrightarrow> GetVote a e r = Some x \<Longrightarrow> GetVote a e r' = Some x"
  by (auto simp: RecordVote_spec GetVote_recorded split: if_splits option.splits)
    (auto simp: GetVote_def recorded_def Let_def store_record_def emplace_def split: if_splits option.splits)

lemma LoadFromDB_loop_record:
  assumes "\<forall>x\<in>set xs. \<exists>k y. x = (Some k, Some y) \<and> fmlookup db k = Some y"
  shows "get_record (LoadFromDB_loop xs m) k =
    (case get_record m k of Some x \<Rightarrow> Some x | None \<Rightarrow> if \<exists>y. (Some k, Some y) \<in> set xs then fmlookup db k else None)"
  using assms
proof (induction xs m rule: LoadFromDB_loop.induct)
  case (4 key x r m)
  have k: "fmlookup db key = Some x" using "4.prems" by auto
  show ?case using "4.IH" "4.prems" k by (auto simp: get_record_store split: option.split)
qed (auto split: option.split)

lemma LoadFromDB_record: "faithful_cursor cursor \<Longrightarrow> GetVote a e (LoadFromDB cursor r) = fmlookup (m_db r) (a, e)"
proof -
  assume c: "faithful_cursor cursor"
  have "\<forall>x\<in>set (cursor (m_db r)). \<exists>k y. x = (Some k, Some y) \<and> fmlookup (m_db r) k = Some y"
    using c by (auto simp: faithful_cursor_def)
  from LoadFromDB_loop_record [OF this, of fmempty "(a, e)"] show ?thesis
    using c by (cases "fmlookup (m_db r) (a, e)") (auto simp: GetVote_record LoadFromDB_def faithful_cursor_def)
qed

subsection \<open>Offending votes\<close>

text \<open>Two votes of one validator that break a slashing condition: different targets at one epoch, or one surrounds the
  other.\<close>

definition offends :: "Vote \<Rightarrow> Vote \<Rightarrow> bool" where
  "offends vote v \<longleftrightarrow> (isDoubleVote vote v \<and> m_target_hash v \<noteq> m_target_hash vote) \<or> isSurroundVote vote v"

lemma surround_loop_None:
  "surround_loop vote xs = None \<longleftrightarrow> (\<forall>(e, x)\<in>set xs. \<not> (m_source_epoch (rec_vote x) < m_target_epoch vote \<and> isSurroundVote vote (rec_vote x)))"
  by (induction vote xs rule: surround_loop.induct) (auto simp: Let_def isSurroundVote_def)

lemma surround_loop_Some:
  "surround_loop vote xs = Some x \<Longrightarrow> (\<exists>e. (e, x) \<in> set xs) \<and> isSurroundVote vote (rec_vote x)"
  by (induction vote xs rule: surround_loop.induct) (auto simp: Let_def isSurroundVote_def split: if_splits)

lemma set_sorted_list_of_fmap: "(k, v) \<in> set (sorted_list_of_fmap m) \<longleftrightarrow> fmlookup m k = Some v"
  by (force simp: sorted_list_of_fmap_def fmlookup_dom_iff fmdomI)


text \<open>The recorded votes of one validator, all with the source before the target.\<close>

definition forward_records :: "u160 \<Rightarrow> VoteRecorder \<Rightarrow> bool" where
  "forward_records a r \<longleftrightarrow> (\<forall>e x. GetVote a e r = Some x \<longrightarrow> m_source_epoch (rec_vote x) < m_target_epoch (rec_vote x))"

lemma FindOffendingVote_sound:
  assumes "recorder_ok r" "FindOffendingVote vote r = Some x"
  shows "GetVote (v_validator_address vote) (m_target_epoch (rec_vote x)) r = Some x \<and> offends vote (rec_vote x)"
proof -
  obtain m where m: "fmlookup (voteRecords r) (v_validator_address vote) = Some m"
    using assms by (auto simp: FindOffendingVote_def Let_def split: if_splits option.splits)
  then have get: "GetVote (v_validator_address vote) e r = fmlookup m e" for e by (simp add: GetVote_def)
  have key: "m_target_epoch (rec_vote y) = e" if "fmlookup m e = Some y" for e y
    using recorder_okD [OF assms(1)] that get by metis
  from assms m consider "fmlookup m (m_target_epoch vote) = Some x" "m_target_hash (rec_vote x) \<noteq> m_target_hash vote"
    | "surround_loop vote (filter (\<lambda>(e, _). m_source_epoch vote \<le> e) (sorted_list_of_fmap m)) = Some x"
    by (auto simp: FindOffendingVote_def Let_def split: if_splits option.splits)
  then show ?thesis
  proof cases
    case 1
    then show ?thesis using key [OF 1(1)] get by (auto simp: offends_def isDoubleVote_def)
  next
    case 2
    from surround_loop_Some [OF 2] obtain e where "fmlookup m e = Some x" "isSurroundVote vote (rec_vote x)"
      by (auto simp: set_sorted_list_of_fmap)
    then show ?thesis using key get by (auto simp: offends_def)
  qed
qed

lemma FindOffendingVote_complete:
  assumes ok: "recorder_ok r" and fwd: "forward_records (v_validator_address vote) r" "m_source_epoch vote < m_target_epoch vote"
    and x: "GetVote (v_validator_address vote) e r = Some x" "offends vote (rec_vote x)"
  shows "FindOffendingVote vote r \<noteq> None"
proof -
  obtain m where m: "fmlookup (voteRecords r) (v_validator_address vote) = Some m" "fmlookup m e = Some x"
    using x(1) by (auto simp: GetVote_def split: option.splits)
  have e: "m_target_epoch (rec_vote x) = e" using recorder_okD [OF ok x(1)] by simp
  have src: "m_source_epoch (rec_vote x) < e" using fwd(1) x(1) e by (auto simp: forward_records_def)
  have cache: "voteCache r = fmempty" using ok by (simp add: recorder_ok_def)
  show ?thesis
  proof (cases "isSurroundVote vote (rec_vote x)")
    case True
    then have "m_source_epoch vote \<le> e" "m_source_epoch (rec_vote x) < m_target_epoch vote"
      using e src fwd(2) by (auto simp: isSurroundVote_def)
    then have "surround_loop vote (filter (\<lambda>(e, _). m_source_epoch vote \<le> e) (sorted_list_of_fmap m)) \<noteq> None"
      using True m(2) by (auto simp del: not_None_eq simp: surround_loop_None set_sorted_list_of_fmap)
    then show ?thesis using m(1) cache by (simp add: FindOffendingVote_def Let_def split: option.split)
  next
    case False
    then have "e = m_target_epoch vote" "m_target_hash (rec_vote x) \<noteq> m_target_hash vote"
      using x(2) e by (auto simp: offends_def isDoubleVote_def)
    then show ?thesis using m cache by (simp add: FindOffendingVote_def)
  qed
qed

text \<open>\<^const>\<open>FindOffendingVote\<close> only looks at the records.\<close>

lemma FindOffendingVote_cong:
  assumes "recorder_ok r" "voteCache r' = fmempty" "\<And>a e. GetVote a e r' = GetVote a e r"
  shows "FindOffendingVote vote r' = FindOffendingVote vote r"
proof -
  let ?a = "v_validator_address vote"
  define m where "m q = (case fmlookup (voteRecords q) ?a of None \<Rightarrow> fmempty | Some m \<Rightarrow> m)" for q :: VoteRecorder
  have "fmlookup (m q) e = GetVote ?a e q" for q e by (simp add: m_def GetVote_def split: option.split)
  then have eq: "m r' = m r" using assms(3) by (intro fmap_ext) simp
  have empty: "sorted_list_of_fmap fmempty = []" by (simp add: sorted_list_of_fmap_def sorted_list_of_fset.rep_eq)
  have "FindOffendingVote vote q = (let surrounding = surround_loop vote (filter (\<lambda>(e, _). m_source_epoch vote \<le> e) (sorted_list_of_fmap (m q))) in
      case fmlookup (m q) (m_target_epoch vote) of
        Some x \<Rightarrow> if m_target_hash (rec_vote x) \<noteq> m_target_hash vote then Some x else surrounding
      | None \<Rightarrow> surrounding)" if "voteCache q = fmempty" for q
    using that by (simp add: FindOffendingVote_def m_def empty Let_def split: option.split)
  then show ?thesis using assms(1,2) eq by (simp add: recorder_ok_def)
qed

lemma LoadFromDB_restores:
  assumes "faithful_cursor cursor" "recorder_ok r" "db = m_db r"
  defines "r' \<equiv> VoteRecorder_new cursor db \<lparr>db_inmemory = False, db_wipe = False\<rparr>"
  shows "recorder_ok r'" "GetVote a e r' = GetVote a e r" "FindOffendingVote vote r' = FindOffendingVote vote r"
proof -
  have get: "GetVote a e r' = GetVote a e r" for a e
    using assms by (simp add: VoteRecorder_new_def LoadFromDB_record recorder_ok_def)
  have cache: "voteCache r' = fmempty" "m_db r' = m_db r" using assms(3) by (simp_all add: r'_def VoteRecorder_new_def LoadFromDB_def)
  show "recorder_ok r'" using assms(2) get cache by (simp add: recorder_ok_def)
  show "GetVote a e r' = GetVote a e r" by (rule get)
  show "FindOffendingVote vote r' = FindOffendingVote vote r" using assms(2) cache(1) get by (rule FindOffendingVote_cong)
qed


subsection \<open>Runs of the recorder\<close>

inductive record_step :: "VoteRecorder \<Rightarrow> VoteRecorder \<Rightarrow> bool" where
  "RecordVote vote sig st r = Some r' \<Longrightarrow> record_step r r'"

interpretation recorder: step_invariant record_step recorder_ok
  by unfold_locales (auto elim!: record_step.cases intro: RecordVote_ok)

lemma recorded_votes_stay: "record_step\<^sup>*\<^sup>* r r' \<Longrightarrow> GetVote a e r = Some x \<Longrightarrow> GetVote a e r' = Some x"
  by (induction rule: rtranclp_induct) (auto elim!: record_step.cases intro: RecordVote_keeps)

definition VoteRecorder_empty :: VoteRecorder where
  "VoteRecorder_empty = \<lparr>voteRecords = fmempty, voteCache = fmempty, m_db = fmempty, signals = []\<rparr>"

lemma VoteRecorder_empty_ok: "recorder_ok VoteRecorder_empty"
  by (simp add: recorder_ok_def VoteRecorder_empty_def GetVote_def)

end
