(* ===== verification/CommitSteps.thy ===== *)
theory CommitSteps
  imports FinSafety VoteRecorder
begin

section \<open>Checked commits and the finalization state\<close>

text \<open>
  The composition of the checks with the state: a commit that is accepted in a state is applied to it by validated
  steps, and the commits of one block, which are all checked in the state of the parent block, can be applied one after
  the other as long as no two of them concern the same validator.
\<close>

subsection \<open>One commit\<close>

lemma ProcessNewCommit_type:
  "GetType tx = Some VOTE \<Longrightarrow> length (vin tx) = 1 \<Longrightarrow> ExtractVoteFromVoteSignature (scriptSig (vin tx ! 0)) = Some (Some (vote, sig)) \<Longrightarrow>
     ProcessNewCommit Hash160 p tx st = do { st \<leftarrow> ProcessVote vote st; RegisterLastTx (v_validator_address vote) tx st }"
  "GetType tx = Some DEPOSIT \<Longrightarrow> ExtractValidatorAddress Hash160 tx = Some (Some a) \<Longrightarrow> vout tx \<noteq> [] \<Longrightarrow>
     ProcessNewCommit Hash160 p tx st = do { st \<leftarrow> ProcessDeposit a (nValue (vout tx ! 0)) st; RegisterLastTx a tx st }"
  "GetType tx = Some LOGOUT \<Longrightarrow> ExtractValidatorAddress Hash160 tx = Some (Some a) \<Longrightarrow>
     ProcessNewCommit Hash160 p tx st = do { st \<leftarrow> ProcessLogout p a st; RegisterLastTx a tx st }"
  "GetType tx = Some WITHDRAW \<Longrightarrow> ExtractValidatorAddress Hash160 tx = Some (Some a) \<Longrightarrow>
     ProcessNewCommit Hash160 p tx st = Some (ProcessWithdraw a st)"
  "GetType tx = Some SLASH \<Longrightarrow> length (vin tx) = 1 \<Longrightarrow>
     ExtractVotesFromSlashSignature (scriptSig (vin tx ! 0)) = Some (Some ((vote1, s1), (vote2, s2))) \<Longrightarrow>
     ProcessNewCommit Hash160 p tx st = ProcessSlash vote1 vote2 st"
  by (auto simp: ProcessNewCommit_def asserted_def require_def)

text \<open>The validator a commit concerns.\<close>

definition commit_address :: "(bytes \<Rightarrow> u160) \<Rightarrow> CTransaction \<Rightarrow> u160 option" where
  "commit_address Hash160 tx =
     (case GetType tx of
        Some VOTE \<Rightarrow> map_option (\<lambda>(v, _). v_validator_address v) (asserted (ExtractVoteFromVoteSignature (scriptSig (vin tx ! 0))))
      | Some SLASH \<Rightarrow> map_option (\<lambda>((v, _), _). v_validator_address v) (asserted (ExtractVotesFromSlashSignature (scriptSig (vin tx ! 0))))
      | _ \<Rightarrow> asserted (ExtractValidatorAddress Hash160 tx))"

text \<open>An accepted commit that is not an admin command is one of five operations, validated.\<close>

datatype commit_op = OpDeposit u160 amount | OpVote Vote | OpLogout u160 | OpWithdraw u160 amount | OpSlash Vote Vote

fun op_address :: "commit_op \<Rightarrow> u160" where
  "op_address (OpDeposit a _) = a"
| "op_address (OpVote v) = v_validator_address v"
| "op_address (OpLogout a) = a"
| "op_address (OpWithdraw a _) = a"
| "op_address (OpSlash v _) = v_validator_address v"

fun op_valid :: "Params \<Rightarrow> FinState \<Rightarrow> commit_op \<Rightarrow> bool" where
  "op_valid p st (OpDeposit a x) \<longleftrightarrow> ValidateDeposit p st a x = SUCCESS"
| "op_valid p st (OpVote v) \<longleftrightarrow> ValidateVote st v = SUCCESS"
| "op_valid p st (OpLogout a) \<longleftrightarrow> ValidateLogout p st a = SUCCESS"
| "op_valid p st (OpWithdraw a x) \<longleftrightarrow> ValidateWithdraw p st a x = Some SUCCESS"
| "op_valid p st (OpSlash v1 v2) \<longleftrightarrow> IsSlashable st v1 v2 = SUCCESS"

fun op_apply :: "Params \<Rightarrow> commit_op \<Rightarrow> FinState \<Rightarrow> FinState option" where
  "op_apply p (OpDeposit a x) st = ProcessDeposit a x st"
| "op_apply p (OpVote v) st = ProcessVote v st"
| "op_apply p (OpLogout a) st = ProcessLogout p a st"
| "op_apply p (OpWithdraw a x) st = Some (ProcessWithdraw a st)"
| "op_apply p (OpSlash v1 v2) st = ProcessSlash v1 v2 st"

fun op_registers :: "commit_op \<Rightarrow> bool" where
  "op_registers (OpWithdraw _ _) = False"
| "op_registers (OpSlash _ _) = False"
| "op_registers _ = True"

definition op_commit :: "Params \<Rightarrow> commit_op \<Rightarrow> CTransaction \<Rightarrow> FinState \<Rightarrow> FinState option" where
  "op_commit p x tx st = do {
     st \<leftarrow> op_apply p x st;
     if op_registers x then RegisterLastTx (op_address x) tx st else Some st
   }"

lemma accepted_commit:
  assumes "ContextualCheckFinalizerCommit Hash160 VerifyVote mempool p st view tx s = Some (Inr u)" "GetType tx \<noteq> Some ADMIN"
  obtains x where "op_valid p st x" "commit_address Hash160 tx = Some (op_address x)"
    "\<And>st'. ProcessNewCommit Hash160 p tx st' = op_commit p x tx st'"
proof -
  obtain t where t: "GetType tx = Some t" using assms(1) by (auto simp: ContextualCheckFinalizerCommit_def bind_eq_Some_conv)
  show thesis
  proof (cases t)
    case DEPOSIT
    then have "ContextualCheckDepositTx Hash160 p st tx s = Some (Inr u)"
      using assms(1) t by (simp add: ContextualCheckFinalizerCommit_def)
    then obtain a where a: "CheckDepositTx Hash160 tx s = Some (Inr a)" "ValidateDeposit p st a (nValue (vout tx ! 0)) = SUCCESS"
      by (rule ContextualCheckDepositTx_accepts)
    note ok = CheckDepositTx_accepts [OF a(1)]
    show thesis by (rule that [of "OpDeposit a (nValue (vout tx ! 0))"])
      (use a ok in \<open>simp_all add: commit_address_def asserted_def op_commit_def ProcessNewCommit_type\<close>)
  next
    case VOTE
    then have "ContextualCheckVoteTx VerifyVote mempool st view tx s = Some (Inr u)"
      using assms(1) t by (simp add: ContextualCheckFinalizerCommit_def)
    then obtain vote sig where a: "CheckVoteTx VerifyVote tx s = Some (Inr (vote, sig))" "ValidateVote st vote = SUCCESS"
      by (rule ContextualCheckVoteTx_accepts)
    note ok = CheckVoteTx_accepts [OF a(1)]
    show thesis by (rule that [of "OpVote vote"])
      (use a ok in \<open>simp_all add: commit_address_def asserted_def op_commit_def ProcessNewCommit_type\<close>)
  next
    case LOGOUT
    then have "ContextualCheckLogoutTx Hash160 mempool p st view tx s = Some (Inr u)"
      using assms(1) t by (simp add: ContextualCheckFinalizerCommit_def)
    then obtain a where a: "CheckLogoutTx Hash160 tx s = Some (Inr a)" "ValidateLogout p st a = SUCCESS"
      by (rule ContextualCheckLogoutTx_accepts)
    note ok = CheckLogoutTx_accepts [OF a(1)]
    show thesis by (rule that [of "OpLogout a"])
      (use a ok in \<open>simp_all add: commit_address_def asserted_def op_commit_def ProcessNewCommit_type\<close>)
  next
    case WITHDRAW
    then have "ContextualCheckWithdrawTx Hash160 mempool p st view tx s = Some (Inr u)"
      using assms(1) t by (simp add: ContextualCheckFinalizerCommit_def)
    then obtain a where a: "CheckWithdrawTx Hash160 tx s = Some (Inr a)" "ValidateWithdraw p st a (nValue (vout tx ! 0)) = Some SUCCESS"
      by (rule ContextualCheckWithdrawTx_accepts)
    note ok = CheckWithdrawTx_accepts [OF a(1)]
    show thesis by (rule that [of "OpWithdraw a (nValue (vout tx ! 0))"])
      (use a ok in \<open>simp_all add: commit_address_def asserted_def op_commit_def ProcessNewCommit_type\<close>)
  next
    case SLASH
    then have "ContextualCheckSlashTx st tx s = Some (Inr u)"
      using assms(1) t by (simp add: ContextualCheckFinalizerCommit_def)
    then obtain v1 v2 where a: "CheckSlashTx tx s = Some (Inr (v1, v2))" "IsSlashable st v1 v2 = SUCCESS"
      by (rule ContextualCheckSlashTx_accepts)
    from CheckSlashTx_accepts [OF a(1)] obtain s1 s2 where ok: "GetType tx = Some SLASH" "length (vin tx) = 1"
      "ExtractVotesFromSlashSignature (scriptSig (vin tx ! 0)) = Some (Some ((v1, s1), (v2, s2)))" by auto
    show thesis by (rule that [of "OpSlash v1 v2"])
      (use a ok in \<open>simp_all add: commit_address_def asserted_def op_commit_def ProcessNewCommit_type\<close>)
  qed (use assms t in \<open>simp_all add: ContextualCheckFinalizerCommit_def\<close>)
qed

subsection \<open>Applying a validated operation\<close>

lemma op_apply_step: "op_valid p st x \<Longrightarrow> op_apply p x st = Some st' \<Longrightarrow> fin_step Hash160 p st st'"
  by (cases x) (auto intro: fin_step.intros)

lemma op_commit_steps:
  assumes "op_valid p st x" "op_commit p x tx st = Some st'"
  shows "(fin_step Hash160 p)\<^sup>*\<^sup>* st st'"
proof -
  obtain st1 where "op_apply p x st = Some st1" "(if op_registers x then RegisterLastTx (op_address x) tx st1 else Some st1) = Some st'"
    using assms(2) by (auto simp: op_commit_def bind_eq_Some_conv)
  then have "fin_step Hash160 p st st1" "(fin_step Hash160 p)\<^sup>*\<^sup>* st1 st'"
    using assms(1) by (auto intro: op_apply_step fin_step.last_tx split: if_splits)
  then show ?thesis by (rule converse_rtranclp_into_rtranclp)
qed

lemma ProcessSlash_effect:
  assumes "chain_ok st" "IsSlashable st v1 v2 = SUCCESS"
  obtains st' w slashed where "ProcessSlash v1 v2 st = Some st'"
    "m_validators st' = fmupd (v_validator_address v1) w (m_validators st)" "m_is_slashed w"
    "m_admin_state st' = m_admin_state st" "m_recommended_target_hash st' = m_recommended_target_hash st"
    "m_total_slashed st' = fmupd (m_current_epoch st) slashed (m_total_slashed st)" "same_chain st st'"
proof -
  obtain v where v: "fmlookup (m_validators st) (v_validator_address v1) = Some v" "\<not> m_is_slashed v"
    using assms(2) by (rule IsSlashable_SUCCESS)
  obtain scale slashed where h: "fmlookup (m_deposit_scale_factor st) (m_current_epoch st) = Some scale"
      "fmlookup (m_total_slashed st) (m_current_epoch st) = Some slashed"
    using assms(1) by (rule chain_okE)
  obtain log where run: "ProcessSlash v1 v2 st = Some (st\<lparr>
      m_total_slashed := fmupd (m_current_epoch st) (slashed + of_nat (unat scale * unat (m_deposit v) div SCALE)) (m_total_slashed st),
      m_validators := fmupd (v_validator_address v1)
        (if m_current_dynasty st < m_end_dynasty v
         then v\<lparr>m_is_slashed := True, m_end_dynasty := m_current_dynasty st + 1, m_deposits_at_logout := log\<rparr>
         else v\<lparr>m_is_slashed := True\<rparr>) (m_validators st),
      m_dynasty_deltas := (if m_current_dynasty st < m_end_dynasty v then slashed_deltas v st else m_dynasty_deltas st)\<rparr>)"
    (is "_ = Some ?st'")
    using ProcessSlash_spec [OF v h, of v2] by blast
  then obtain st' w where "ProcessSlash v1 v2 st = Some st'" "st' = ?st'" "m_validators st' = fmupd (v_validator_address v1) w (m_validators st)"
      "m_is_slashed w"
    by simp
  with ProcessSlash_chain [OF assms(2) run assms(1)] show thesis by (intro that [of st' w]) simp_all
qed

text \<open>The operation goes through, and only the validator it concerns has a new record.\<close>

lemma op_apply_effect:
  assumes ok: "fin_ok p st" and val: "op_valid p st x" and scale: "fmlookup (m_deposit_scale_factor st) (m_current_epoch st) \<noteq> Some 0"
  obtains st' where "op_apply p x st = Some st'"
    "\<And>a. a \<noteq> op_address x \<Longrightarrow> fmlookup (m_validators st') a = fmlookup (m_validators st) a"
    "op_registers x \<Longrightarrow> fmlookup (m_validators st') (op_address x) \<noteq> None"
proof -
  have chain: "chain_ok st" using ok by (rule fin_ok_chain)
  show thesis
  proof (cases x)
    case (OpDeposit a amt)
    then have "fmlookup (m_validators st) a = None" using val by (simp add: ValidateDeposit_def split: if_splits)
    moreover obtain scale where "fmlookup (m_deposit_scale_factor st) (m_current_epoch st) = Some scale" using chain by (rule chain_okE)
    ultimately have "\<exists>st' w. ProcessDeposit a amt st = Some st' \<and> m_validators st' = fmupd a w (m_validators st)"
      using scale by (auto simp: ProcessDeposit_spec Let_def)
    then show thesis using that OpDeposit by auto
  next
    case (OpVote vote)
    then obtain v cp where v: "fmlookup (m_validators st) (v_validator_address vote) = Some v"
      and run: "ProcessVote vote st = Some (if vote_carries vote v cp st then carried_state vote v cp st else counted_state vote v cp st)"
      using val chain by (auto elim: ProcessVote_effect)
    show thesis
      by (rule that [where st' = "if vote_carries vote v cp st then carried_state vote v cp st else counted_state vote v cp st"])
        (use run v OpVote in \<open>auto simp: carried_state_def counted_state_def voted_state_def reward_state_def set_checkpoint_def Let_def\<close>)
  next
    case (OpLogout a)
    then show thesis using val that by (auto simp: ValidateLogout_def ProcessLogout_spec Let_def split: option.splits)
  next
    case (OpWithdraw a amt)
    then show thesis using that by (auto simp: ProcessWithdraw_spec)
  next
    case (OpSlash v1 v2)
    then have "IsSlashable st v1 v2 = SUCCESS" using val by simp
    with chain show thesis by (rule ProcessSlash_effect) (use that OpSlash in auto)
  qed
qed

lemma op_commit_defined:
  assumes "fin_ok p st" "op_valid p st x" "fmlookup (m_deposit_scale_factor st) (m_current_epoch st) \<noteq> Some 0"
  shows "\<exists>st'. op_commit p x tx st = Some st'"
  by (rule op_apply_effect [OF assms]) (auto simp: op_commit_def RegisterLastTx_def)

subsection \<open>Operations on different validators\<close>

text \<open>What a commit of the validator \<open>a\<close> looks at has not changed, or changed in its favour.\<close>

definition undisturbed :: "u160 \<Rightarrow> FinState \<Rightarrow> FinState \<Rightarrow> bool" where
  "undisturbed a st st' \<longleftrightarrow>
     fmlookup (m_validators st') a = fmlookup (m_validators st) a \<and> m_admin_state st' = m_admin_state st \<and>
     m_current_epoch st' = m_current_epoch st \<and> m_current_dynasty st' = m_current_dynasty st \<and>
     m_recommended_target_hash st' = m_recommended_target_hash st \<and> m_dynasty_start_epoch st' = m_dynasty_start_epoch st \<and>
     m_deposit_scale_factor st' = m_deposit_scale_factor st \<and> fmdom (m_total_slashed st') = fmdom (m_total_slashed st) \<and>
     (\<forall>e cp. fmlookup (m_checkpoints st) e = Some cp \<longrightarrow>
        (\<exists>cp'. fmlookup (m_checkpoints st') e = Some cp' \<and> (m_is_justified cp \<longrightarrow> m_is_justified cp') \<and>
          (a |\<in>| m_vote_set cp' \<longleftrightarrow> a |\<in>| m_vote_set cp)))"

lemma undisturbed_trans: "undisturbed a st st1 \<Longrightarrow> undisturbed a st1 st2 \<Longrightarrow> undisturbed a st st2"
  unfolding undisturbed_def by (elim conjE) (intro conjI allI impI, simp_all, blast)

lemma undisturbed_same_chain:
  assumes "same_chain st st'" "fmlookup (m_validators st') a = fmlookup (m_validators st) a" "m_admin_state st' = m_admin_state st"
    "m_recommended_target_hash st' = m_recommended_target_hash st"
  shows "undisturbed a st st'"
  using assms by (simp add: undisturbed_def same_chain_def)

lemma op_apply_undisturbed:
  assumes ok: "fin_ok p st" and val: "op_valid p st x" and run: "op_apply p x st = Some st'" and other: "a \<noteq> op_address x"
  shows "undisturbed a st st'"
proof -
  have chain: "chain_ok st" using ok by (rule fin_ok_chain)
  show ?thesis
  proof (cases x)
    case (OpDeposit b amt)
    then have "fmlookup (m_validators st) b = None" using val by (simp add: ValidateDeposit_def split: if_splits)
    then show ?thesis
      using run other OpDeposit by (auto simp: ProcessDeposit_spec Let_def undisturbed_def split: option.splits if_splits)
  next
    case (OpVote vote)
    then have "ValidateVote st vote = SUCCESS" using val by simp
    then obtain v cp where v: "fmlookup (m_validators st) (v_validator_address vote) = Some v"
      and cp: "fmlookup (m_checkpoints st) (m_target_epoch vote) = Some cp"
      and st': "ProcessVote vote st = Some (if vote_carries vote v cp st then carried_state vote v cp st else counted_state vote v cp st)"
      using chain by (rule ProcessVote_effect)
    have "undisturbed a st (counted_state vote v cp st)"
      using other OpVote cp by (auto simp: undisturbed_def counted_state_def voted_state_def reward_state_def set_checkpoint_def)
    moreover have "undisturbed a (counted_state vote v cp st) (carried_state vote v cp st)"
      using counted_state_chain(3) [OF cp, of v] by (auto simp: undisturbed_def carried_state_def Let_def)
    ultimately show ?thesis using run st' OpVote by (auto intro: undisturbed_trans split: if_splits)
  next
    case (OpLogout b)
    then show ?thesis
      using run other by (auto simp: ProcessLogout_spec Let_def undisturbed_def split: option.splits)
  next
    case (OpWithdraw b amt)
    then show ?thesis using run other by (auto simp: ProcessWithdraw_spec undisturbed_def)
  next
    case (OpSlash v1 v2)
    then have "IsSlashable st v1 v2 = SUCCESS" using val by simp
    with chain show ?thesis by (rule ProcessSlash_effect) (use run other OpSlash in \<open>auto intro: undisturbed_same_chain\<close>)
  qed
qed

lemma op_commit_undisturbed:
  assumes "fin_ok p st" "op_valid p st x" "op_commit p x tx st = Some st'" "a \<noteq> op_address x"
  shows "undisturbed a st st'"
proof -
  obtain st1 where st1: "op_apply p x st = Some st1" "(if op_registers x then RegisterLastTx (op_address x) tx st1 else Some st1) = Some st'"
    using assms(3) by (auto simp: op_commit_def bind_eq_Some_conv)
  have "undisturbed a st1 st'"
    using st1(2) assms(4) by (auto simp: RegisterLastTx_def set_validator_def undisturbed_def bind_eq_Some_conv split: if_splits)
  then show ?thesis using op_apply_undisturbed [OF assms(1,2) st1(1) assms(4)] by (blast intro: undisturbed_trans)
qed


subsection \<open>A block of commits of different validators\<close>

text \<open>When a withdrawal is accepted; the amount plays no role.\<close>

definition withdraw_base :: "Params \<Rightarrow> u32 \<Rightarrow> u32" where
  "withdraw_base p w = (if sint (2 * withdrawal_epoch_delay p) > sint (ucast w :: u64) then 0
     else ucast (ucast w - 2 * withdrawal_epoch_delay p))"

lemma ValidateWithdraw_iff:
  "ValidateWithdraw p st a x = Some SUCCESS \<longleftrightarrow>
    (\<exists>v w. fmlookup (m_validators st) a = Some v \<and> CalculateWithdrawEpoch p st v = Some w \<and> w \<le> m_current_epoch st \<and>
      (if m_is_slashed v
       then m_deposits_at_logout v \<noteq> 0 \<and> fmlookup (m_total_slashed st) w \<noteq> None \<and>
         fmlookup (m_total_slashed st) (withdraw_base p w) \<noteq> None \<and> fmlookup (m_deposit_scale_factor st) w \<noteq> None
       else fmlookup (m_deposit_scale_factor st) (ucast (ucast w - withdrawal_epoch_delay p)) \<noteq> None))"
proof (cases "fmlookup (m_validators st) a")
  case (Some v)
  show ?thesis
  proof (cases "CalculateWithdrawEpoch p st v")
    case (Some w)
    let ?s = "fmlookup (m_total_slashed st)" and ?d = "fmlookup (m_deposit_scale_factor st)"
    let ?e = "ucast (ucast w - withdrawal_epoch_delay p) :: u32"
    show ?thesis
      using \<open>fmlookup (m_validators st) a = Some v\<close> Some
      by (cases "m_current_epoch st < w"; cases "?s w"; cases "?s (withdraw_base p w)"; cases "?d w"; cases "?d ?e")
        (auto simp: ValidateWithdraw_def CalculateWithdrawAmount_def GetDepositScaleFactor_def GetTotalSlashed_def Let_def ufp_spec
          not_less simp flip: withdraw_base_def)
  qed (use Some in \<open>simp add: ValidateWithdraw_def CalculateWithdrawAmount_def\<close>)
qed (simp add: ValidateWithdraw_def CalculateWithdrawAmount_def)

lemma undisturbed_valid:
  assumes inv: "fin_inv p st" and u: "undisturbed (op_address x) st st'" and val: "op_valid p st x"
  shows "op_valid p st' x"
proof (cases x)
  case (OpVote vote)
  let ?a = "v_validator_address vote"
  have "ValidateVote st vote = SUCCESS" using val OpVote by simp
  then obtain v cp f where v: "fmlookup (m_validators st) ?a = Some v"
    and cp: "fmlookup (m_checkpoints st) (m_target_epoch vote) = Some cp" "m_validator_address v |\<notin>| m_vote_set cp"
    and t: "m_target_epoch vote = m_current_epoch st - 1" "m_target_hash vote = m_recommended_target_hash st"
    and src: "cp_flags (m_checkpoints st) (m_source_epoch vote) = Some (True, f)" and act: "IsFinalizerVoting st v"
    by (rule ValidateVote_SUCCESS)
  have a: "m_validator_address v = ?a" using fin_inv_validator [OF inv v] by (simp add: validator_ok_def)
  have auth: "IsValidatorAuthorized (m_admin_state st) ?a" using val OpVote by (simp add: ValidateVote_def split: if_splits)
  obtain cp1 where cp1: "fmlookup (m_checkpoints st') (m_target_epoch vote) = Some cp1" "?a |\<notin>| m_vote_set cp1"
    using u cp a OpVote by (fastforce simp: undisturbed_def)
  obtain cp2 where cp2: "fmlookup (m_checkpoints st') (m_source_epoch vote) = Some cp2" "m_is_justified cp2"
    using u src OpVote by (fastforce simp: undisturbed_def cp_flags_def)
  show ?thesis using u v a auth cp1 cp2 t act OpVote
    by (simp add: ValidateVote_def IsVotable_def undisturbed_def IsFinalizerVoting_def)
next
  case (OpSlash v1 v2)
  have "v_validator_address v2 = v_validator_address v1"
    using val OpSlash inv by (auto simp: IsSlashable_def fin_inv_def dynasties_ok_def validator_ok_def split: option.splits if_splits)
  then have look: "fmlookup (m_validators st') (v_validator_address v1) = fmlookup (m_validators st) (v_validator_address v1)"
    "fmlookup (m_validators st') (v_validator_address v2) = fmlookup (m_validators st) (v_validator_address v2)"
    "m_current_dynasty st' = m_current_dynasty st"
    using u OpSlash by (simp_all add: undisturbed_def)
  have "IsSlashable st' v1 v2 = IsSlashable st v1 v2" unfolding IsSlashable_def look ..
  then show ?thesis using val OpSlash by simp
next
  case (OpWithdraw a amt)
  have dom: "fmlookup (m_total_slashed st') e = None \<longleftrightarrow> fmlookup (m_total_slashed st) e = None" for e
    using u by (simp add: undisturbed_def fmlookup_None_iff)
  have w: "CalculateWithdrawEpoch p st' v = CalculateWithdrawEpoch p st v" for v
    using u by (simp add: undisturbed_def CalculateWithdrawEpoch_def)
  have look: "fmlookup (m_validators st') a = fmlookup (m_validators st) a" "m_current_epoch st' = m_current_epoch st"
    "m_deposit_scale_factor st' = m_deposit_scale_factor st" using u OpWithdraw by (simp_all add: undisturbed_def)
  have "ValidateWithdraw p st' a amt = Some SUCCESS \<longleftrightarrow> ValidateWithdraw p st a amt = Some SUCCESS"
    unfolding ValidateWithdraw_iff look w dom ..
  then show ?thesis using val OpWithdraw by simp
next
  case (OpDeposit a amt)
  then show ?thesis using u val by (auto simp: ValidateDeposit_def undisturbed_def split: if_splits)
next
  case (OpLogout a)
  then show ?thesis using u val by (auto simp: ValidateLogout_def undisturbed_def GetEndDynasty_def split: option.splits if_splits)
qed


lemma op_commit_scale:
  "fin_ok p st \<Longrightarrow> op_valid p st x \<Longrightarrow> op_commit p x tx st = Some st' \<Longrightarrow>
   fmlookup (m_deposit_scale_factor st') (m_current_epoch st') = fmlookup (m_deposit_scale_factor st) (m_current_epoch st)"
  using op_commit_undisturbed [of p st x tx st' "op_address x + 1"] by (simp add: undisturbed_def)

text \<open>\<open>block_ops\<close> pairs the finalizer commits of a block with the operations they are.\<close>

fun block_ops :: "(bytes \<Rightarrow> u160) \<Rightarrow> Params \<Rightarrow> CTransaction list \<Rightarrow> (CTransaction \<times> commit_op) list \<Rightarrow> bool" where
  "block_ops Hash160 p [] xs \<longleftrightarrow> xs = []"
| "block_ops Hash160 p (tx # txs) xs \<longleftrightarrow>
     (IsFinalizerCommit tx = Some False \<and> block_ops Hash160 p txs xs) \<or>
     (\<exists>x ys. xs = (tx, x) # ys \<and> (\<forall>st. ProcessNewCommit Hash160 p tx st = op_commit p x tx st) \<and> block_ops Hash160 p txs ys)"

lemma regular_commit: "IsFinalizerCommit tx = Some False \<Longrightarrow> ProcessNewCommit Hash160 p tx st = Some st"
  by (auto simp: IsFinalizerCommit_def ProcessNewCommit_def map_option_case elim: IsFinalizerCommit_type.elims split: option.splits TxType.splits)

lemma block_ops_apply:
  assumes "block_ops Hash160 p txs xs" "fin_ok p st" "\<forall>(tx, x)\<in>set xs. op_valid p st x" "distinct (map (op_address \<circ> snd) xs)"
    and "fmlookup (m_deposit_scale_factor st) (m_current_epoch st) \<noteq> Some 0"
  shows "\<exists>st'. ProcessNewCommit_loop Hash160 p txs st = Some st' \<and> (fin_step Hash160 p)\<^sup>*\<^sup>* st st'"
  using assms
proof (induction txs arbitrary: xs st)
  case (Cons tx txs)
  show ?case
  proof (cases "IsFinalizerCommit tx = Some False \<and> block_ops Hash160 p txs xs")
    case True
    then show ?thesis using Cons by (auto simp: regular_commit)
  next
    case False
    then obtain x ys where xs: "xs = (tx, x) # ys" "ProcessNewCommit Hash160 p tx st = op_commit p x tx st" "block_ops Hash160 p txs ys"
      using Cons.prems(1) by auto
    have val: "op_valid p st x" using Cons.prems(3) xs by auto
    obtain st1 where st1: "op_commit p x tx st = Some st1" using op_commit_defined [OF Cons.prems(2) val Cons.prems(5)] by blast
    have steps: "(fin_step Hash160 p)\<^sup>*\<^sup>* st st1" using val st1 by (rule op_commit_steps)
    have "op_valid p st1 y" if "(tx', y) \<in> set ys" for tx' y
    proof (rule undisturbed_valid [where st = st])
      have "op_address y \<noteq> op_address x" using Cons.prems(4) that xs by (force simp: image_iff)
      then show "undisturbed (op_address y) st st1" by (rule op_commit_undisturbed [OF Cons.prems(2) val st1])
    qed (use Cons.prems(2,3) that xs in \<open>auto simp: fin_ok_def\<close>)
    then obtain st2 where "ProcessNewCommit_loop Hash160 p txs st1 = Some st2" "(fin_step Hash160 p)\<^sup>*\<^sup>* st1 st2"
      using Cons.IH [OF xs(3), of st1] fin.reachable [OF steps Cons.prems(2)] Cons.prems(4,5) xs
        op_commit_scale [OF Cons.prems(2) val st1] by auto
    then show ?thesis using steps xs st1 by (auto intro: rtranclp_trans)
  qed
qed auto

text \<open>The commits of a block the node accepts are operations that are valid in the parent state.\<close>

lemma sum_case_accepts:
  "(case c of Inl e \<Rightarrow> Some (Inl e, r1) | Inr (_ :: unit) \<Rightarrow> f) = Some (Inr u, r') \<longleftrightarrow> c = Inr () \<and> f = Some (Inr u, r')"
  by (cases c) auto

lemma node_check_accepts:
  assumes "node_ContextualCheckFinalizerCommit Hash160 VerifyVote mempool p st tip view tx s r = Some (Inr u, r')"
  shows "ContextualCheckFinalizerCommit Hash160 VerifyVote mempool p st view tx s = Some (Inr u)"
  using assms by (auto simp: node_ContextualCheckFinalizerCommit_def bind_eq_Some_conv sum_case_accepts)

lemma accepted_block_ops:
  assumes "ContextualCheckBlockFinalizerCommits Hash160 VerifyVote mempool p st tip view txs s r = Some (Inr u, r')"
    and "\<forall>tx\<in>set txs. GetType tx \<noteq> Some ADMIN"
  shows "\<exists>xs. block_ops Hash160 p txs xs \<and> (\<forall>(tx, x)\<in>set xs. op_valid p st x) \<and>
    map (Some \<circ> op_address \<circ> snd) xs = map (commit_address Hash160) (filter (\<lambda>tx. IsFinalizerCommit tx = Some True) txs)"
  using assms
proof (induction txs arbitrary: r)
  case (Cons tx txs)
  obtain c where c: "IsFinalizerCommit tx = Some c" using Cons.prems(1) by (auto simp: bind_eq_Some_conv)
  show ?case
  proof (cases c)
    case False
    then show ?thesis using Cons c by force
  next
    case True
    then obtain r1 where r1: "node_ContextualCheckFinalizerCommit Hash160 VerifyVote mempool p st tip view tx s r = Some (Inr (), r1)"
        "ContextualCheckBlockFinalizerCommits Hash160 VerifyVote mempool p st tip view txs s r1 = Some (Inr u, r')"
      using Cons.prems(1) c by (auto simp: bind_eq_Some_conv sum_case_accepts)
    from node_check_accepts [OF r1(1)] obtain x where x: "op_valid p st x" "commit_address Hash160 tx = Some (op_address x)"
        "\<And>st'. ProcessNewCommit Hash160 p tx st' = op_commit p x tx st'"
      by (rule accepted_commit) (use Cons.prems(2) in auto)
    from Cons.IH [OF r1(2)] Cons.prems(2) obtain xs where "block_ops Hash160 p txs xs" "\<forall>(tx, x)\<in>set xs. op_valid p st x"
        "map (Some \<circ> op_address \<circ> snd) xs = map (commit_address Hash160) (filter (\<lambda>tx. IsFinalizerCommit tx = Some True) txs)"
      by (metis list.set_intros(2))
    then show ?thesis using x c True by (intro exI [of _ "(tx, x) # xs"]) (auto simp: comp_def)
  qed
qed auto

end
