(* ===== verification/CommitProps.thy ===== *)
theory CommitProps
  imports CommitSteps FinProps
begin

section \<open>Properties of the checks and of the vote recorder\<close>

text \<open>The composition of the checks of finalizer commits, the vote recorder and the finalization state, with concrete
  transactions of one finalizer for the witnesses.\<close>

definition demo_view :: "COutPoint \<Rightarrow> Coin option" where
  "demo_view o1 = Some \<lparr>coin_out = \<lparr>nValue = 150000000000, scriptPubKey = demo_script (if out_hash o1 = 5 then demo_key else 3 # replicate 32 9)\<rparr>,
     coin_tx_type = (if out_hash o1 = 4 then LOGOUT else DEPOSIT), coin_height = 1\<rparr>"

definition demo_checked :: "FinState \<Rightarrow> CTransaction list \<Rightarrow> bool" where
  "demo_checked st txs \<longleftrightarrow>
     map_option fst (ContextualCheckBlockFinalizerCommits demo_hash (\<lambda>_ _ _. True) (\<lambda>_. None) demo_params st st
       demo_view txs CValidationState_new VoteRecorder_empty) = Some (Inr ())"


lemma map_option_True: "map_option P x = Some True \<Longrightarrow> x = Some st \<Longrightarrow> P st"
  by simp

subsection \<open>Blocks of commits\<close>




definition spoofed_vote_tx :: CTransaction where
  "spoofed_vote_tx = (demo_commit VOTE (3 # replicate 32 9) (push_data [1] @ push_data (the (EncodeVote demo_vote [1]))) 3)
     \<lparr>vin := [\<lparr>prevout = \<lparr>out_hash = 6, out_n = 0\<rparr>, scriptSig = push_data [1] @ push_data (the (EncodeVote demo_vote [1])), nSequence = 0, scriptWitness = []\<rparr>]\<rparr>"

text \<open>C27: The address a vote names is not compared with the key that signs it: a block with a vote of one finalizer in
  the name of another is accepted, and the deposit of the other is counted for it.\<close>

theorem spoofed_vote_accepted:
  "\<exists>st st' k cp. demo_epoch4 = Some st \<and> ExtractValidatorPubkey spoofed_vote_tx = Some (Some k) \<and> demo_hash k \<noteq> 7 \<and>
     demo_checked st [spoofed_vote_tx] \<and> ProcessNewCommit demo_hash demo_params spoofed_vote_tx st = Some st' \<and>
     fmlookup (m_checkpoints st') 3 = Some cp \<and> m_vote_set cp = {|7|} \<and> m_is_justified cp"
proof -
  have key: "map_option (map_option demo_hash) (ExtractValidatorPubkey spoofed_vote_tx) = Some (Some 8)" by code_simp
  have chk: "map_option (\<lambda>st. demo_checked st [spoofed_vote_tx]) demo_epoch4 = Some True" by code_simp
  have run: "Option.bind demo_epoch4 (\<lambda>st. Option.bind (ProcessNewCommit demo_hash demo_params spoofed_vote_tx st)
      (\<lambda>st'. map_option (\<lambda>cp. (m_vote_set cp, m_is_justified cp)) (fmlookup (m_checkpoints st') 3))) = Some ({|7|}, True)" by code_simp
  obtain st where st: "demo_epoch4 = Some st" using chk by (cases demo_epoch4) auto
  show ?thesis using map_option_True [OF chk st] key run unfolding st by (auto simp: bind_eq_Some_conv)
qed

subsection \<open>Withdrawing and slashing\<close>




text \<open>The finalizer of the run logs out, votes through its last dynasty and waits until it may withdraw.\<close>

definition demo_cast :: "u256 \<Rightarrow> u32 \<Rightarrow> FinState \<Rightarrow> FinState option" where
  "demo_cast h s st = do {
     let v = \<lparr>v_validator_address = 7, m_target_hash = h, m_source_epoch = s, m_target_epoch = s + 1\<rparr>;
     require (ValidateVote st v = SUCCESS);
     ProcessVote v st
   }"

definition demo_new_epoch :: "height \<Rightarrow> u256 \<Rightarrow> u32 \<Rightarrow> FinState \<Rightarrow> FinState option" where
  "demo_new_epoch nHeight h e st =
     map_option snd (InitializeEpoch demo_params nHeight (st\<lparr>m_recommended_target_hash := h, m_recommended_target_epoch := e\<rparr>))"

definition demo_exit :: "FinState option" where
  "demo_exit = do {
     st \<leftarrow> demo_voted;
     require (ValidateLogout demo_params st 7 = SUCCESS);
     st \<leftarrow> ProcessLogout demo_params 7 st;
     st \<leftarrow> demo_new_epoch 21 88 4 st;
     st \<leftarrow> demo_cast 88 3 st;
     st \<leftarrow> demo_new_epoch 26 77 5 st;
     st \<leftarrow> demo_cast 77 4 st;
     st \<leftarrow> demo_new_epoch 31 66 6 st;
     st \<leftarrow> demo_new_epoch 36 65 7 st;
     st \<leftarrow> demo_new_epoch 41 64 8 st;
     st \<leftarrow> demo_new_epoch 46 63 9 st;
     st \<leftarrow> demo_new_epoch 51 62 10 st;
     demo_new_epoch 56 61 11 st
   }"

definition demo_withdraw_tx :: CTransaction where
  "demo_withdraw_tx = SetType WITHDRAW \<lparr>vin = [\<lparr>prevout = \<lparr>out_hash = 4, out_n = 0\<rparr>, scriptSig = push_data [1] @ push_data demo_key,
       nSequence = 0, scriptWitness = []\<rparr>],
     vout = [\<lparr>nValue = 1, scriptPubKey = CreateP2PKHScript (replicate 20 7)\<rparr>], nVersion = 1, nLockTime = 0, tx_hash = 10\<rparr>"

definition demo_slash_tx :: CTransaction where
  "demo_slash_tx = demo_commit SLASH demo_key
     (push_data (the (EncodeVote demo_vote [1])) @ push_data (the (EncodeVote (demo_vote\<lparr>m_target_hash := 98\<rparr>) [1]))) 11"

text \<open>C29: A finalizer that may withdraw may also be slashed, and one block can carry both commits, as both are checked in
  the parent state: the slash that follows the withdrawal finds no validator, and applying the accepted block aborts.\<close>

theorem withdraw_slash_block_aborts:
  "\<exists>st. demo_exit = Some st \<and> demo_checked st [demo_withdraw_tx, demo_slash_tx] \<and>
     ProcessNewCommit_loop demo_hash demo_params [demo_withdraw_tx, demo_slash_tx] st = None"
proof -
  have run: "map_option (\<lambda>st. demo_checked st [demo_withdraw_tx, demo_slash_tx] \<and>
      ProcessNewCommit_loop demo_hash demo_params [demo_withdraw_tx, demo_slash_tx] st = None) demo_exit = Some True" by code_simp
  obtain st where st: "demo_exit = Some st" using run by (cases demo_exit) auto
  show ?thesis using map_option_True [OF run st] st by blast
qed

end
