(* ===== verification/VoteSafety.thy ===== *)
theory VoteSafety
  imports FinProps VoteRecorder
begin

section \<open>Recommended votes and slashing\<close>

text \<open>The source epoch the state expects never decreases, so a validator that always casts the recommended vote never
  surrounds an earlier vote of its own.\<close>

lemma InitializeEpoch_source:
  assumes "InitializeEpoch p h st = Some (r, st')"
  shows "m_expected_source_epoch st' = m_expected_source_epoch st \<or> m_expected_source_epoch st' = m_last_justified_epoch st'"
  using assms
proof (cases rule: InitializeEpoch_cases)
  case (started st1)
  have "m_expected_source_epoch st1 = m_expected_source_epoch st"
    using started(3) unfolding epoch_started_def Let_def by (elim exE conjE) simp
  then show ?thesis using started(4) by (auto simp: InitializeEpoch_tail_def bind_eq_Some_conv)
qed simp

lemma fin_step_source:
  assumes "fin_step Hash160 p st st'" "chain_ok st"
  shows "m_expected_source_epoch st' = m_expected_source_epoch st \<or> m_expected_source_epoch st' = m_last_justified_epoch st'"
  using assms(1)
proof cases
  case epoch
  then show ?thesis by (rule InitializeEpoch_source)
next
  case (vote v)
  from vote(1) assms(2) show ?thesis
    by (rule ProcessVote_effect)
      (use vote in \<open>auto simp: carried_state_def counted_state_def voted_state_def reward_state_def set_checkpoint_def Let_def split: if_splits\<close>)
next
  case slash
  then show ?thesis using ProcessSlash_chain assms(2) unfolding same_chain_def by blast
next
  case deposit
  then show ?thesis using ProcessDeposit_chain unfolding same_chain_def by blast
next
  case logout
  then show ?thesis using ProcessLogout_chain unfolding same_chain_def by blast
next
  case admin
  then show ?thesis using ProcessAdminCommands_chain unfolding same_chain_def by blast
next
  case last_tx
  then show ?thesis using RegisterLastTx_chain unfolding same_chain_def by blast
qed (simp_all add: ProcessWithdraw_spec FinState_copy_def)

lemma source_le_justified: "chain_ok st \<Longrightarrow> m_expected_source_epoch st \<le> m_last_justified_epoch st"
  by (auto simp: chain_ok_def source_ok_def gadget_ok_def gadget_of_def g_justified_def)

lemma fin_source_grows:
  assumes "fin_ok p st" "fin_step Hash160 p st st'"
  shows "m_expected_source_epoch st \<le> m_expected_source_epoch st'"
  using fin_step_source [OF assms(2) fin_ok_chain(1) [OF assms(1)]] source_le_justified [OF fin_ok_chain(1) [OF assms(1)]]
    fin_just_grows [OF assms] by auto

interpretation fin_source: step_monotone "fin_step Hash160 p" "fin_ok p" m_expected_source_epoch for Hash160 p
  by unfold_locales (rule fin_source_grows)

text \<open>C8: A validator that casts the recommended votes of its chain can break a slashing condition only by voting for two
  different blocks at one epoch: no recommended vote surrounds another.\<close>

theorem recommended_votes_never_surround:
  assumes reach: "fin_reachable Hash160 IsFullyValid p st" and later: "(fin_step Hash160 p)\<^sup>*\<^sup>* st st'"
    and now: "m_recommended_target_epoch st = m_current_epoch st - 1" "m_current_epoch st \<noteq> 0"
      "m_recommended_target_epoch st' = m_current_epoch st' - 1"
  shows "\<not> isSurroundVote (GetRecommendedVote st a) (GetRecommendedVote st' a) \<and>
    (offends (GetRecommendedVote st a) (GetRecommendedVote st' a) \<longrightarrow>
      m_recommended_target_epoch st = m_recommended_target_epoch st' \<and> m_recommended_target_hash st \<noteq> m_recommended_target_hash st')"
proof -
  have ok: "fin_ok p st" using reach by (rule fin_reachable_ok)
  have source: "m_expected_source_epoch st \<le> m_expected_source_epoch st'" using later ok by (rule fin_source.never_decreases)
  have "m_current_epoch st \<le> m_current_epoch st'" using later ok by (rule fin_epoch.never_decreases)
  then have "m_recommended_target_epoch st \<le> m_recommended_target_epoch st'"
    using now by (simp add: word_le_nat_alt unat_sub_if' word_unat_eq_iff)
  then have "\<not> isSurroundVote (GetRecommendedVote st a) (GetRecommendedVote st' a)"
    using source by (auto simp: isSurroundVote_def GetRecommendedVote_def)
  then show ?thesis by (auto simp: offends_def isDoubleVote_def GetRecommendedVote_def)
qed

theorem recommended_votes_never_surround_witness:
  "\<exists>st. demo_epoch4 = Some st \<and> \<not> isSurroundVote (GetRecommendedVote st 7) (GetRecommendedVote demo_state 7)"
proof -
  obtain st where st: "demo_epoch4 = Some st" "ValidateVote st demo_vote = SUCCESS" "ProcessVote demo_vote st = Some demo_state"
    using demo_steps by blast
  have steps: "(fin_step (\<lambda>_. 0) demo_params)\<^sup>*\<^sup>* st demo_state" using fin_step.vote [OF st(2,3)] by blast
  have "map_option (\<lambda>st. m_recommended_target_epoch st = m_current_epoch st - 1 \<and> m_current_epoch st \<noteq> 0) demo_epoch4 = Some True"
    by code_simp
  then have now: "m_recommended_target_epoch st = m_current_epoch st - 1" "m_current_epoch st \<noteq> 0" unfolding st by simp_all
  have "m_recommended_target_epoch demo_state = m_current_epoch demo_state - 1" unfolding demo_state_def by code_simp
  then show ?thesis
    using recommended_votes_never_surround [OF demo_epoch4_reachable [OF st(1)] steps now] st(1) by blast
qed

subsection \<open>Finality without accountability\<close>

text \<open>Two continuations of one chain: in the first the block with hash 99 is the checkpoint of epoch 3 and the finalizer
  votes for it; in the second it is the block with hash 77, the finalizer misses that epoch and votes in the next two.\<close>

definition fork_base :: "FinState option" where
  "fork_base = do {
     st \<leftarrow> demo_deposit;
     (_, st) \<leftarrow> InitializeEpoch demo_params 6 st;
     (_, st) \<leftarrow> InitializeEpoch demo_params 11 st;
     Some st
   }"

definition checkpoint_block :: "u256 \<Rightarrow> u32 \<Rightarrow> FinState \<Rightarrow> FinState" where
  "checkpoint_block h e st = st\<lparr>m_recommended_target_hash := h, m_recommended_target_epoch := e\<rparr>"

definition cast_vote :: "Vote \<Rightarrow> FinState \<Rightarrow> FinState option" where
  "cast_vote v st = do { require (ValidateVote st v = SUCCESS); ProcessVote v st }"

definition fork_vote :: "u256 \<Rightarrow> u32 \<Rightarrow> u32 \<Rightarrow> Vote" where
  "fork_vote h s t = \<lparr>v_validator_address = 7, m_target_hash = h, m_source_epoch = s, m_target_epoch = t\<rparr>"

definition fork_a :: "FinState \<Rightarrow> FinState option" where
  "fork_a st = do {
     (_, st) \<leftarrow> InitializeEpoch demo_params 16 (checkpoint_block 99 3 st);
     cast_vote (fork_vote 99 2 3) st
   }"

definition fork_b :: "FinState \<Rightarrow> FinState option" where
  "fork_b st = do {
     (_, st) \<leftarrow> InitializeEpoch demo_params 16 (checkpoint_block 77 3 st);
     (_, st) \<leftarrow> InitializeEpoch demo_params 21 (checkpoint_block 88 4 st);
     st \<leftarrow> cast_vote (fork_vote 88 2 4) st;
     (_, st) \<leftarrow> InitializeEpoch demo_params 26 (checkpoint_block 66 5 st);
     cast_vote (fork_vote 66 4 5) st
   }"

text \<open>C26: The slashing conditions do not protect finality: both continuations, with different blocks at epoch 3, are
  finalized at or after that epoch by the votes of one finalizer that holds all the stake, and no two of its votes break a
  slashing condition. The target of a vote is finalized where the source would have to be.\<close>

theorem conflicting_finality_without_offence:
  "\<exists>st sta stb. fork_base = Some st \<and> fork_a st = Some sta \<and> fork_b st = Some stb \<and>
     m_last_finalized_epoch sta = 3 \<and> m_last_finalized_epoch stb = 5 \<and>
     [(v, w). v \<leftarrow> [fork_vote 99 2 3, fork_vote 88 2 4, fork_vote 66 4 5], w \<leftarrow> [fork_vote 99 2 3, fork_vote 88 2 4, fork_vote 66 4 5],
        offends v w] = []"
proof -
  have a: "Option.bind fork_base (\<lambda>st. map_option m_last_finalized_epoch (fork_a st)) = Some 3" by code_simp
  have b: "Option.bind fork_base (\<lambda>st. map_option m_last_finalized_epoch (fork_b st)) = Some 5" by code_simp
  obtain st where st: "fork_base = Some st" using a by (cases fork_base) auto
  obtain sta where sta: "fork_a st = Some sta" "m_last_finalized_epoch sta = 3" using a unfolding st by auto
  obtain stb where stb: "fork_b st = Some stb" "m_last_finalized_epoch stb = 5" using b unfolding st by auto
  have "[(v, w). v \<leftarrow> [fork_vote 99 2 3, fork_vote 88 2 4, fork_vote 66 4 5], w \<leftarrow> [fork_vote 99 2 3, fork_vote 88 2 4, fork_vote 66 4 5],
      offends v w] = []"
    by (simp add: offends_def isDoubleVote_def isSurroundVote_def fork_vote_def)
  then show ?thesis using st sta stb by blast
qed

end
