(* ===== verification/RecorderProps.thy ===== *)
theory RecorderProps
  imports VoteSafety "HOL-Library.Product_Lexorder"
begin

section \<open>Properties of the vote recorder\<close>

text \<open>What the vote recorder finds, how it survives a restart, and when it stops the node.\<close>

lemma GetVote_empty [simp]: "GetVote a e VoteRecorder_empty = None"
  by (simp add: GetVote_def VoteRecorder_empty_def)

text \<open>C10: From an empty recorder on, as long as sources lie before targets, the recorder reports a vote exactly when some
  recorded vote of the same validator breaks a slashing condition with it, and what it reports is such a vote.\<close>

theorem offending_votes_found:
  assumes "record_step\<^sup>*\<^sup>* VoteRecorder_empty r" "forward_records (v_validator_address vote) r" "m_source_epoch vote < m_target_epoch vote"
  shows "(FindOffendingVote vote r \<noteq> None \<longleftrightarrow> (\<exists>e x. GetVote (v_validator_address vote) e r = Some x \<and> offends vote (rec_vote x))) \<and>
    (\<forall>x. FindOffendingVote vote r = Some x \<longrightarrow>
       GetVote (v_validator_address vote) (m_target_epoch (rec_vote x)) r = Some x \<and> offends vote (rec_vote x))"
proof -
  have ok: "recorder_ok r" using recorder.reachable [OF assms(1) VoteRecorder_empty_ok] .
  show ?thesis using FindOffendingVote_complete [OF ok assms(2,3)] FindOffendingVote_sound [OF ok] by blast
qed

definition demo_recorder :: VoteRecorder where
  "demo_recorder = recorded demo_vote [1] VoteRecorder_empty"

lemma demo_recorder_steps: "record_step\<^sup>*\<^sup>* VoteRecorder_empty demo_recorder"
proof -
  have none: "FindOffendingVote demo_vote VoteRecorder_empty = None" by code_simp
  have "fmlookup (m_validators demo_state) (v_validator_address demo_vote) \<noteq> None" unfolding demo_state_def by code_simp
  then have "RecordVote demo_vote [1] demo_state VoteRecorder_empty = Some demo_recorder"
    by (auto simp: RecordVote_spec none demo_recorder_def)
  then show ?thesis by (auto intro: record_step.intros)
qed

theorem offending_votes_found_witness:
  "\<exists>x. FindOffendingVote (demo_vote\<lparr>m_target_hash := 98\<rparr>) demo_recorder = Some x \<and> offends (demo_vote\<lparr>m_target_hash := 98\<rparr>) (rec_vote x)"
proof -
  let ?v = "demo_vote\<lparr>m_target_hash := 98\<rparr>"
  have get: "GetVote 7 e demo_recorder = (if e = 3 then Some \<lparr>rec_vote = demo_vote, rec_sig = [1]\<rparr> else None)" for e
    by (simp add: demo_recorder_def GetVote_recorded demo_vote_def)
  have a: "v_validator_address ?v = 7" "m_source_epoch ?v < m_target_epoch ?v" by (simp_all add: demo_vote_def)
  have fwd: "forward_records 7 demo_recorder" by (auto simp: forward_records_def get demo_vote_def)
  have "offends ?v demo_vote" by (simp add: offends_def isDoubleVote_def demo_vote_def)
  then have "\<exists>e x. GetVote (v_validator_address ?v) e demo_recorder = Some x \<and> offends ?v (rec_vote x)" unfolding a(1) get by auto
  then show ?thesis using offending_votes_found [OF demo_recorder_steps fwd [folded a(1)] a(2)] by blast
qed

text \<open>C11: The recorder survives a restart: a recorder built from the database of a running one holds the same votes and
  reports the same offences, given a database cursor that yields exactly the entries.\<close>

theorem recorder_restart:
  assumes "record_step\<^sup>*\<^sup>* VoteRecorder_empty r" "faithful_cursor cursor"
  shows "\<forall>a e vote. GetVote a e (VoteRecorder_new cursor (m_db r) \<lparr>db_inmemory = False, db_wipe = False\<rparr>) = GetVote a e r \<and>
    FindOffendingVote vote (VoteRecorder_new cursor (m_db r) \<lparr>db_inmemory = False, db_wipe = False\<rparr>) = FindOffendingVote vote r"
  using LoadFromDB_restores(2,3) [OF assms(2) recorder.reachable [OF assms(1) VoteRecorder_empty_ok] refl] by blast

definition demo_cursor :: "(DBKey, VoteRecord) fmap \<Rightarrow> (DBKey option \<times> VoteRecord option) list" where
  "demo_cursor m = map (\<lambda>(k, x). (Some k, Some x)) (sorted_list_of_fmap m)"

theorem recorder_restart_witness:
  "GetVote 7 3 (VoteRecorder_new demo_cursor (m_db demo_recorder) \<lparr>db_inmemory = False, db_wipe = False\<rparr>) = GetVote 7 3 demo_recorder"
proof -
  have "faithful_cursor demo_cursor"
    by (auto simp: faithful_cursor_def demo_cursor_def set_sorted_list_of_fmap image_iff split: prod.splits)
  then show ?thesis using recorder_restart [OF demo_recorder_steps] by blast
qed

text \<open>C30: A slashed finalizer can stop every node: a second vote of it for an epoch it has voted in, with another target,
  fails the assertion at the end of \<^verbatim>\<open>RecordVote\<close>.\<close>

theorem second_offence_aborts:
  assumes "record_step\<^sup>*\<^sup>* VoteRecorder_empty r" "GetVote (v_validator_address vote) (m_target_epoch vote) r = Some x"
    and "m_target_hash vote \<noteq> m_target_hash (rec_vote x)"
    and "fmlookup (m_validators st) (v_validator_address vote) = Some v" "m_is_slashed v"
  shows "RecordVote vote sig st r = None"
proof -
  have ok: "recorder_ok r" using recorder.reachable [OF assms(1) VoteRecorder_empty_ok] .
  have cache: "voteCache r = fmempty" using ok by (simp add: recorder_ok_def)
  have "FindOffendingVote vote r = Some x"
    using assms(2,3) cache by (auto simp: FindOffendingVote_def GetVote_def split: option.splits)
  moreover have "v_validator_address (rec_vote x) = v_validator_address vote" using recorder_okD [OF ok assms(2)] by simp
  ultimately show ?thesis using assms(4,5) by (auto simp: RecordVote_spec IsSlashable_def)
qed

theorem second_offence_aborts_witness:
  "\<exists>st'. ProcessSlash demo_vote (demo_vote\<lparr>m_target_hash := 98\<rparr>) demo_state = Some st' \<and>
     RecordVote (demo_vote\<lparr>m_target_hash := 98\<rparr>) [2] st' demo_recorder = None"
proof -
  let ?v = "demo_vote\<lparr>m_target_hash := 98\<rparr>"
  have run: "map_option (\<lambda>st. map_option m_is_slashed (fmlookup (m_validators st) 7)) (ProcessSlash demo_vote ?v demo_state) = Some (Some True)"
    unfolding demo_state_def by code_simp
  then obtain st' v where st': "ProcessSlash demo_vote ?v demo_state = Some st'" "fmlookup (m_validators st') 7 = Some v" "m_is_slashed v" by auto
  have get: "GetVote (v_validator_address ?v) (m_target_epoch ?v) demo_recorder = Some \<lparr>rec_vote = demo_vote, rec_sig = [1]\<rparr>"
    by (simp add: demo_recorder_def GetVote_recorded)
  have "m_target_hash ?v \<noteq> m_target_hash (rec_vote \<lparr>rec_vote = demo_vote, rec_sig = [1]\<rparr>)" "v_validator_address ?v = 7"
    by (simp_all add: demo_vote_def)
  then show ?thesis using second_offence_aborts [OF demo_recorder_steps get] st' by metis
qed

end
