(* ===== verification/Block.thy ===== *)
theory Block
  imports Primitives "HOL-Library.List_Lexorder"
begin

section \<open>Blocks, merkle trees and the order of transactions\<close>

text \<open>
  \<^verbatim>\<open>primitives/block.h\<close> and \<^verbatim>\<open>block.cpp\<close>, \<^verbatim>\<open>consensus/merkle.cpp\<close> and \<^verbatim>\<open>consensus/ltor.cpp\<close>. The double
  SHA256 of the serialized bytes is the parameter \<open>Hash\<close>, the double SHA256 of two concatenated hashes the parameter
  \<open>D64\<close>, and the hash of a transaction with its witnesses the parameter \<open>SerializeHash\<close>. The fields of a header carry the
  prefix \<open>h_\<close>.
\<close>

record CBlockHeader =
  h_nVersion :: u32
  h_hashPrevBlock :: u256
  h_hashMerkleRoot :: u256
  h_hash_witness_merkle_root :: u256
  h_hash_finalizer_commits_merkle_root :: u256
  h_nTime :: u32
  h_nBits :: u32

definition CBlockHeader_null :: CBlockHeader where
  "CBlockHeader_null = \<lparr>h_nVersion = 0, h_hashPrevBlock = 0, h_hashMerkleRoot = 0, h_hash_witness_merkle_root = 0,
     h_hash_finalizer_commits_merkle_root = 0, h_nTime = 0, h_nBits = 0\<rparr>"

definition header_IsNull :: "CBlockHeader \<Rightarrow> bool" where
  "header_IsNull h \<longleftrightarrow> h_nBits h = 0"

definition serialize_header :: "CBlockHeader \<Rightarrow> bytes" where
  "serialize_header h = WriteLE32 (h_nVersion h) @ bytes_of_uint256 (h_hashPrevBlock h) @ bytes_of_uint256 (h_hashMerkleRoot h) @
     bytes_of_uint256 (h_hash_witness_merkle_root h) @ bytes_of_uint256 (h_hash_finalizer_commits_merkle_root h) @
     WriteLE32 (h_nTime h) @ WriteLE32 (h_nBits h)"

definition header_GetHash :: "(bytes \<Rightarrow> u256) \<Rightarrow> CBlockHeader \<Rightarrow> u256" where
  "header_GetHash Hash h = Hash (serialize_header h)"

text \<open>The fields of the header, the base class, are \<open>header\<close>; \<open>GetBlockHeader\<close> is that field.\<close>

record CBlock =
  header :: CBlockHeader
  vtx :: "CTransaction list"
  signature :: bytes
  fChecked :: bool

definition CBlock_null :: CBlock where
  "CBlock_null = \<lparr>header = CBlockHeader_null, vtx = [], signature = [], fChecked = False\<rparr>"

definition CBlock_of :: "CBlockHeader \<Rightarrow> CBlock" where
  "CBlock_of h = CBlock_null\<lparr>header := h\<rparr>"

definition GetStakingInput :: "CBlock \<Rightarrow> CTxIn option" where
  "GetStakingInput b = do {
     require (vtx b \<noteq> []);
     require (length (vin (vtx b ! 0)) \<ge> 2);
     Some (vin (vtx b ! 0) ! 1)
   }"

subsection \<open>Merkle roots\<close>

fun pair_mutation :: "u256 list \<Rightarrow> bool" where
  "pair_mutation (a # b # r) \<longleftrightarrow> a = b \<or> pair_mutation r"
| "pair_mutation _ \<longleftrightarrow> False"

fun SHA256D64 :: "(u256 \<Rightarrow> u256 \<Rightarrow> u256) \<Rightarrow> u256 list \<Rightarrow> u256 list" where
  "SHA256D64 D64 (a # b # r) = D64 a b # SHA256D64 D64 r"
| "SHA256D64 D64 _ = []"

definition push_odd :: "u256 list \<Rightarrow> u256 list" where
  "push_odd hashes = (if odd (length hashes) then hashes @ [last hashes] else hashes)"

lemma length_SHA256D64: "length (SHA256D64 D64 xs) = length xs div 2"
  by (induction D64 xs rule: SHA256D64.induct) simp_all

lemma length_level: "length (SHA256D64 D64 (push_odd xs)) = (length xs + 1) div 2"
  by (simp add: length_SHA256D64 push_odd_def)

lemma level_shorter: "1 < length xs \<Longrightarrow> length (SHA256D64 D64 (push_odd xs)) < length xs"
  by (simp add: length_level)

function ComputeMerkleRoot_loop :: "(u256 \<Rightarrow> u256 \<Rightarrow> u256) \<Rightarrow> bool \<Rightarrow> u256 list \<Rightarrow> u256 \<times> bool" where
  "ComputeMerkleRoot_loop D64 mutation hashes =
     (if length hashes > 1
      then ComputeMerkleRoot_loop D64 (mutation \<or> pair_mutation hashes) (SHA256D64 D64 (push_odd hashes))
      else (if hashes = [] then 0 else hashes ! 0, mutation))"
  by pat_completeness auto

termination ComputeMerkleRoot_loop
  by (relation "measure (\<lambda>(_, _, hashes). length hashes)") (auto intro: level_shorter)

declare ComputeMerkleRoot_loop.simps [simp del]

definition ComputeMerkleRoot :: "(u256 \<Rightarrow> u256 \<Rightarrow> u256) \<Rightarrow> u256 list \<Rightarrow> u256 \<times> bool" where
  "ComputeMerkleRoot D64 hashes = ComputeMerkleRoot_loop D64 False hashes"

definition ComputeWitnessHash :: "(CTransaction \<Rightarrow> u256) \<Rightarrow> CTransaction \<Rightarrow> u256" where
  "ComputeWitnessHash SerializeHash tx = (if \<not> HasWitness tx then tx_hash tx else SerializeHash tx)"

definition BlockMerkleRoot :: "(u256 \<Rightarrow> u256 \<Rightarrow> u256) \<Rightarrow> CTransaction list \<Rightarrow> u256 \<times> bool" where
  "BlockMerkleRoot D64 txs = ComputeMerkleRoot D64 (map tx_hash txs)"

fun commit_leaves :: "CTransaction list \<Rightarrow> u256 list option" where
  "commit_leaves [] = Some []"
| "commit_leaves (tx # r) = do {
     c \<leftarrow> IsFinalizerCommit tx;
     leaves \<leftarrow> commit_leaves r;
     Some (if c then tx_hash tx # leaves else leaves)
   }"

definition BlockFinalizerCommitsMerkleRoot :: "(u256 \<Rightarrow> u256 \<Rightarrow> u256) \<Rightarrow> CTransaction list \<Rightarrow> (u256 \<times> bool) option" where
  "BlockFinalizerCommitsMerkleRoot D64 txs = map_option (ComputeMerkleRoot D64) (commit_leaves txs)"

definition BlockWitnessMerkleRoot :: "(u256 \<Rightarrow> u256 \<Rightarrow> u256) \<Rightarrow> (CTransaction \<Rightarrow> u256) \<Rightarrow> CTransaction list \<Rightarrow> u256 \<times> bool" where
  "BlockWitnessMerkleRoot D64 SerializeHash txs = ComputeMerkleRoot D64 (map (ComputeWitnessHash SerializeHash) txs)"

definition ComputeMerkleTrees :: "(u256 \<Rightarrow> u256 \<Rightarrow> u256) \<Rightarrow> (CTransaction \<Rightarrow> u256) \<Rightarrow> CBlock \<Rightarrow> CBlock option" where
  "ComputeMerkleTrees D64 SerializeHash b = do {
     let (root, mutated) = BlockMerkleRoot D64 (vtx b);
     require (\<not> mutated);
     (commits_root, _) \<leftarrow> BlockFinalizerCommitsMerkleRoot D64 (vtx b);
     let (witness_root, mutated) = BlockWitnessMerkleRoot D64 SerializeHash (vtx b);
     require (\<not> mutated);
     Some (b\<lparr>header := (header b)\<lparr>h_hashMerkleRoot := root, h_hash_finalizer_commits_merkle_root := commits_root,
       h_hash_witness_merkle_root := witness_root\<rparr>\<rparr>)
   }"

subsection \<open>The order of transactions\<close>

text \<open>\<^verbatim>\<open>CompareAsNumber\<close> goes over the bytes from the last to the first.\<close>

fun CompareAsNumber_loop :: "bytes \<Rightarrow> bytes \<Rightarrow> int" where
  "CompareAsNumber_loop (a # r) (b # s) = (if a > b then 1 else if a < b then - 1 else CompareAsNumber_loop r s)"
| "CompareAsNumber_loop _ _ = 0"

definition CompareAsNumber :: "u256 \<Rightarrow> u256 \<Rightarrow> int" where
  "CompareAsNumber a b = CompareAsNumber_loop (rev (bytes_of_uint256 a)) (rev (bytes_of_uint256 b))"

text \<open>\<^verbatim>\<open>std::sort\<close> does not say how it orders transactions that compare equal; here they keep their order.\<close>

definition number_key :: "CTransaction \<Rightarrow> bytes" where
  "number_key tx = rev (bytes_of_uint256 (tx_hash tx))"

definition SortTransactions :: "CTransaction list \<Rightarrow> CTransaction list" where
  "SortTransactions txs = (if length txs \<le> 2 then txs else hd txs # sort_key number_key (tl txs))"

lemma CompareAsNumber_loop_less: "length xs = length ys \<Longrightarrow> CompareAsNumber_loop xs ys < 0 \<longleftrightarrow> xs < ys"
  by (induction xs ys rule: CompareAsNumber_loop.induct) (auto simp: not_less)

lemma CompareAsNumber_less: "CompareAsNumber (tx_hash a) (tx_hash b) < 0 \<longleftrightarrow> number_key a < number_key b"
  by (simp add: CompareAsNumber_def number_key_def CompareAsNumber_loop_less)

subsection \<open>Equal roots\<close>

text \<open>The number of levels of the tree over \<open>n\<close> leaves, the pairs that are hashed in a tree, and two pairs on which
  \<open>D64\<close> collides.\<close>

function merkle_levels :: "nat \<Rightarrow> nat" where
  "merkle_levels n = (if n > 1 then Suc (merkle_levels ((n + 1) div 2)) else 0)"
  by pat_completeness auto

termination merkle_levels
  by (relation "measure id") auto

declare merkle_levels.simps [simp del]

fun level_pairs :: "u256 list \<Rightarrow> (u256 \<times> u256) list" where
  "level_pairs (a # b # r) = (a, b) # level_pairs r"
| "level_pairs _ = []"

function merkle_pairs :: "(u256 \<Rightarrow> u256 \<Rightarrow> u256) \<Rightarrow> u256 list \<Rightarrow> (u256 \<times> u256) list" where
  "merkle_pairs D64 hashes =
     (if length hashes > 1
      then level_pairs (push_odd hashes) @ merkle_pairs D64 (SHA256D64 D64 (push_odd hashes)) else [])"
  by pat_completeness auto

termination merkle_pairs
  by (relation "measure (\<lambda>(_, hashes). length hashes)") (auto intro: level_shorter)

declare merkle_pairs.simps [simp del]

definition collision :: "(u256 \<Rightarrow> u256 \<Rightarrow> u256) \<Rightarrow> u256 \<times> u256 \<Rightarrow> u256 \<times> u256 \<Rightarrow> bool" where
  "collision D64 p q \<longleftrightarrow> p \<noteq> q \<and> case_prod D64 p = case_prod D64 q"

lemma push_odd_Cons2: "push_odd (a # b # r) = a # b # push_odd r"
  by (simp add: push_odd_def)

lemma push_odd_single: "push_odd [a] = [a, a]"
  by (simp add: push_odd_def)

lemma push_odd_Nil: "push_odd [] = []"
  by (simp add: push_odd_def)

lemmas push_odd_simps = push_odd_Cons2 push_odd_single push_odd_Nil

lemma pair_cases:
  obtains (pair) a b r where "xs = a # b # r" | (none) "xs = []" | (one) a where "xs = [a]"
  by (metis neq_Nil_conv)

lemma pair_induct [case_names pair none one]:
  "(\<And>a b r. P r \<Longrightarrow> P (a # b # r)) \<Longrightarrow> P [] \<Longrightarrow> (\<And>a. P [a]) \<Longrightarrow> P xs"
  by (induction_schema, pat_completeness, lexicographic_order)

lemma level_eq:
  assumes "SHA256D64 D64 (push_odd xs) = SHA256D64 D64 (push_odd ys)" "\<not> pair_mutation xs" "\<not> pair_mutation ys"
    and "\<forall>p\<in>set (level_pairs (push_odd xs)). \<forall>q\<in>set (level_pairs (push_odd ys)). \<not> collision D64 p q"
  shows "xs = ys"
  using assms
proof (induction xs arbitrary: ys rule: pair_induct)
  case (pair a b r)
  show ?case
  proof (cases ys rule: pair_cases)
    case two: (pair c d t)
    have eq: "D64 a b = D64 c d" "SHA256D64 D64 (push_odd r) = SHA256D64 D64 (push_odd t)"
      using pair.prems(1) unfolding two push_odd_simps by simp_all
    have "\<not> collision D64 (a, b) (c, d)" using pair.prems(4) unfolding two push_odd_simps by simp
    then have "a = c" "b = d" using eq(1) by (simp_all add: collision_def)
    moreover have "r = t"
      by (rule pair.IH [OF eq(2)]) (use pair.prems(2-4) in \<open>simp_all add: two push_odd_simps\<close>)
    ultimately show ?thesis by (simp add: two)
  next
    case none
    then show ?thesis using pair.prems by (simp add: push_odd_simps)
  next
    case single: (one c)
    have "D64 a b = D64 c c" using pair.prems(1) unfolding single push_odd_simps by simp
    moreover have "\<not> collision D64 (a, b) (c, c)" using pair.prems(4) unfolding single push_odd_simps by simp
    ultimately show ?thesis using pair.prems(2) by (simp add: collision_def)
  qed
next
  case none
  then show ?case by (cases ys rule: pair_cases) (simp_all add: push_odd_simps)
next
  case (one a)
  show ?case
  proof (cases ys rule: pair_cases)
    case two: (pair c d t)
    have "D64 a a = D64 c d" using one.prems(1) unfolding two push_odd_simps by simp
    moreover have "\<not> collision D64 (a, a) (c, d)" using one.prems(4) unfolding two push_odd_simps by simp
    ultimately show ?thesis using one.prems(3) two by (simp add: collision_def)
  next
    case none
    then show ?thesis using one.prems(1) by (simp add: push_odd_simps)
  next
    case single: (one c)
    then show ?thesis using one.prems(1,4) by (simp add: push_odd_simps collision_def)
  qed
qed

lemma mutation_kept: "mutation \<Longrightarrow> snd (ComputeMerkleRoot_loop D64 mutation xs)"
  by (induction D64 mutation xs rule: ComputeMerkleRoot_loop.induct) (subst ComputeMerkleRoot_loop.simps, simp)

text \<open>One round of the loop, on a list with more than one hash.\<close>

lemma root_step:
  assumes "length xs > 1" "ComputeMerkleRoot_loop D64 m xs = (root, False)"
  shows "ComputeMerkleRoot_loop D64 (m \<or> pair_mutation xs) (SHA256D64 D64 (push_odd xs)) = (root, False)" "\<not> pair_mutation xs"
proof -
  show step: "ComputeMerkleRoot_loop D64 (m \<or> pair_mutation xs) (SHA256D64 D64 (push_odd xs)) = (root, False)"
    using assms by (subst (asm) ComputeMerkleRoot_loop.simps) simp
  show "\<not> pair_mutation xs" using mutation_kept [of "m \<or> pair_mutation xs"] step by (metis snd_conv)
qed

lemma levels_gt_1: "merkle_levels n = merkle_levels k \<Longrightarrow> n > 1 \<Longrightarrow> k > 1"
  by (subst (asm) (1 2) merkle_levels.simps) (simp split: if_splits)

lemma levels_step: "merkle_levels n = merkle_levels k \<Longrightarrow> n > 1 \<Longrightarrow> merkle_levels ((n + 1) div 2) = merkle_levels ((k + 1) div 2)"
  by (frule levels_gt_1, assumption) (subst (asm) (1 2) merkle_levels.simps, simp)

lemma same_root_same_leaves:
  assumes "ComputeMerkleRoot_loop D64 m xs = (root, False)" "ComputeMerkleRoot_loop D64 m' ys = (root, False)"
    and "merkle_levels (length xs) = merkle_levels (length ys)" "xs \<noteq> []" "ys \<noteq> []"
    and "\<forall>p\<in>set (merkle_pairs D64 xs). \<forall>q\<in>set (merkle_pairs D64 ys). \<not> collision D64 p q"
  shows "xs = ys"
  using assms
proof (induction "length xs" arbitrary: m m' xs ys rule: less_induct)
  case less
  let ?up = "\<lambda>zs. SHA256D64 D64 (push_odd zs)"
  show ?case
  proof (cases "length xs > 1")
    case True
    then have long: "length ys > 1" using levels_gt_1 [OF less.prems(3)] by blast
    have pairs: "merkle_pairs D64 xs = level_pairs (push_odd xs) @ merkle_pairs D64 (?up xs)"
      "merkle_pairs D64 ys = level_pairs (push_odd ys) @ merkle_pairs D64 (?up ys)"
      using True long by (simp_all add: merkle_pairs.simps [of D64 xs] merkle_pairs.simps [of D64 ys])
    have ne: "?up xs \<noteq> []" "?up ys \<noteq> []" using True long length_level [of D64 xs] length_level [of D64 ys] by force+
    have "?up xs = ?up ys"
    proof (rule less.hyps)
      show "length (?up xs) < length xs" using True by (simp add: length_level)
      show "merkle_levels (length (?up xs)) = merkle_levels (length (?up ys))"
        using levels_step [OF less.prems(3) True] by (simp add: length_level)
      show "\<forall>p\<in>set (merkle_pairs D64 (?up xs)). \<forall>q\<in>set (merkle_pairs D64 (?up ys)). \<not> collision D64 p q"
        using less.prems(6) unfolding pairs by simp
    qed (use root_step(1) [OF True less.prems(1)] root_step(1) [OF long less.prems(2)] ne in \<open>blast+\<close>)
    then show ?thesis
      by (rule level_eq) (use root_step(2) [OF True less.prems(1)] root_step(2) [OF long less.prems(2)] less.prems(6) in \<open>simp_all add: pairs\<close>)
  next
    case False
    moreover have "\<not> length ys > 1" using False levels_gt_1 [OF less.prems(3) [symmetric]] by blast
    ultimately obtain x y where "xs = [x]" "ys = [y]"
      using less.prems(4,5) by (cases xs; cases ys) (auto simp: not_less)
    then show ?thesis using less.prems(1,2) by (simp add: ComputeMerkleRoot_loop.simps)
  qed
qed

end
