(* ===== verification/Chain.thy ===== *)
theory Chain
  imports Block
begin

section \<open>The block index and the active chain\<close>

text \<open>
  \<^verbatim>\<open>chain.h\<close> and \<^verbatim>\<open>chain.cpp\<close>. A \<^verbatim>\<open>CBlockIndex *\<close> is a \<open>ptr\<close>, the objects are a store \<open>mem\<close> from pointers to
  records, and the null pointer is \<^const>\<open>None\<close>. Heights are natural numbers (the sources use \<^verbatim>\<open>int\<close> and never make
  one negative); a height that is passed in is an integer. The outer option of a function is an abnormal end, a failed
  assertion or an access past the end of a vector.
\<close>

type_synonym ptr = nat

record CBlockIndex =
  phashBlock :: "u256 option"
  pprev :: "ptr option"
  pskip :: "ptr option"
  nHeight :: nat
  nFile :: u32
  nDataPos :: u32
  nUndoPos :: u32
  nChainWork :: base_uint
  stake_amount :: amount
  nTx :: u32
  nChainTx :: u32
  nStatus :: u32
  index_nVersion :: u32
  hashMerkleRoot :: u256
  hash_witness_merkle_root :: u256
  hash_finalizer_commits_merkle_root :: u256
  nTime :: u32
  nBits :: u32
  nSequenceId :: u32
  nTimeMax :: u32
  stake_modifier :: u256
  commits :: "CTransaction list option"
  last_justified_epoch :: u32
  forking_before_active_finalization :: bool

type_synonym mem = "ptr \<Rightarrow> CBlockIndex"

definition CBlockIndex_null :: CBlockIndex where
  "CBlockIndex_null = \<lparr>phashBlock = None, pprev = None, pskip = None, nHeight = 0, nFile = 0, nDataPos = 0, nUndoPos = 0,
     nChainWork = base_uint0, stake_amount = 0, nTx = 0, nChainTx = 0, nStatus = 0, index_nVersion = 0, hashMerkleRoot = 0,
     hash_witness_merkle_root = 0, hash_finalizer_commits_merkle_root = 0, nTime = 0, nBits = 0, nSequenceId = 0, nTimeMax = 0,
     stake_modifier = 0, commits = None, last_justified_epoch = 0, forking_before_active_finalization = False\<rparr>"

definition CBlockIndex_of :: "CBlockHeader \<Rightarrow> CBlockIndex" where
  "CBlockIndex_of block = CBlockIndex_null\<lparr>index_nVersion := h_nVersion block, hashMerkleRoot := h_hashMerkleRoot block,
     hash_witness_merkle_root := h_hash_witness_merkle_root block,
     hash_finalizer_commits_merkle_root := h_hash_finalizer_commits_merkle_root block,
     nTime := h_nTime block, nBits := h_nBits block\<rparr>"

definition GetBlockHash :: "mem \<Rightarrow> ptr \<Rightarrow> u256 option" where
  "GetBlockHash mem b = phashBlock (mem b)"

definition index_GetBlockHeader :: "mem \<Rightarrow> ptr \<Rightarrow> CBlockHeader option" where
  "index_GetBlockHeader mem b = do {
     prev \<leftarrow> (case pprev (mem b) of None \<Rightarrow> Some 0 | Some q \<Rightarrow> GetBlockHash mem q);
     Some \<lparr>h_nVersion = index_nVersion (mem b), h_hashPrevBlock = prev, h_hashMerkleRoot = hashMerkleRoot (mem b),
       h_hash_witness_merkle_root = hash_witness_merkle_root (mem b),
       h_hash_finalizer_commits_merkle_root = hash_finalizer_commits_merkle_root (mem b),
       h_nTime = nTime (mem b), h_nBits = nBits (mem b)\<rparr>
   }"

record CDiskBlockPos =
  pos_nFile :: u32
  pos_nPos :: u32

definition CDiskBlockPos_null :: CDiskBlockPos where
  "CDiskBlockPos_null = \<lparr>pos_nFile = - 1, pos_nPos = 0\<rparr>"

definition CDiskBlockPos_IsNull :: "CDiskBlockPos \<Rightarrow> bool" where
  "CDiskBlockPos_IsNull p \<longleftrightarrow> pos_nFile p = - 1"

subsection \<open>Status\<close>

definition BLOCK_VALID_MASK :: u32 where
  "BLOCK_VALID_MASK = 1 OR 2 OR 3 OR 4 OR 5"

definition BLOCK_HAVE_DATA :: u32 where
  "BLOCK_HAVE_DATA = 8"

definition BLOCK_HAVE_UNDO :: u32 where
  "BLOCK_HAVE_UNDO = 16"

definition BLOCK_FAILED_VALID :: u32 where
  "BLOCK_FAILED_VALID = 32"

definition BLOCK_FAILED_CHILD :: u32 where
  "BLOCK_FAILED_CHILD = 64"

definition BLOCK_FAILED_MASK :: u32 where
  "BLOCK_FAILED_MASK = BLOCK_FAILED_VALID OR BLOCK_FAILED_CHILD"

definition BLOCK_OPT_WITNESS :: u32 where
  "BLOCK_OPT_WITNESS = 128"

definition GetBlockPos :: "CBlockIndex \<Rightarrow> CDiskBlockPos" where
  "GetBlockPos b = (if nStatus b AND BLOCK_HAVE_DATA \<noteq> 0 then \<lparr>pos_nFile = nFile b, pos_nPos = nDataPos b\<rparr>
     else CDiskBlockPos_null)"

definition GetUndoPos :: "CBlockIndex \<Rightarrow> CDiskBlockPos" where
  "GetUndoPos b = (if nStatus b AND BLOCK_HAVE_UNDO \<noteq> 0 then \<lparr>pos_nFile = nFile b, pos_nPos = nUndoPos b\<rparr>
     else CDiskBlockPos_null)"

definition index_IsValid :: "u32 \<Rightarrow> CBlockIndex \<Rightarrow> bool option" where
  "index_IsValid nUpTo b = do {
     require (nUpTo AND NOT BLOCK_VALID_MASK = 0);
     Some (if nStatus b AND BLOCK_FAILED_MASK \<noteq> 0 then False else nUpTo \<le> nStatus b AND BLOCK_VALID_MASK)
   }"

definition RaiseValidity :: "u32 \<Rightarrow> CBlockIndex \<Rightarrow> (bool \<times> CBlockIndex) option" where
  "RaiseValidity nUpTo b = do {
     require (nUpTo AND NOT BLOCK_VALID_MASK = 0);
     Some (if nStatus b AND BLOCK_FAILED_MASK \<noteq> 0 then (False, b)
       else if nStatus b AND BLOCK_VALID_MASK < nUpTo
       then (True, b\<lparr>nStatus := (nStatus b AND NOT BLOCK_VALID_MASK) OR nUpTo\<rparr>) else (False, b))
   }"

subsection \<open>The skip list\<close>

definition InvertLowestOne :: "nat \<Rightarrow> nat" where
  "InvertLowestOne n = n AND (n - 1)"

definition GetSkipHeight :: "nat \<Rightarrow> nat" where
  "GetSkipHeight height =
     (if height < 2 then 0
      else if height AND 1 \<noteq> 0 then InvertLowestOne (InvertLowestOne (height - 1)) + 1 else InvertLowestOne height)"

lemma and_pred_less: "0 < n \<Longrightarrow> n AND (n - 1) < (n :: nat)"
proof -
  assume "0 < n"
  have "int (n AND (n - 1)) \<le> int (n - 1)" unfolding of_nat_and_eq by (rule AND_upper2) simp
  then show ?thesis using \<open>0 < n\<close> by simp
qed

lemma InvertLowestOne_less: "0 < n \<Longrightarrow> InvertLowestOne n < n"
  unfolding InvertLowestOne_def by (rule and_pred_less)

lemma InvertLowestOne_le: "InvertLowestOne n \<le> n"
  using InvertLowestOne_less [of n] by (cases "n = 0") (simp_all add: InvertLowestOne_def)

lemma GetSkipHeight_less: "0 < n \<Longrightarrow> GetSkipHeight n < n"
proof -
  assume n: "0 < n"
  show ?thesis
  proof (cases "n < 2")
    case False
    then have "InvertLowestOne (InvertLowestOne (n - 1)) < n - 1"
      using InvertLowestOne_le [of "InvertLowestOne (n - 1)"] InvertLowestOne_less [of "n - 1"] by simp
    then have "InvertLowestOne (InvertLowestOne (n - 1)) + 1 < n" by linarith
    then show ?thesis using False InvertLowestOne_less [OF n] by (simp add: GetSkipHeight_def)
  qed (use n in \<open>simp add: GetSkipHeight_def\<close>)
qed

text \<open>The test whether to follow \<^verbatim>\<open>pskip\<close>.\<close>

definition use_skip :: "nat \<Rightarrow> nat \<Rightarrow> CBlockIndex \<Rightarrow> bool" where
  "use_skip height heightWalk b =
     (let heightSkip = GetSkipHeight heightWalk; heightSkipPrev = GetSkipHeight (heightWalk - 1) in
      pskip b \<noteq> None \<and>
      (heightSkip = height \<or>
       (heightSkip > height \<and> \<not> (int heightSkipPrev < int heightSkip - 2 \<and> heightSkipPrev \<ge> height))))"

function GetAncestor_loop :: "mem \<Rightarrow> nat \<Rightarrow> ptr \<Rightarrow> nat \<Rightarrow> ptr option" where
  "GetAncestor_loop mem height pindexWalk heightWalk =
     (if heightWalk > height then
        if use_skip height heightWalk (mem pindexWalk)
        then GetAncestor_loop mem height (the (pskip (mem pindexWalk))) (GetSkipHeight heightWalk)
        else (case pprev (mem pindexWalk) of
                None \<Rightarrow> None
              | Some q \<Rightarrow> GetAncestor_loop mem height q (heightWalk - 1))
      else Some pindexWalk)"
  by pat_completeness auto

termination GetAncestor_loop
  by (relation "measure (\<lambda>(_, _, _, heightWalk). heightWalk)") (auto intro: GetSkipHeight_less)

declare GetAncestor_loop.simps [simp del]

definition GetAncestor :: "mem \<Rightarrow> int \<Rightarrow> ptr \<Rightarrow> ptr option option" where
  "GetAncestor mem height this =
     (if height > int (nHeight (mem this)) \<or> height < 0 then Some None
      else map_option Some (GetAncestor_loop mem (nat height) this (nHeight (mem this))))"

definition BuildSkip :: "mem \<Rightarrow> ptr \<Rightarrow> mem option" where
  "BuildSkip mem this =
     (case pprev (mem this) of
        None \<Rightarrow> Some mem
      | Some q \<Rightarrow> do {
          a \<leftarrow> GetAncestor mem (int (GetSkipHeight (nHeight (mem this)))) q;
          Some (mem(this := (mem this)\<lparr>pskip := a\<rparr>))
        })"

subsection \<open>Times and work\<close>

definition nMedianTimeSpan :: nat where
  "nMedianTimeSpan = 11"

fun past_times :: "mem \<Rightarrow> nat \<Rightarrow> ptr option \<Rightarrow> u32 list" where
  "past_times mem 0 pindex = []"
| "past_times mem (Suc i) None = []"
| "past_times mem (Suc i) (Some b) = nTime (mem b) # past_times mem i (pprev (mem b))"

definition GetMedianTimePast :: "mem \<Rightarrow> ptr \<Rightarrow> u32" where
  "GetMedianTimePast mem this = (let pmedian = sort (past_times mem nMedianTimeSpan (Some this)) in pmedian ! (length pmedian div 2))"

definition GetBlockProof :: "CBlockIndex \<Rightarrow> base_uint option" where
  "GetBlockProof block =
     (case SetCompact (nBits block) of (bnTarget, fNegative, fOverflow) \<Rightarrow>
        if fNegative \<or> fOverflow \<or> EqualTo bnTarget 0 then Some (of_u64 0)
        else do {
          q \<leftarrow> op_div (op_not bnTarget) (op_add bnTarget (of_u64 1));
          Some (op_add q (of_u64 1))
        })"

text \<open>The result is a signed 64 bit number; \<open>nPowTargetSpacing\<close> is the field of the consensus parameters.\<close>

definition GetBlockProofEquivalentTime :: "u64 \<Rightarrow> CBlockIndex \<Rightarrow> CBlockIndex \<Rightarrow> CBlockIndex \<Rightarrow> u64 option" where
  "GetBlockProofEquivalentTime nPowTargetSpacing to1 from1 tip =
     (let (r, sign) = (if CompareTo (nChainWork to1) (nChainWork from1) > 0
                       then (op_sub (nChainWork to1) (nChainWork from1), 1 :: u64)
                       else (op_sub (nChainWork from1) (nChainWork to1), - 1)) in do {
        proof1 \<leftarrow> GetBlockProof tip;
        r \<leftarrow> op_div (op_mul r (of_u64 nPowTargetSpacing)) proof1;
        Some (if bits r > 63 then sign * (2 ^ 63 - 1) else sign * GetLow64 r)
      })"

subsection \<open>The active chain\<close>

type_synonym CChain = "ptr option list"

definition chain_Genesis :: "CChain \<Rightarrow> ptr option" where
  "chain_Genesis vChain = (if length vChain > 0 then vChain ! 0 else None)"

definition chain_Tip :: "CChain \<Rightarrow> ptr option" where
  "chain_Tip vChain = (if length vChain > 0 then vChain ! (length vChain - 1) else None)"

definition chain_at :: "CChain \<Rightarrow> int \<Rightarrow> ptr option" where
  "chain_at vChain h = (if h < 0 \<or> h \<ge> int (length vChain) then None else vChain ! nat h)"

definition chain_Contains :: "mem \<Rightarrow> CChain \<Rightarrow> ptr \<Rightarrow> bool" where
  "chain_Contains mem vChain pindex \<longleftrightarrow> chain_at vChain (int (nHeight (mem pindex))) = Some pindex"

definition chain_Next :: "mem \<Rightarrow> CChain \<Rightarrow> ptr \<Rightarrow> ptr option" where
  "chain_Next mem vChain pindex =
     (if chain_Contains mem vChain pindex then chain_at vChain (int (nHeight (mem pindex)) + 1) else None)"

definition chain_Height :: "CChain \<Rightarrow> int" where
  "chain_Height vChain = int (length vChain) - 1"

text \<open>\<^verbatim>\<open>operator==\<close>: two empty chains read the element before the first.\<close>

definition chain_eq :: "CChain \<Rightarrow> CChain \<Rightarrow> bool option" where
  "chain_eq a b = (if length a = length b
     then do { require (a \<noteq> []); Some (a ! (length a - 1) = b ! (length b - 1)) } else Some False)"

definition resize :: "nat \<Rightarrow> CChain \<Rightarrow> CChain" where
  "resize n vChain = take n vChain @ replicate (n - length vChain) None"

text \<open>The loop of \<^verbatim>\<open>SetTip\<close>. Its bound is the height of the tip: every round goes one block back, and a pointer whose
  height is past the vector is an access past its end.\<close>

fun SetTip_loop :: "mem \<Rightarrow> nat \<Rightarrow> ptr option \<Rightarrow> CChain \<Rightarrow> CChain option" where
  "SetTip_loop mem n None vChain = Some vChain"
| "SetTip_loop mem n (Some b) vChain = do {
     require (nHeight (mem b) < length vChain);
     if vChain ! nHeight (mem b) \<noteq> Some b
     then (case n of 0 \<Rightarrow> None | Suc m \<Rightarrow> SetTip_loop mem m (pprev (mem b)) (vChain[nHeight (mem b) := Some b]))
     else Some vChain
   }"

definition SetTip :: "mem \<Rightarrow> ptr option \<Rightarrow> CChain \<Rightarrow> CChain option" where
  "SetTip mem pindex vChain =
     (case pindex of None \<Rightarrow> Some []
      | Some b \<Rightarrow> SetTip_loop mem (nHeight (mem b) + 1) (Some b) (resize (nHeight (mem b) + 1) vChain))"

text \<open>The walk of \<^verbatim>\<open>FindFork\<close> back to the chain; the bound is the height of its start.\<close>

fun FindFork_loop :: "mem \<Rightarrow> CChain \<Rightarrow> nat \<Rightarrow> ptr option \<Rightarrow> ptr option option" where
  "FindFork_loop mem vChain n None = Some None"
| "FindFork_loop mem vChain n (Some b) =
     (if chain_Contains mem vChain b then Some (Some b)
      else case n of 0 \<Rightarrow> None | Suc m \<Rightarrow> FindFork_loop mem vChain m (pprev (mem b)))"

definition FindFork :: "mem \<Rightarrow> CChain \<Rightarrow> ptr option \<Rightarrow> ptr option option" where
  "FindFork mem vChain pindex =
     (case pindex of None \<Rightarrow> Some None
      | Some b \<Rightarrow> do {
          start \<leftarrow> (if int (nHeight (mem b)) > chain_Height vChain then GetAncestor mem (chain_Height vChain) b else Some (Some b));
          FindFork_loop mem vChain (nHeight (mem b) + 1) start
        })"

fun GetLocator_loop :: "mem \<Rightarrow> CChain \<Rightarrow> nat \<Rightarrow> nat \<Rightarrow> u256 list \<Rightarrow> ptr option \<Rightarrow> u256 list option" where
  "GetLocator_loop mem vChain n nStep vHave None = Some vHave"
| "GetLocator_loop mem vChain n nStep vHave (Some b) = do {
     h \<leftarrow> GetBlockHash mem b;
     let vHave = vHave @ [h];
     (if nHeight (mem b) = 0 then Some vHave
      else case n of 0 \<Rightarrow> None
        | Suc m \<Rightarrow> do {
            let h = max (int (nHeight (mem b)) - int nStep) 0;
            next1 \<leftarrow> (if chain_Contains mem vChain b then Some (chain_at vChain h) else GetAncestor mem h b);
            GetLocator_loop mem vChain m (if length vHave > 10 then nStep * 2 else nStep) vHave next1
          })
   }"

definition GetLocator :: "mem \<Rightarrow> CChain \<Rightarrow> ptr option \<Rightarrow> u256 list option" where
  "GetLocator mem vChain pindex =
     (let pindex = (case pindex of None \<Rightarrow> chain_Tip vChain | Some b \<Rightarrow> Some b) in
      GetLocator_loop mem vChain (case pindex of None \<Rightarrow> 0 | Some b \<Rightarrow> nHeight (mem b)) 1 [] pindex)"

text \<open>\<^verbatim>\<open>std::lower_bound\<close> halves the range; reading a null pointer of the vector ends the search abnormally.\<close>

function lower_bound :: "mem \<Rightarrow> u64 \<Rightarrow> CChain \<Rightarrow> nat \<Rightarrow> nat \<Rightarrow> nat option" where
  "lower_bound mem time vChain first len =
     (if len = 0 then Some first
      else let half = len div 2; middle = first + half in do {
        pBlock \<leftarrow> vChain ! middle;
        if sint (ucast (nTimeMax (mem pBlock)) :: u64) < sint time
        then lower_bound mem time vChain (middle + 1) (len - half - 1)
        else lower_bound mem time vChain first half
      })"
  by pat_completeness auto

termination lower_bound
  by (relation "measure (\<lambda>(_, _, _, _, len). len)") auto

declare lower_bound.simps [simp del]

definition FindEarliestAtLeast :: "mem \<Rightarrow> u64 \<Rightarrow> CChain \<Rightarrow> ptr option option" where
  "FindEarliestAtLeast mem time vChain = do {
     lower \<leftarrow> lower_bound mem time vChain 0 (length vChain);
     Some (if lower = length vChain then None else vChain ! lower)
   }"

text \<open>\<^verbatim>\<open>FindForkInGlobalIndex\<close> of \<^verbatim>\<open>validation.cpp\<close>; \<open>mapBlockIndex\<close> is the map from hashes to index entries.\<close>

fun FindForkInGlobalIndex :: "mem \<Rightarrow> (u256, ptr) fmap \<Rightarrow> CChain \<Rightarrow> u256 list \<Rightarrow> ptr option option" where
  "FindForkInGlobalIndex mem mapBlockIndex vChain [] = Some (chain_Genesis vChain)"
| "FindForkInGlobalIndex mem mapBlockIndex vChain (h # vHave) =
     (case fmlookup mapBlockIndex h of
        None \<Rightarrow> FindForkInGlobalIndex mem mapBlockIndex vChain vHave
      | Some pindex \<Rightarrow>
          if chain_Contains mem vChain pindex then Some (Some pindex)
          else do {
            a \<leftarrow> GetAncestor mem (chain_Height vChain) pindex;
            if a = chain_Tip vChain then Some (chain_Tip vChain)
            else FindForkInGlobalIndex mem mapBlockIndex vChain vHave
          })"

fun LastCommonAncestor_loop :: "mem \<Rightarrow> nat \<Rightarrow> ptr option \<Rightarrow> ptr option \<Rightarrow> ptr option option" where
  "LastCommonAncestor_loop mem n pa pb =
     (case (pa, pb) of
        (Some a, Some b) \<Rightarrow>
          if a \<noteq> b then (case n of 0 \<Rightarrow> None | Suc m \<Rightarrow> LastCommonAncestor_loop mem m (pprev (mem a)) (pprev (mem b)))
          else Some pa
      | _ \<Rightarrow> do { require (pa = pb); Some pa })"

definition LastCommonAncestor :: "mem \<Rightarrow> ptr \<Rightarrow> ptr \<Rightarrow> ptr option option" where
  "LastCommonAncestor mem pa pb = do {
     (a, b) \<leftarrow> (if nHeight (mem pa) > nHeight (mem pb)
       then do { a \<leftarrow> GetAncestor mem (int (nHeight (mem pb))) pa; Some (a, Some pb) }
       else if nHeight (mem pb) > nHeight (mem pa)
       then do { b \<leftarrow> GetAncestor mem (int (nHeight (mem pa))) pb; Some (Some pa, b) }
       else Some (Some pa, Some pb));
     LastCommonAncestor_loop mem (nHeight (mem pa) + 1) a b
   }"

subsection \<open>Well-formed block trees\<close>

text \<open>The block \<open>n\<close> steps back along \<^verbatim>\<open>pprev\<close>, and the well-formedness of the index: heights count the steps to a root, and
  \<^verbatim>\<open>pskip\<close>, where it is set, is the ancestor at the skip height.\<close>

fun walk :: "mem \<Rightarrow> nat \<Rightarrow> ptr \<Rightarrow> ptr option" where
  "walk mem 0 b = Some b"
| "walk mem (Suc n) b = (case pprev (mem b) of None \<Rightarrow> None | Some q \<Rightarrow> walk mem n q)"

definition height_ok :: "mem \<Rightarrow> ptr \<Rightarrow> bool" where
  "height_ok mem b \<longleftrightarrow> (case pprev (mem b) of None \<Rightarrow> nHeight (mem b) = 0 | Some q \<Rightarrow> nHeight (mem b) = Suc (nHeight (mem q)))"

definition skip_ok :: "mem \<Rightarrow> ptr \<Rightarrow> bool" where
  "skip_ok mem b \<longleftrightarrow> (case pskip (mem b) of None \<Rightarrow> True
     | Some s \<Rightarrow> walk mem (nHeight (mem b) - GetSkipHeight (nHeight (mem b))) b = Some s)"

definition index_ok :: "mem \<Rightarrow> bool" where
  "index_ok mem \<longleftrightarrow> (\<forall>b. height_ok mem b \<and> skip_ok mem b)"

lemma index_ok_height: "index_ok mem \<Longrightarrow> pprev (mem b) = Some q \<Longrightarrow> nHeight (mem b) = Suc (nHeight (mem q))"
  and index_ok_root: "index_ok mem \<Longrightarrow> pprev (mem b) = None \<Longrightarrow> nHeight (mem b) = 0"
  and index_ok_skip: "index_ok mem \<Longrightarrow> pskip (mem b) = Some s \<Longrightarrow>
    walk mem (nHeight (mem b) - GetSkipHeight (nHeight (mem b))) b = Some s"
  by (auto simp: index_ok_def height_ok_def skip_ok_def dest!: spec [of _ b])

lemma index_ok_prev: "index_ok mem \<Longrightarrow> 0 < nHeight (mem b) \<Longrightarrow> \<exists>q. pprev (mem b) = Some q \<and> nHeight (mem b) = Suc (nHeight (mem q))"
  using index_ok_height index_ok_root by (cases "pprev (mem b)") fastforce+

lemma walk_cong: "(\<And>b. pprev (mem b) = pprev (mem' b)) \<Longrightarrow> walk mem n b = walk mem' n b"
  by (induction n arbitrary: b) (simp_all split: option.split)

lemma walk_add: "walk mem (m + n) b = Option.bind (walk mem m b) (walk mem n)"
  by (induction m arbitrary: b) (simp_all split: option.split)

lemma walk_height:
  assumes "index_ok mem" "walk mem n b = Some a"
  shows "n \<le> nHeight (mem b)" "nHeight (mem a) = nHeight (mem b) - n"
  using assms(2) index_ok_height [OF assms(1)] by (induction n arbitrary: b) (fastforce split: option.splits)+

lemma walk_total: "index_ok mem \<Longrightarrow> n \<le> nHeight (mem b) \<Longrightarrow> \<exists>a. walk mem n b = Some a"
proof (induction n arbitrary: b)
  case (Suc n)
  then obtain q where "pprev (mem b) = Some q" "nHeight (mem b) = Suc (nHeight (mem q))" using index_ok_prev [of mem b] by auto
  then show ?case using Suc by simp
qed simp

lemma GetAncestor_loop_walk:
  assumes ok: "index_ok mem" and "height \<le> nHeight (mem b)"
  shows "GetAncestor_loop mem height b (nHeight (mem b)) = walk mem (nHeight (mem b) - height) b"
  using assms(2)
proof (induction "nHeight (mem b)" arbitrary: b rule: less_induct)
  case less
  let ?h = "nHeight (mem b)"
  show ?case
  proof (cases "height < ?h")
    case high: True
    show ?thesis
    proof (cases "use_skip height ?h (mem b)")
      case True
      then obtain s where s: "pskip (mem b) = Some s" and le: "height \<le> GetSkipHeight ?h"
        by (auto simp: use_skip_def Let_def)
      have walk: "walk mem (?h - GetSkipHeight ?h) b = Some s" by (rule index_ok_skip [OF ok s])
      have lt: "GetSkipHeight ?h < ?h" using GetSkipHeight_less high by simp
      have hs: "nHeight (mem s) = GetSkipHeight ?h" using walk_height(2) [OF ok walk] lt by simp
      have "GetAncestor_loop mem height b ?h = GetAncestor_loop mem height s (nHeight (mem s))"
        using high True s by (subst GetAncestor_loop.simps) (simp add: hs)
      also have "\<dots> = walk mem (nHeight (mem s) - height) s" using less.hyps [of s] hs lt le by simp
      also have "\<dots> = walk mem ((?h - GetSkipHeight ?h) + (nHeight (mem s) - height)) b" unfolding walk_add walk by simp
      also have "(?h - GetSkipHeight ?h) + (nHeight (mem s) - height) = ?h - height" using hs lt le by simp
      finally show ?thesis .
    next
      case False
      obtain q where q: "pprev (mem b) = Some q" "?h = Suc (nHeight (mem q))" using index_ok_prev [OF ok, of b] high by auto
      have "GetAncestor_loop mem height b ?h = GetAncestor_loop mem height q (nHeight (mem q))"
        using high False q by (subst GetAncestor_loop.simps) simp
      also have "\<dots> = walk mem (nHeight (mem q) - height) q" using less.hyps [of q] q high by simp
      also have "\<dots> = walk mem (?h - height) b" using q high by (simp add: Suc_diff_le)
      finally show ?thesis .
    qed
  next
    case False
    then show ?thesis using less.prems by (subst GetAncestor_loop.simps) simp
  qed
qed

lemma GetAncestor_walk:
  assumes "index_ok mem"
  shows "GetAncestor mem h b =
    Some (if 0 \<le> h \<and> h \<le> int (nHeight (mem b)) then walk mem (nHeight (mem b) - nat h) b else None)"
proof (cases "0 \<le> h \<and> h \<le> int (nHeight (mem b))")
  case True
  then have le: "nat h \<le> nHeight (mem b)" by linarith
  obtain a where "walk mem (nHeight (mem b) - nat h) b = Some a" using walk_total [OF assms] by fastforce
  then show ?thesis using True GetAncestor_loop_walk [OF assms le] by (simp add: GetAncestor_def)
qed (auto simp: GetAncestor_def)

lemma BuildSkip_ok:
  assumes "index_ok mem" "BuildSkip mem b = Some mem'"
  shows "index_ok mem'"
proof (cases "pprev (mem b)")
  case None
  then show ?thesis using assms by (simp add: BuildSkip_def)
next
  case (Some q)
  let ?k = "GetSkipHeight (nHeight (mem b))"
  have h: "nHeight (mem b) = Suc (nHeight (mem q))" by (rule index_ok_height [OF assms(1) Some])
  have lt: "?k \<le> nHeight (mem q)" using GetSkipHeight_less [of "nHeight (mem b)"] h by simp
  have mem': "mem' = mem(b := (mem b)\<lparr>pskip := walk mem (nHeight (mem q) - ?k) q\<rparr>)"
    using assms(2) Some lt by (simp add: BuildSkip_def GetAncestor_walk [OF assms(1)])
  have walk: "walk mem' n c = walk mem n c" for n c by (rule walk_cong) (simp add: mem')
  have field: "nHeight (mem' c) = nHeight (mem c)" for c by (simp add: mem')
  have "walk mem (nHeight (mem b) - ?k) b = walk mem (nHeight (mem q) - ?k) q" using Some lt h by (simp add: Suc_diff_le)
  then have "skip_ok mem' b" unfolding skip_ok_def walk field by (simp add: mem' split: option.split)
  moreover have "skip_ok mem' c" if "c \<noteq> b" for c
    using assms(1) that unfolding index_ok_def skip_ok_def walk field by (simp add: mem')
  moreover have "height_ok mem' c" for c
  proof -
    have "pprev (mem' c) = pprev (mem c)" by (simp add: mem')
    then show ?thesis using assms(1) unfolding index_ok_def height_ok_def field by simp
  qed
  ultimately show ?thesis unfolding index_ok_def by metis
qed

lemma BuildSkip_total: "index_ok mem \<Longrightarrow> \<exists>mem'. BuildSkip mem b = Some mem'"
  by (simp add: BuildSkip_def GetAncestor_walk split: option.split)

end
