(* ===== verification/ChainProps.thy ===== *)
theory ChainProps
  imports Chain
begin

section \<open>Properties of the block tree and the active chain\<close>

text \<open>
  The navigation of \<^verbatim>\<open>chain.cpp\<close> on a well-formed index: the skip list finds the ancestors that the predecessor
  pointers lead to, the vector of the active chain is the path to its tip, forks are found at the last common block, and
  the proof of a block is the expected number of hashes for its target.
\<close>

subsection \<open>Paths\<close>

text \<open>The blocks from a block down to its root, and the vector of the path from the root up to it.\<close>

definition ancestors :: "mem \<Rightarrow> ptr \<Rightarrow> ptr list" where
  "ancestors mem b = map (\<lambda>n. the (walk mem n b)) [0..<Suc (nHeight (mem b))]"

definition path_to :: "mem \<Rightarrow> ptr \<Rightarrow> CChain" where
  "path_to mem b = map (\<lambda>i. walk mem (nHeight (mem b) - i) b) [0..<Suc (nHeight (mem b))]"

lemma ancestors_rec:
  assumes "index_ok mem"
  shows "ancestors mem b = b # (case pprev (mem b) of None \<Rightarrow> [] | Some q \<Rightarrow> ancestors mem q)"
proof (cases "pprev (mem b)")
  case None
  then show ?thesis using index_ok_root [OF assms None] by (simp add: ancestors_def)
next
  case (Some q)
  have h: "nHeight (mem b) = Suc (nHeight (mem q))" by (rule index_ok_height [OF assms Some])
  have "ancestors mem b = the (walk mem 0 b) # map (\<lambda>n. the (walk mem n b)) (map Suc [0..<Suc (nHeight (mem q))])"
    unfolding ancestors_def h map_Suc_upt by (simp only: upt_conv_Cons [OF zero_less_Suc] list.map)
  then show ?thesis using Some by (simp add: ancestors_def comp_def)
qed

lemma length_path_to [simp]: "length (path_to mem b) = Suc (nHeight (mem b))"
  by (simp add: path_to_def)

lemma nth_path_to: "i \<le> nHeight (mem b) \<Longrightarrow> path_to mem b ! i = walk mem (nHeight (mem b) - i) b"
  unfolding path_to_def by (subst nth_map) (simp_all del: upt_Suc)

subsection \<open>The active chain\<close>

text \<open>What \<^verbatim>\<open>SetTip\<close> relies on of the old vector: an entry stands above its own ancestors.\<close>

definition below_ok :: "mem \<Rightarrow> nat \<Rightarrow> CChain \<Rightarrow> bool" where
  "below_ok mem k v \<longleftrightarrow> (\<forall>i c j. i \<le> k \<longrightarrow> v ! i = Some c \<longrightarrow> j \<le> i \<longrightarrow> v ! j = walk mem (i - j) c)"

lemma SetTip_loop_path:
  assumes ok: "index_ok mem" and "below_ok mem (nHeight (mem b)) v" "nHeight (mem b) < length v" "nHeight (mem b) < n"
  shows "\<exists>v'. SetTip_loop mem n (Some b) v = Some v' \<and> length v' = length v \<and>
    (\<forall>j. v' ! j = (if j \<le> nHeight (mem b) then walk mem (nHeight (mem b) - j) b else v ! j))"
  using assms(2-)
proof (induction "nHeight (mem b)" arbitrary: b v n)
  case 0
  then have "pprev (mem b) = None" using index_ok_height [OF ok] by (cases "pprev (mem b)") fastforce+
  then show ?case using 0 by (cases n) (auto simp: nth_list_update)
next
  case (Suc h)
  obtain q where q: "pprev (mem b) = Some q" "nHeight (mem b) = Suc (nHeight (mem q))"
    using index_ok_prev [OF ok, of b] Suc.hyps(2) by auto
  obtain m where n: "n = Suc m" using Suc.prems(3) by (cases n) auto
  show ?case
  proof (cases "v ! nHeight (mem b) = Some b")
    case True
    then have "v ! j = walk mem (nHeight (mem b) - j) b" if "j \<le> nHeight (mem b)" for j
      using Suc.prems(1) that unfolding below_ok_def by blast
    then show ?thesis using True Suc.prems(2) by simp
  next
    case False
    let ?v = "v[nHeight (mem b) := Some b]"
    have "below_ok mem (nHeight (mem q)) ?v"
      using Suc.prems(1) q(2) by (auto simp: below_ok_def)
    then have "\<exists>v'. SetTip_loop mem m (Some q) ?v = Some v' \<and> length v' = length ?v \<and>
        (\<forall>j. v' ! j = (if j \<le> nHeight (mem q) then walk mem (nHeight (mem q) - j) q else ?v ! j))"
      using Suc.hyps(1) [of q ?v m] Suc.hyps(2) Suc.prems(2,3) q(2) n by simp
    then obtain v' where v': "SetTip_loop mem m (Some q) ?v = Some v'" "length v' = length v"
      "\<And>j. v' ! j = (if j \<le> nHeight (mem q) then walk mem (nHeight (mem q) - j) q else ?v ! j)" by auto
    have "v' ! j = (if j \<le> nHeight (mem b) then walk mem (nHeight (mem b) - j) b else v ! j)" for j
    proof (cases "j \<le> nHeight (mem q)")
      case True
      then show ?thesis using v'(3) [of j] q by (simp add: Suc_diff_le)
    next
      case False
      then show ?thesis using v'(3) [of j] q Suc.prems(2) by (cases "j = nHeight (mem b)") (auto simp: q(2))
    qed
    then show ?thesis using v'(1,2) False n q(1) Suc.prems(2) by simp
  qed
qed

definition active :: "mem \<Rightarrow> CChain \<Rightarrow> bool" where
  "active mem v \<longleftrightarrow> v = [] \<or> (\<exists>t. v = path_to mem t)"

lemma below_ok_resize:
  assumes "index_ok mem" "active mem v"
  shows "below_ok mem k (resize (Suc k) v)"
proof (cases "v = []")
  case True
  then have "resize (Suc k) v = replicate (Suc k) None" by (simp add: resize_def)
  then show ?thesis by (simp add: below_ok_def less_Suc_eq_le del: replicate_Suc)
next
  case False
  then obtain t where t: "v = path_to mem t" using assms(2) by (auto simp: active_def)
  show ?thesis unfolding below_ok_def
  proof (intro allI impI)
    fix i c j assume i: "i \<le> k" "resize (Suc k) v ! i = Some c" "j \<le> i"
    have it: "i \<le> nHeight (mem t)"
    proof (rule ccontr)
      assume "\<not> i \<le> nHeight (mem t)"
      then have "resize (Suc k) v ! i = None" using i(1) by (simp add: resize_def t nth_append)
      then show False using i(2) by simp
    qed
    have same: "resize (Suc k) v ! l = walk mem (nHeight (mem t) - l) t" if "l \<le> i" for l
      using that it i(1) by (simp add: resize_def t nth_append nth_path_to less_Suc_eq_le)
    have "walk mem (nHeight (mem t) - i) t = Some c" using same [of i] i(2) by simp
    moreover have "nHeight (mem t) - j = (nHeight (mem t) - i) + (i - j)" using it i(3) by simp
    ultimately have "walk mem (nHeight (mem t) - j) t = walk mem (i - j) c" by (simp add: walk_add)
    then show "resize (Suc k) v ! j = walk mem (i - j) c" using same [OF i(3)] by simp
  qed
qed

lemma SetTip_path:
  assumes "index_ok mem" "active mem v"
  shows "SetTip mem (Some b) v = Some (path_to mem b)"
proof -
  let ?v = "resize (Suc (nHeight (mem b))) v"
  have len: "length ?v = Suc (nHeight (mem b))" by (simp add: resize_def)
  obtain v' where v': "SetTip_loop mem (Suc (nHeight (mem b))) (Some b) ?v = Some v'" "length v' = length ?v"
    "\<forall>j. v' ! j = (if j \<le> nHeight (mem b) then walk mem (nHeight (mem b) - j) b else ?v ! j)"
    using SetTip_loop_path [OF assms(1) below_ok_resize [OF assms], of b "Suc (nHeight (mem b))"] len by auto
  have "v' = path_to mem b" by (rule nth_equalityI) (use v'(2,3) len in \<open>simp_all add: nth_path_to\<close>)
  then show ?thesis using v'(1) by (simp add: SetTip_def)
qed

subsection \<open>Forks\<close>

lemma FindFork_loop_find:
  assumes "index_ok mem" "nHeight (mem b) < n"
  shows "FindFork_loop mem v n (Some b) = Some (find (chain_Contains mem v) (ancestors mem b))"
  using assms(2)
proof (induction n arbitrary: b)
  case (Suc n)
  show ?case
  proof (cases "pprev (mem b)")
    case None
    then show ?thesis by (simp add: ancestors_rec [OF assms(1), of b])
  next
    case (Some q)
    then have "nHeight (mem q) < n" using index_ok_height [OF assms(1) Some] Suc.prems by simp
    then show ?thesis using Suc.IH [of q] Some by (simp add: ancestors_rec [OF assms(1), of b])
  qed
qed simp

lemma Contains_height: "chain_Contains mem v b \<Longrightarrow> int (nHeight (mem b)) \<le> chain_Height v"
  by (auto simp: chain_Contains_def chain_at_def chain_Height_def split: if_splits)

lemma ancestors_walk:
  assumes "index_ok mem" "walk mem n b = Some a"
  shows "ancestors mem b = map (\<lambda>k. the (walk mem k b)) [0..<n] @ ancestors mem a"
  using assms(2)
proof (induction n arbitrary: b)
  case (Suc n)
  then obtain q where q: "pprev (mem b) = Some q" "walk mem n q = Some a" by (auto split: option.splits)
  have "map (\<lambda>k. the (walk mem k b)) [0..<Suc n] = b # map (\<lambda>k. the (walk mem k q)) [0..<n]"
    using q(1) by (simp only: upt_conv_Cons [OF zero_less_Suc] list.map map_Suc_upt [symmetric]) (simp add: comp_def)
  then show ?case using Suc.IH [OF q(2)] q(1) by (simp add: ancestors_rec [OF assms(1), of b])
qed simp

lemma find_append: "find P (xs @ ys) = (case find P xs of None \<Rightarrow> find P ys | Some x \<Rightarrow> Some x)"
  by (induction xs) simp_all

lemma FindFork_find:
  assumes ok: "index_ok mem"
  shows "FindFork mem v (Some b) = Some (find (chain_Contains mem v) (ancestors mem b))"
proof (cases "int (nHeight (mem b)) > chain_Height v")
  case high: True
  show ?thesis
  proof (cases "v = []")
    case True
    then have "chain_Contains mem v = (\<lambda>_. False)" by (simp add: chain_Contains_def chain_at_def fun_eq_iff)
    moreover have "find (\<lambda>_. False) xs = None" for xs :: "ptr list" by (induction xs) simp_all
    ultimately show ?thesis using True by (simp add: FindFork_def chain_Height_def GetAncestor_def)
  next
    case False
    define k where "k = nHeight (mem b) - nat (chain_Height v)"
    have pos: "0 \<le> chain_Height v" using False by (cases v) (simp_all add: chain_Height_def)
    obtain a where a: "walk mem k b = Some a" using walk_total [OF ok, of k b] by (auto simp: k_def)
    have h: "nHeight (mem a) \<le> nHeight (mem b)" using walk_height(2) [OF ok a] by simp
    have none: "find (chain_Contains mem v) (map (\<lambda>i. the (walk mem i b)) [0..<k]) = None"
    proof (unfold find_None_iff, rule notI, elim exE conjE)
      fix x assume x: "x \<in> set (map (\<lambda>i. the (walk mem i b)) [0..<k])" "chain_Contains mem v x"
      then obtain i where i: "i < k" "x = the (walk mem i b)" by auto
      have "i \<le> nHeight (mem b)" using i(1) unfolding k_def by linarith
      then obtain y where y: "walk mem i b = Some y" using walk_total [OF ok] by blast
      have "nHeight (mem x) = nHeight (mem b) - i" using walk_height(2) [OF ok y] i(2) y by simp
      then show False using Contains_height [OF x(2)] i(1) high pos unfolding k_def by linarith
    qed
    have "GetAncestor mem (chain_Height v) b = Some (Some a)"
      using pos high a by (simp add: GetAncestor_walk [OF ok] k_def)
    then have "FindFork mem v (Some b) = FindFork_loop mem v (Suc (nHeight (mem b))) (Some a)"
      using high by (simp add: FindFork_def)
    also have "\<dots> = Some (find (chain_Contains mem v) (ancestors mem a))"
      using FindFork_loop_find [OF ok, of a "Suc (nHeight (mem b))" v] h by simp
    finally show ?thesis unfolding ancestors_walk [OF ok a] find_append none by simp
  qed
next
  case False
  then show ?thesis using FindFork_loop_find [OF ok, of b "Suc (nHeight (mem b))" v] by (simp add: FindFork_def)
qed

lemma ancestors_memD:
  assumes "index_ok mem" "x \<in> set (ancestors mem b)"
  shows "nHeight (mem x) \<le> nHeight (mem b)" "walk mem (nHeight (mem b) - nHeight (mem x)) b = Some x"
proof -
  obtain n where n: "n \<le> nHeight (mem b)" "x = the (walk mem n b)" using assms(2) by (auto simp: ancestors_def less_Suc_eq_le simp del: upt_Suc)
  obtain y where y: "walk mem n b = Some y" using walk_total [OF assms(1) n(1)] by blast
  have "walk mem n b = Some x" "nHeight (mem x) = nHeight (mem b) - n" using walk_height(2) [OF assms(1) y] n(2) y by simp_all
  then show "nHeight (mem x) \<le> nHeight (mem b)" "walk mem (nHeight (mem b) - nHeight (mem x)) b = Some x" using n(1) by simp_all
qed

lemma ancestors_same_height: "index_ok mem \<Longrightarrow> x \<in> set (ancestors mem b) \<Longrightarrow> nHeight (mem x) = nHeight (mem b) \<Longrightarrow> x = b"
  using ancestors_memD(2) [of mem x b] by simp

definition common :: "mem \<Rightarrow> ptr \<Rightarrow> ptr \<Rightarrow> ptr option" where
  "common mem a b = find (\<lambda>x. x \<in> set (ancestors mem b)) (ancestors mem a)"

definition root :: "mem \<Rightarrow> ptr \<Rightarrow> ptr" where
  "root mem b = last (ancestors mem b)"

lemma ancestors_not_Nil [simp]: "ancestors mem b \<noteq> []"
  by (simp add: ancestors_def)

lemma root_walk: "index_ok mem \<Longrightarrow> walk mem n b = Some a \<Longrightarrow> root mem b = root mem a"
  by (simp add: root_def ancestors_walk)

lemma find_cong_set: "(\<And>x. x \<in> set xs \<Longrightarrow> P x = Q x) \<Longrightarrow> find P xs = find Q xs"
  by (induction xs) auto

lemma common_step:
  assumes "index_ok mem" "pprev (mem a) = Some a'" "pprev (mem b) = Some b'" "a \<noteq> b" "nHeight (mem a) = nHeight (mem b)"
  shows "common mem a b = common mem a' b'"
proof -
  have "a \<notin> set (ancestors mem b)" using ancestors_same_height [OF assms(1)] assms(4,5) by blast
  then have "common mem a b = find (\<lambda>x. x \<in> set (ancestors mem b)) (ancestors mem a')"
    using assms(2) by (simp add: common_def ancestors_rec [OF assms(1), of a])
  also have "\<dots> = common mem a' b'" unfolding common_def
  proof (rule find_cong_set)
    fix x assume "x \<in> set (ancestors mem a')"
    then have "nHeight (mem x) < nHeight (mem b)"
      using ancestors_memD(1) [OF assms(1), of x a'] index_ok_height [OF assms(1,2)] assms(5) by simp
    then have "x \<noteq> b" by blast
    then show "(x \<in> set (ancestors mem b)) = (x \<in> set (ancestors mem b'))"
      using assms(3) by (simp add: ancestors_rec [OF assms(1), of b])
  qed
  finally show ?thesis .
qed

lemma common_same: "index_ok mem \<Longrightarrow> common mem a a = Some a"
  unfolding common_def by (subst ancestors_rec, assumption) (simp add: ancestors_rec [of mem a])

lemma LastCommonAncestor_loop_common:
  assumes ok: "index_ok mem" and "nHeight (mem a) = nHeight (mem b)" "root mem a = root mem b" "nHeight (mem a) \<le> n"
  shows "LastCommonAncestor_loop mem n (Some a) (Some b) = Some (common mem a b) \<and> common mem a b \<noteq> None"
  using assms(2-)
proof (induction n arbitrary: a b)
  case 0
  then have "pprev (mem a) = None" "pprev (mem b) = None"
    using index_ok_height [OF ok, of a] index_ok_height [OF ok, of b] by (cases "pprev (mem a)"; cases "pprev (mem b)"; auto)+
  then have "a = b" using 0 by (simp add: root_def ancestors_rec [OF ok, of a] ancestors_rec [OF ok, of b])
  then show ?case by (simp add: common_same [OF ok])
next
  case (Suc n)
  show ?case
  proof (cases "a = b")
    case True
    then show ?thesis by (simp add: common_same [OF ok])
  next
    case False
    show ?thesis
    proof (cases "pprev (mem a)")
      case None
      then have "nHeight (mem b) = 0" using index_ok_root [OF ok None] Suc.prems(1) by simp
      then have "pprev (mem b) = None" using index_ok_height [OF ok, of b] by (cases "pprev (mem b)") auto
      then have "a = b" using None Suc.prems(2) by (simp add: root_def ancestors_rec [OF ok, of a] ancestors_rec [OF ok, of b])
      then show ?thesis using False by simp
    next
      case (Some a')
      have ha: "nHeight (mem a) = Suc (nHeight (mem a'))" by (rule index_ok_height [OF ok Some])
      obtain b' where b': "pprev (mem b) = Some b'" "nHeight (mem b) = Suc (nHeight (mem b'))"
        using index_ok_prev [OF ok, of b] Suc.prems(1) ha by auto
      have r: "root mem a' = root mem b'"
        using Suc.prems(2) root_walk [OF ok, of 1 a a'] root_walk [OF ok, of 1 b b'] Some b'(1) by simp
      have "LastCommonAncestor_loop mem n (Some a') (Some b') = Some (common mem a' b') \<and> common mem a' b' \<noteq> None"
        using Suc.IH [of a' b'] r Suc.prems(1,3) ha b'(2) by simp
      then show ?thesis using False Some b'(1) common_step [OF ok Some b'(1) False Suc.prems(1)] by simp
    qed
  qed
qed

declare LastCommonAncestor_loop.simps [simp del]

lemma find_skip: "(\<And>x. x \<in> set xs \<Longrightarrow> \<not> P x) \<Longrightarrow> find P (xs @ ys) = find P ys"
  by (induction xs) auto

lemma above_walk:
  assumes "index_ok mem" "walk mem n b = Some a" "x \<in> set (map (\<lambda>k. the (walk mem k b)) [0..<n])"
  shows "nHeight (mem a) < nHeight (mem x)"
proof -
  obtain i where i: "i < n" "x = the (walk mem i b)" using assms(3) by auto
  have n: "n \<le> nHeight (mem b)" "nHeight (mem a) = nHeight (mem b) - n" using walk_height [OF assms(1,2)] by simp_all
  obtain y where y: "walk mem i b = Some y" using walk_total [OF assms(1), of i b] i(1) n(1) by auto
  then show ?thesis using walk_height(2) [OF assms(1) y] i n by simp
qed

lemma common_walk_left:
  assumes "index_ok mem" "walk mem n a = Some a'" "nHeight (mem a') = nHeight (mem b)"
  shows "common mem a b = common mem a' b"
proof -
  have "x \<notin> set (ancestors mem b)" if "x \<in> set (map (\<lambda>k. the (walk mem k a)) [0..<n])" for x
    using above_walk [OF assms(1,2) that] ancestors_memD(1) [OF assms(1), of x b] assms(3) by auto
  then show ?thesis unfolding common_def ancestors_walk [OF assms(1,2)] by (rule find_skip)
qed

lemma common_walk_right:
  assumes "index_ok mem" "walk mem n b = Some b'" "nHeight (mem b') = nHeight (mem a)"
  shows "common mem a b = common mem a b'"
  unfolding common_def
proof (rule find_cong_set)
  fix x assume "x \<in> set (ancestors mem a)"
  then have "nHeight (mem x) \<le> nHeight (mem b')" using ancestors_memD(1) [OF assms(1)] assms(3) by simp
  then have "x \<notin> set (map (\<lambda>k. the (walk mem k b)) [0..<n])" using above_walk [OF assms(1,2), of x] by auto
  then show "(x \<in> set (ancestors mem b)) = (x \<in> set (ancestors mem b'))" unfolding ancestors_walk [OF assms(1,2)] by simp
qed

lemma GetAncestor_lower:
  assumes "index_ok mem" "nHeight (mem b) < nHeight (mem a)"
  obtains n a' where "GetAncestor mem (int (nHeight (mem b))) a = Some (Some a')" "walk mem n a = Some a'"
    "nHeight (mem a') = nHeight (mem b)"
proof -
  let ?n = "nHeight (mem a) - nHeight (mem b)"
  obtain a' where a': "walk mem ?n a = Some a'" using walk_total [OF assms(1), of ?n a] by auto
  then show thesis using that [of a' ?n] walk_height(2) [OF assms(1) a'] assms by (simp add: GetAncestor_walk)
qed

lemma LastCommonAncestor_common:
  assumes ok: "index_ok mem" and "root mem a = root mem b"
  shows "LastCommonAncestor mem a b = Some (common mem a b) \<and> common mem a b \<noteq> None"
proof -
  consider "nHeight (mem b) < nHeight (mem a)" | "nHeight (mem a) < nHeight (mem b)" | "nHeight (mem a) = nHeight (mem b)" by linarith
  then show ?thesis
  proof cases
    case 1
    obtain n a' where a': "GetAncestor mem (int (nHeight (mem b))) a = Some (Some a')" "walk mem n a = Some a'"
      "nHeight (mem a') = nHeight (mem b)" by (rule GetAncestor_lower [OF ok 1])
    have "LastCommonAncestor_loop mem (Suc (nHeight (mem a))) (Some a') (Some b) = Some (common mem a' b) \<and> common mem a' b \<noteq> None"
      by (rule LastCommonAncestor_loop_common [OF ok a'(3)]) (use root_walk [OF ok a'(2)] assms(2) 1 a'(3) in simp_all)
    then show ?thesis using 1 a'(1) common_walk_left [OF ok a'(2,3)] by (simp add: LastCommonAncestor_def)
  next
    case 2
    obtain n b' where b': "GetAncestor mem (int (nHeight (mem a))) b = Some (Some b')" "walk mem n b = Some b'"
      "nHeight (mem b') = nHeight (mem a)" by (rule GetAncestor_lower [OF ok 2])
    have "LastCommonAncestor_loop mem (Suc (nHeight (mem a))) (Some a) (Some b') = Some (common mem a b') \<and> common mem a b' \<noteq> None"
      by (rule LastCommonAncestor_loop_common [OF ok b'(3) [symmetric]]) (use root_walk [OF ok b'(2)] assms(2) in simp_all)
    then show ?thesis using 2 b'(1) common_walk_right [OF ok b'(2,3)] by (simp add: LastCommonAncestor_def)
  next
    case 3
    then show ?thesis
      using LastCommonAncestor_loop_common [OF ok 3 assms(2), of "Suc (nHeight (mem a))"] by (simp add: LastCommonAncestor_def)
  qed
qed

subsection \<open>Locators\<close>

lemma GetLocator_loop_total:
  assumes ok: "index_ok mem" and "active mem v" "\<And>c. phashBlock (mem c) \<noteq> None" "0 < nStep" "nHeight (mem b) \<le> n"
  shows "\<exists>l. GetLocator_loop mem v n nStep vHave (Some b) = Some l"
  using assms(4,5)
proof (induction n arbitrary: b nStep vHave)
  case 0
  obtain x where "phashBlock (mem b) = Some x" using assms(3) by blast
  then show ?case using 0 by (simp add: GetBlockHash_def)
next
  case (Suc n)
  obtain x where x: "phashBlock (mem b) = Some x" using assms(3) by blast
  let ?h = "max (int (nHeight (mem b)) - int nStep) 0"
  show ?case
  proof (cases "nHeight (mem b) = 0")
    case True
    then show ?thesis using x by (simp add: GetBlockHash_def)
  next
    case False
    have h: "0 \<le> ?h" "nat ?h < nHeight (mem b)" "?h \<le> int (nHeight (mem b))" using False Suc.prems(1) by auto
    have "\<exists>p. (if chain_Contains mem v b then Some (chain_at v ?h) else GetAncestor mem ?h b) = Some (Some p) \<and> nHeight (mem p) = nat ?h"
    proof (cases "chain_Contains mem v b")
      case True
      then obtain t where t: "v = path_to mem t" using assms(2) by (auto simp: active_def chain_Contains_def chain_at_def)
      have b: "nHeight (mem b) \<le> nHeight (mem t)" using Contains_height [OF True] by (simp add: t chain_Height_def)
      have "nat ?h \<le> nHeight (mem t)" using h b by linarith
      then have "chain_at v ?h = walk mem (nHeight (mem t) - nat ?h) t" using h(1) by (auto simp: chain_at_def t nth_path_to)
      moreover obtain p where p: "walk mem (nHeight (mem t) - nat ?h) t = Some p" using walk_total [OF ok] by fastforce
      ultimately show ?thesis using True walk_height(2) [OF ok p] \<open>nat ?h \<le> nHeight (mem t)\<close> by auto
    next
      case False
      obtain p where p: "walk mem (nHeight (mem b) - nat ?h) b = Some p" using walk_total [OF ok] by fastforce
      have "nHeight (mem p) = nat ?h" using walk_height(2) [OF ok p] h(2) by simp
      then show ?thesis using False p h by (simp add: GetAncestor_walk [OF ok])
    qed
    then obtain p where p: "(if chain_Contains mem v b then Some (chain_at v ?h) else GetAncestor mem ?h b) = Some (Some p)"
      "nHeight (mem p) = nat ?h" by blast
    have "nHeight (mem p) \<le> n" using p(2) h(2) Suc.prems(2) by linarith
    then have "\<exists>l. GetLocator_loop mem v n s vh (Some p) = Some l" if "0 < s" for s vh using Suc.IH that by blast
    then show ?thesis using x False p(1) Suc.prems(1) by (simp add: GetBlockHash_def Let_def)
  qed
qed

subsection \<open>The earliest block at a time\<close>

definition time_max :: "mem \<Rightarrow> CChain \<Rightarrow> nat \<Rightarrow> int" where
  "time_max mem v i = sint (ucast (nTimeMax (mem (the (v ! i)))) :: u64)"

lemma lower_bound_spec:
  assumes full: "\<And>i. i < length v \<Longrightarrow> v ! i \<noteq> None"
    and mono: "\<And>i j. i \<le> j \<Longrightarrow> j < length v \<Longrightarrow> time_max mem v i \<le> time_max mem v j"
    and "first + len \<le> length v" "\<And>i. i < first \<Longrightarrow> time_max mem v i < sint time"
    and "\<And>i. first + len \<le> i \<Longrightarrow> i < length v \<Longrightarrow> sint time \<le> time_max mem v i"
  shows "\<exists>r\<le>length v. lower_bound mem time v first len = Some r \<and> (\<forall>i<r. time_max mem v i < sint time) \<and>
    (\<forall>i. r \<le> i \<longrightarrow> i < length v \<longrightarrow> sint time \<le> time_max mem v i)"
  using assms(3-)
proof (induction len arbitrary: first rule: less_induct)
  case (less len)
  show ?case
  proof (cases "len = 0")
    case True
    then show ?thesis using less.prems by (subst lower_bound.simps) auto
  next
    case False
    define m where "m = first + len div 2"
    have m: "m < length v" "first \<le> m" using less.prems(1) False by (auto simp: m_def)
    obtain p where p: "v ! m = Some p" using full [OF m(1)] by blast
    have tm: "time_max mem v m = sint (ucast (nTimeMax (mem p)) :: u64)" by (simp add: time_max_def p)
    show ?thesis
    proof (cases "time_max mem v m < sint time")
      case True
      have "lower_bound mem time v first len = lower_bound mem time v (m + 1) (len - len div 2 - 1)"
        using False True p by (subst lower_bound.simps) (simp add: m_def [symmetric] tm Let_def)
      moreover have "time_max mem v i < sint time" if "i < m + 1" for i
        using mono [of i m] m(1) True that by fastforce
      ultimately show ?thesis
        using less.IH [of "len - len div 2 - 1" "m + 1"] less.prems False by (simp add: m_def)
    next
      case out: False
      have "lower_bound mem time v first len = lower_bound mem time v first (len div 2)"
        using False out p by (subst lower_bound.simps) (simp add: m_def [symmetric] tm Let_def)
      moreover have "sint time \<le> time_max mem v i" if "first + len div 2 \<le> i" "i < length v" for i
        using mono [of m i] that out unfolding m_def by fastforce
      ultimately show ?thesis using less.IH [of "len div 2" first] less.prems False by simp
    qed
  qed
qed

subsection \<open>Proofs of work\<close>

lemma SetCompact_not_max:
  assumes "SetCompact c = (t, False, False)"
  shows "length t = WIDTH" "valu t + 1 < 2 ^ 256"
proof -
  define n m where "n = unat c div 2 ^ 24" and "m = unat c mod 2 ^ 23"
  show "length t = WIDTH" using SetCompact_spec(1) [of c] assms by simp
  have v: "valu t = compact_value n m mod 2 ^ 256" "compact_value n m < 2 ^ 256"
    using SetCompact_spec(2,4) [of c] assms unfolding n_def m_def by (simp_all add: not_le)
  show "valu t + 1 < 2 ^ 256"
  proof (cases "n \<le> 3")
    case True
    then have "compact_value n m \<le> m" by (simp add: compact_value_def)
    also have "\<dots> < 2 ^ 23" by (simp add: m_def)
    finally show ?thesis using v by simp
  next
    case False
    have "(256 :: nat) dvd 256 ^ (n - 3)" using False by (simp add: dvd_power)
    then have "(2 :: nat) dvd 256 ^ (n - 3)" by (rule dvd_trans [rotated]) simp
    then have even: "even (valu t)" using False v by (simp add: compact_value_def)
    have le: "valu t < 2 ^ 256" using v by simp
    have "odd (2 ^ 256 - 1 :: nat)" by simp
    then have "valu t \<noteq> 2 ^ 256 - 1" using even by metis
    then show ?thesis using le by linarith
  qed
qed

lemma GetBlockProof_value:
  assumes "SetCompact (nBits block) = (t, False, False)" "valu t \<noteq> 0"
  shows "\<exists>w. GetBlockProof block = Some w \<and> length w = WIDTH \<and> valu w = 2 ^ 256 div (valu t + 1)"
proof -
  note t = SetCompact_not_max [OF assms(1)]
  have one: "length (of_u64 1) = WIDTH" "valu (of_u64 1) = 1" by (simp_all add: length_of_u64 valu_of_u64)
  have plus: "length (op_add t (of_u64 1)) = WIDTH" "valu (op_add t (of_u64 1)) = valu t + 1"
    using t one au.wf_plus [of t "of_u64 1"] au.num_plus [of t "of_u64 1"] by simp_all
  have neg: "length (op_not t) = WIDTH" "valu (op_not t) = 2 ^ 256 - 1 - valu t"
    using t(1) by (simp_all add: valu_bnot WIDTH_def)
  obtain q where q: "op_div (op_not t) (op_add t (of_u64 1)) = Some q" "length q = WIDTH"
    "valu q = (2 ^ 256 - 1 - valu t) div (valu t + 1)"
    using au.divide_ex [OF neg(1) plus(1)] plus(2) neg(2) by auto
  have "2 ^ 256 = (2 ^ 256 - 1 - valu t) + (valu t + 1)" using t(2) by simp
  then have eq: "2 ^ 256 div (valu t + 1) = valu q + 1" using q(3) by (metis add_is_0 div_add_self2 one_neq_zero)
  have "2 ^ 256 div (valu t + 1) \<le> 2 ^ 256 div (2 :: nat)" using assms(2) by (intro div_le_mono2) simp_all
  also have "\<dots> < (2 :: nat) ^ 256" by simp
  finally have "valu q + 1 < 2 ^ 256" using eq by simp
  then have "length (op_add q (of_u64 1)) = WIDTH" "valu (op_add q (of_u64 1)) = valu q + 1"
    using one q(2) au.wf_plus [of q "of_u64 1"] au.num_plus [of q "of_u64 1"] by simp_all
  moreover have "\<not> EqualTo t 0" using EqualTo_spec [OF t(1), of 0] assms(2) by simp
  ultimately show ?thesis using eq q(1) assms(1) by (simp add: GetBlockProof_def)
qed

subsection \<open>Properties\<close>

text \<open>A tree of four blocks: two blocks on top of the child of the genesis block.\<close>

definition demo_index :: mem where
  "demo_index = (\<lambda>_. CBlockIndex_null)
     (1 := CBlockIndex_null\<lparr>pprev := Some 0, pskip := Some 0, nHeight := 1\<rparr>,
      2 := CBlockIndex_null\<lparr>pprev := Some 1, pskip := Some 0, nHeight := 2\<rparr>,
      3 := CBlockIndex_null\<lparr>pprev := Some 1, nHeight := 2\<rparr>)"

lemma demo_index_ok: "index_ok demo_index"
proof -
  have "GetSkipHeight 1 = 0" "GetSkipHeight 2 = 0" by code_simp+
  then show ?thesis
    by (auto simp: index_ok_def height_ok_def skip_ok_def demo_index_def CBlockIndex_null_def numeral_2_eq_2)
qed

text \<open>C16: In a well-formed block tree \<^verbatim>\<open>GetAncestor\<close>, which follows the skip pointers, never fails its assertion and returns
  for every height of a branch the block that the predecessor pointers lead to, and nothing above and below. Setting the skip
  pointer of a block with \<^verbatim>\<open>BuildSkip\<close> succeeds and leaves a well-formed tree.\<close>

theorem skip_list_is_walk:
  assumes "index_ok mem"
  shows "GetAncestor mem h b =
      Some (if 0 \<le> h \<and> h \<le> int (nHeight (mem b)) then walk mem (nHeight (mem b) - nat h) b else None) \<and>
    (\<exists>mem'. BuildSkip mem b = Some mem' \<and> index_ok mem')"
  using GetAncestor_walk [OF assms] BuildSkip_total [OF assms, of b] BuildSkip_ok [OF assms] by blast

theorem skip_list_is_walk_witness:
  "GetAncestor demo_index 0 2 = Some (Some 0) \<and> (\<exists>mem'. BuildSkip demo_index 3 = Some mem' \<and> index_ok mem')"
proof -
  have "walk demo_index 2 2 = Some 0" "nHeight (demo_index 2) = 2" by code_simp+
  then show ?thesis
    using skip_list_is_walk [OF demo_index_ok, of 0 2] skip_list_is_walk [OF demo_index_ok, of 0 3] by simp
qed

text \<open>C20: Setting the tip of the active chain to a block leaves in the vector exactly the path from the root to that block,
  whatever path was in it before: the loop stops early only where the old and the new path have joined, and it does not
  write past the vector.\<close>

theorem set_tip_is_path:
  assumes "index_ok mem" "v = [] \<or> (\<exists>t. v = path_to mem t)"
  shows "SetTip mem (Some b) v = Some (path_to mem b) \<and> chain_Tip (path_to mem b) = Some b \<and>
    chain_Height (path_to mem b) = int (nHeight (mem b))"
proof -
  have "path_to mem b ! nHeight (mem b) = Some b" by (simp add: nth_path_to)
  then show ?thesis using SetTip_path [OF assms(1)] assms(2) by (simp add: active_def chain_Tip_def chain_Height_def)
qed

theorem set_tip_is_path_witness:
  "SetTip demo_index (Some 3) (path_to demo_index 2) = Some [Some 0, Some 1, Some 3]"
proof -
  have "path_to demo_index 3 = [Some 0, Some 1, Some 3]" by code_simp
  then show ?thesis using set_tip_is_path [OF demo_index_ok, of "path_to demo_index 2" 3] by auto
qed

text \<open>C19: \<^verbatim>\<open>FindFork\<close> returns the first block of a branch, from its tip down, that is on the active chain, although it
  starts at the height of the active chain; \<^verbatim>\<open>LastCommonAncestor\<close> of two blocks of one tree returns the first block of one
  branch that is on the other, and its final assertion holds.\<close>

theorem fork_points:
  assumes "index_ok mem" "root mem a = root mem b"
  shows "FindFork mem v (Some b) = Some (find (chain_Contains mem v) (ancestors mem b)) \<and>
    (\<exists>c. LastCommonAncestor mem a b = Some (Some c) \<and> find (\<lambda>x. x \<in> set (ancestors mem b)) (ancestors mem a) = Some c)"
  using FindFork_find [OF assms(1)] LastCommonAncestor_common [OF assms] by (auto simp: common_def)

theorem fork_points_witness:
  "FindFork demo_index [Some 0, Some 1, Some 2] (Some 3) = Some (Some 1) \<and> LastCommonAncestor demo_index 2 3 = Some (Some 1)"
proof -
  have "root demo_index 2 = root demo_index 3" "ancestors demo_index 3 = [3, 1, 0]" "ancestors demo_index 2 = [2, 1, 0]"
    "find (chain_Contains demo_index [Some 0, Some 1, Some 2]) [3, 1, 0] = Some 1" by code_simp+
  then show ?thesis using fork_points [OF demo_index_ok, of 2 3 "[Some 0, Some 1, Some 2]"] by simp
qed

text \<open>C32: The proof of a block with target \<open>t\<close> is \<open>2 ^ 256 div (t + 1)\<close>, a number that 256 bits hold although the dividend
  does not fit; \<^verbatim>\<open>t + 1\<close> never wraps to a division by zero, since no compact number denotes the largest target.\<close>

theorem block_proof_value:
  assumes "SetCompact (nBits block) = (t, False, False)" "valu t \<noteq> 0"
  shows "\<exists>w. GetBlockProof block = Some w \<and> length w = WIDTH \<and> valu w = 2 ^ 256 div (valu t + 1)"
  using assms by (rule GetBlockProof_value)

theorem block_proof_value_witness:
  "\<exists>w. GetBlockProof (CBlockIndex_null\<lparr>nBits := 0x03000003\<rparr>) = Some w \<and> valu w = 2 ^ 254"
proof -
  have "SetCompact 0x03000003 = (of_u64 3, False, False)" by code_simp
  moreover have "valu (of_u64 3) = 3" by (simp add: valu_of_u64)
  ultimately show ?thesis using block_proof_value [of "CBlockIndex_null\<lparr>nBits := 0x03000003\<rparr>" "of_u64 3"] by auto
qed

end
