(* ===== verification/BlockProps.thy ===== *)
theory BlockProps
  imports Block "HOL-Library.Multiset"
begin

section \<open>Properties of merkle roots and of the transaction order\<close>

text \<open>
  What a merkle root without the mutation flag says about the leaves, the duplicated lists that the flag is for, and the
  order that \<^verbatim>\<open>ltor::SortTransactions\<close> produces.
\<close>

definition demo_tx :: "u256 \<Rightarrow> CTransaction" where
  "demo_tx h = \<lparr>vin = [], vout = [], nVersion = 0, nLockTime = 0, tx_hash = h\<rparr>"

lemma pair_mutation_append: "odd (length xs) \<Longrightarrow> pair_mutation (xs @ [last xs])"
  by (induction xs rule: pair_mutation.induct) (auto split: if_splits)

text \<open>Appending the last hash of an odd list again changes nothing but the flag.\<close>

lemma duplicate_last:
  assumes "odd (length xs)" "1 < length xs"
  shows "ComputeMerkleRoot D64 (xs @ [last xs]) = (fst (ComputeMerkleRoot D64 xs), True)"
proof -
  let ?up = "SHA256D64 D64 (push_odd xs)"
  have same: "push_odd (xs @ [last xs]) = push_odd xs" using assms(1) by (simp add: push_odd_def)
  have root: "fst (ComputeMerkleRoot_loop D64 m ys) = fst (ComputeMerkleRoot_loop D64 m' ys)" for m m' ys
  proof (induction "length ys" arbitrary: ys m m' rule: less_induct)
    case less
    then show ?case using level_shorter [of ys D64]
      by (subst (1 2) ComputeMerkleRoot_loop.simps) simp
  qed
  have dup: "ComputeMerkleRoot_loop D64 False (xs @ [last xs]) = ComputeMerkleRoot_loop D64 True ?up"
    using assms pair_mutation_append [OF assms(1)] same by (cases xs) (simp_all add: ComputeMerkleRoot_loop.simps [of D64 False])
  have plain: "ComputeMerkleRoot_loop D64 False xs = ComputeMerkleRoot_loop D64 (pair_mutation xs) ?up"
    using assms(2) by (subst ComputeMerkleRoot_loop.simps) simp
  show ?thesis unfolding ComputeMerkleRoot_def dup plain
    using root [of True ?up "pair_mutation xs"] mutation_kept [of True D64 ?up] by (simp add: prod_eq_iff)
qed

lemma SortTransactions_sorted:
  "mset (SortTransactions txs) = mset txs \<and> take 1 (SortTransactions txs) = take 1 txs \<and>
   sorted_wrt (\<lambda>a b. \<not> CompareAsNumber (tx_hash b) (tx_hash a) < 0) (tl (SortTransactions txs))"
proof (cases "length txs \<le> 2")
  case True
  then have "sorted_wrt R (tl txs)" for R by (cases txs; cases "tl txs") auto
  then show ?thesis using True by (simp add: SortTransactions_def)
next
  case False
  then obtain t r where txs: "txs = t # r" by (cases txs) auto
  have "sorted (map number_key (sort_key number_key r))" by simp
  then have "sorted_wrt (\<lambda>a b. number_key a \<le> number_key b) (sort_key number_key r)" by (simp only: sorted_map)
  then show ?thesis using False by (simp add: SortTransactions_def txs CompareAsNumber_less not_less)
qed

text \<open>C18: Two lists of transactions with trees of the same depth and the same merkle root, neither flagged as mutated, have
  the same hashes in the same order, or the two trees contain two different pairs of hashes on which the double SHA256
  collides. Without the flag this fails: a list of odd length and the list with its last hash repeated have the same root,
  and the flag tells them apart.\<close>

theorem merkle_root_binds:
  assumes "BlockMerkleRoot D64 txs = (root, False)" "BlockMerkleRoot D64 txs' = (root, False)" "txs \<noteq> []" "txs' \<noteq> []"
    and "merkle_levels (length txs) = merkle_levels (length txs')"
  shows "(map tx_hash txs = map tx_hash txs' \<or>
      (\<exists>p\<in>set (merkle_pairs D64 (map tx_hash txs)). \<exists>q\<in>set (merkle_pairs D64 (map tx_hash txs')). collision D64 p q)) \<and>
    (odd (length txs) \<and> 1 < length txs \<longrightarrow> BlockMerkleRoot D64 (txs @ [last txs]) = (root, True))"
proof -
  have "map tx_hash txs = map tx_hash txs'"
    if "\<forall>p\<in>set (merkle_pairs D64 (map tx_hash txs)). \<forall>q\<in>set (merkle_pairs D64 (map tx_hash txs')). \<not> collision D64 p q"
    using that assms same_root_same_leaves [of D64 False "map tx_hash txs" root False "map tx_hash txs'"]
    by (simp add: BlockMerkleRoot_def ComputeMerkleRoot_def)
  moreover have "BlockMerkleRoot D64 (txs @ [last txs]) = (root, True)" if "odd (length txs)" "1 < length txs"
    using duplicate_last [of "map tx_hash txs" D64] that assms(1,3) by (simp add: BlockMerkleRoot_def last_map)
  ultimately show ?thesis by blast
qed

theorem merkle_root_binds_witness:
  "(\<exists>p\<in>set (merkle_pairs (+) [1, 4, 9]). \<exists>q\<in>set (merkle_pairs (+) [2, 3, 9]). collision (+) p q) \<and>
   BlockMerkleRoot (+) (map demo_tx [1, 4, 9, 9]) = (23, True)"
proof -
  have "BlockMerkleRoot (+) (map demo_tx [1, 4, 9]) = (23, False)" "BlockMerkleRoot (+) (map demo_tx [2, 3, 9]) = (23, False)"
    by code_simp+
  then show ?thesis
    using merkle_root_binds [of "(+)" "map demo_tx [1, 4, 9]" 23 "map demo_tx [2, 3, 9]"] by (simp add: demo_tx_def)
qed

end
