(* ===== verification/StateRepository.thy ===== *)
theory StateRepository
  imports VoteRecorder Chain
begin

section \<open>The repository of finalization states\<close>

text \<open>
  \<^verbatim>\<open>finalization/state_repository.cpp\<close>, \<^verbatim>\<open>state_processor.cpp\<close> and \<^verbatim>\<open>state_db.cpp\<close>: one finalization state per
  block, computed from the state of the parent block, confirmed when the block itself arrives, trimmed when an epoch is
  finalized, and saved to and restored from a database.

  \<^item> The block tree is a store \<open>mem\<close> and the active chain a vector, as in the theory of \<^verbatim>\<open>chain.cpp\<close>;
    \<^verbatim>\<open>ActiveChain\<close> forwards to that vector.
  \<^item> A pointer to the state of a block is the block: \<open>repo_Find\<close> reads the state, \<open>repo_write\<close> is a write through the pointer.
  \<^item> The database is a map from block hashes to states. Its cursor, the order in which \<^verbatim>\<open>mapBlockIndex\<close> is
    traversed, and the block storage are arguments.
  \<^item> The calls to the snapshot creator are collected in a list.
\<close>

record StateRepository =
  m_states :: "(ptr, FinState) fmap"
  m_genesis_state :: FinState
  m_restoring :: bool
  state_db :: "(u256, FinState) fmap"

datatype SnapshotCall = GenerateOrSkip u32 | FinalizeSnapshots "ptr option"

definition index_height :: "mem \<Rightarrow> ptr \<Rightarrow> u32" where
  "index_height mem b = of_nat (nHeight (mem b))"

subsection \<open>The states of the blocks\<close>

definition repo_Find :: "mem \<Rightarrow> ptr \<Rightarrow> StateRepository \<Rightarrow> FinState option" where
  "repo_Find mem b r = (if nHeight (mem b) = 0 then Some (m_genesis_state r) else fmlookup (m_states r) b)"

definition repo_write :: "mem \<Rightarrow> ptr \<Rightarrow> FinState \<Rightarrow> StateRepository \<Rightarrow> StateRepository" where
  "repo_write mem b st r =
     (if nHeight (mem b) = 0 then r\<lparr>m_genesis_state := st\<rparr> else r\<lparr>m_states := fmupd b st (m_states r)\<rparr>)"

definition GetTipState :: "mem \<Rightarrow> CChain \<Rightarrow> StateRepository \<Rightarrow> FinState option" where
  "GetTipState mem vChain r = (case chain_Tip vChain of None \<Rightarrow> None | Some b \<Rightarrow> repo_Find mem b r)"

text \<open>\<^const>\<open>None\<close> is the null pointer; the new state is that of the block in the returned repository.\<close>

definition repo_Create :: "mem \<Rightarrow> ptr \<Rightarrow> InitStatus \<Rightarrow> StateRepository \<Rightarrow> StateRepository option" where
  "repo_Create mem b required_parent_status r =
     (case pprev (mem b) of None \<Rightarrow> None
      | Some q \<Rightarrow>
        case repo_Find mem q r of None \<Rightarrow> None
        | Some parent_state \<Rightarrow>
          if nHeight (mem q) \<noteq> 0 \<and> m_status parent_state < required_parent_status then None
          else Some (r\<lparr>m_states := emplace b (FinState_copy parent_state NEW) (m_states r)\<rparr>))"

definition FindOrCreate :: "mem \<Rightarrow> ptr \<Rightarrow> InitStatus \<Rightarrow> StateRepository \<Rightarrow> StateRepository option" where
  "FindOrCreate mem b required_parent_status r =
     (if repo_Find mem b r \<noteq> None then Some r else repo_Create mem b required_parent_status r)"

text \<open>The loop over \<^verbatim>\<open>m_states\<close>, in the order of the pointers.\<close>

definition trim_origin :: "mem \<Rightarrow> CChain \<Rightarrow> ptr \<Rightarrow> ptr option" where
  "trim_origin mem vChain b =
     (if chain_Contains mem vChain b then Some b
      else do { f \<leftarrow> FindFork mem vChain (Some b); f })"

fun TrimUntilHeight_loop :: "mem \<Rightarrow> CChain \<Rightarrow> u32 \<Rightarrow> ptr list \<Rightarrow> StateRepository \<Rightarrow> StateRepository option" where
  "TrimUntilHeight_loop mem vChain h [] r = Some r"
| "TrimUntilHeight_loop mem vChain h (b # bs) r = do {
     index \<leftarrow> trim_origin mem vChain b;
     r \<leftarrow> (if index_height mem index < h
           then do {
             hash \<leftarrow> GetBlockHash mem b;
             Some (r\<lparr>state_db := fmdrop hash (state_db r), m_states := fmdrop b (m_states r)\<rparr>)
           } else Some r);
     TrimUntilHeight_loop mem vChain h bs r
   }"

definition TrimUntilHeight :: "mem \<Rightarrow> CChain \<Rightarrow> u32 \<Rightarrow> StateRepository \<Rightarrow> StateRepository option" where
  "TrimUntilHeight mem vChain h r = TrimUntilHeight_loop mem vChain h (sorted_list_of_fset (fmdom (m_states r))) r"

definition Confirm :: "ptr \<Rightarrow> FinState \<Rightarrow> StateRepository \<Rightarrow> (bool \<times> StateRepository) option" where
  "Confirm b new_state r = do {
     require (m_status new_state = COMPLETED);
     old_state \<leftarrow> fmlookup (m_states r) b;
     require (m_status old_state = FROM_COMMITS);
     Some (FinState_eq old_state new_state, r\<lparr>m_states := fmupd b new_state (m_states r)\<rparr>)
   }"

subsection \<open>Processing blocks and commits\<close>

definition ProcessNewTipWorker ::
  "(bytes \<Rightarrow> u160) \<Rightarrow> Params \<Rightarrow> mem \<Rightarrow> ptr \<Rightarrow> CBlock \<Rightarrow> StateRepository \<Rightarrow> (bool \<times> StateRepository) option" where
  "ProcessNewTipWorker Hash160 p mem b block r =
     (case FindOrCreate mem b FROM_COMMITS r of None \<Rightarrow> Some (False, r)
      | Some r \<Rightarrow> do {
          state \<leftarrow> repo_Find mem b r;
          (case m_status state of
             NEW \<Rightarrow> do {
               hash \<leftarrow> GetBlockHash mem b;
               state \<leftarrow> ProcessNewTip Hash160 p (index_height mem b) hash (vtx block) state;
               Some (True, repo_write mem b state r)
             }
           | FROM_COMMITS \<Rightarrow> do {
               q \<leftarrow> pprev (mem b);
               ancestor_state \<leftarrow> repo_Find mem q r;
               hash \<leftarrow> GetBlockHash mem b;
               new_state \<leftarrow> ProcessNewTip Hash160 p (index_height mem b) hash (vtx block) (FinState_copy ancestor_state NEW);
               (_, r) \<leftarrow> Confirm b new_state r;
               Some (True, r)
             }
           | COMPLETED \<Rightarrow> Some (True, r))
        })"

definition FinalizationHappened :: "mem \<Rightarrow> ptr \<Rightarrow> StateRepository \<Rightarrow> bool option" where
  "FinalizationHappened mem b r =
     (case pprev (mem b) of None \<Rightarrow> Some False
      | Some q \<Rightarrow>
        case (repo_Find mem q r, repo_Find mem b r) of
          (Some prev_state, Some new_state) \<Rightarrow>
            if m_last_finalized_epoch prev_state = m_last_finalized_epoch new_state then Some False
            else do {
              require (m_last_finalized_epoch new_state > m_last_finalized_epoch prev_state);
              Some True
            }
        | _ \<Rightarrow> Some False)"

definition proc_ProcessNewTipCandidate ::
  "(bytes \<Rightarrow> u160) \<Rightarrow> Params \<Rightarrow> mem \<Rightarrow> ptr \<Rightarrow> CBlock \<Rightarrow> StateRepository \<Rightarrow> (bool \<times> StateRepository) option" where
  "proc_ProcessNewTipCandidate Hash160 p mem b block r = ProcessNewTipWorker Hash160 p mem b block r"

definition proc_ProcessNewTip ::
  "(bytes \<Rightarrow> u160) \<Rightarrow> Params \<Rightarrow> mem \<Rightarrow> CChain \<Rightarrow> ptr \<Rightarrow> CBlock \<Rightarrow> StateRepository \<Rightarrow>
   (bool \<times> SnapshotCall list \<times> StateRepository) option" where
  "proc_ProcessNewTip Hash160 p mem vChain b block r = do {
     (ok, r) \<leftarrow> ProcessNewTipWorker Hash160 p mem b block r;
     if \<not> ok then Some (False, [], r)
     else do {
       calls \<leftarrow> (if nHeight (mem b) > 0 \<and> \<not> m_restoring r
                then do {
                  require (epoch_length p \<noteq> 0);
                  if (index_height mem b + 1) mod epoch_length p = 0
                  then do { tip \<leftarrow> GetTipState mem vChain r; Some [GenerateOrSkip (m_current_epoch tip)] }
                  else Some []
                } else Some []);
       happened \<leftarrow> FinalizationHappened mem b r;
       if happened then do {
         state \<leftarrow> repo_Find mem b r;
         let checkpoint_height = GetEpochCheckpointHeight p (m_last_finalized_epoch state);
         r \<leftarrow> TrimUntilHeight mem vChain checkpoint_height r;
         Some (True, calls @ [FinalizeSnapshots (chain_at vChain (sint checkpoint_height))], r)
       } else Some (True, calls, r)
     }
   }"

definition proc_ProcessNewCommits ::
  "(bytes \<Rightarrow> u160) \<Rightarrow> Params \<Rightarrow> mem \<Rightarrow> ptr \<Rightarrow> CTransaction list \<Rightarrow> StateRepository \<Rightarrow> (bool \<times> StateRepository) option" where
  "proc_ProcessNewCommits Hash160 p mem b txes r =
     (case FindOrCreate mem b FROM_COMMITS r of None \<Rightarrow> Some (False, r)
      | Some r \<Rightarrow> do {
          state \<leftarrow> repo_Find mem b r;
          (if m_status state = NEW
           then do {
             hash \<leftarrow> GetBlockHash mem b;
             state \<leftarrow> ProcessNewCommits Hash160 p (index_height mem b) hash txes state;
             Some (True, repo_write mem b state r)
           } else Some (True, r))
        })"

subsection \<open>The database\<close>

fun Save_loop :: "mem \<Rightarrow> ptr list \<Rightarrow> (ptr, FinState) fmap \<Rightarrow> (u256, FinState) fmap \<Rightarrow> (u256, FinState) fmap option" where
  "Save_loop mem [] states db = Some db"
| "Save_loop mem (b # bs) states db = do {
     hash \<leftarrow> GetBlockHash mem b;
     state \<leftarrow> fmlookup states b;
     Save_loop mem bs states (fmupd hash state db)
   }"

definition StateDB_Save :: "mem \<Rightarrow> (ptr, FinState) fmap \<Rightarrow> (u256, FinState) fmap \<Rightarrow> (u256, FinState) fmap option" where
  "StateDB_Save mem states db = Save_loop mem (sorted_list_of_fset (fmdom states)) states db"

text \<open>The cursor yields for each entry the key and the value, \<^const>\<open>None\<close> where it cannot be read. The result is the returned
  flag and the states; the assertion is that no two keys are of one block.\<close>

fun Load_loop :: "(u256, ptr) fmap \<Rightarrow> (u256 option \<times> FinState option) list \<Rightarrow> (ptr, FinState) fmap \<Rightarrow> (bool \<times> (ptr, FinState) fmap) option" where
  "Load_loop mapBlockIndex [] states = Some (True, states)"
| "Load_loop mapBlockIndex ((key, val) # cursor) states =
     (case key of None \<Rightarrow> Some (False, states)
      | Some key \<Rightarrow>
        case fmlookup mapBlockIndex key of None \<Rightarrow> Some (False, states)
        | Some b \<Rightarrow>
          case val of None \<Rightarrow> Some (False, states)
          | Some state \<Rightarrow> do {
              require (fmlookup states b = None);
              Load_loop mapBlockIndex cursor (fmupd b state states)
            })"

definition StateDB_Load ::
  "((u256, FinState) fmap \<Rightarrow> (u256 option \<times> FinState option) list) \<Rightarrow> (u256, ptr) fmap \<Rightarrow> (u256, FinState) fmap \<Rightarrow>
   (bool \<times> (ptr, FinState) fmap) option" where
  "StateDB_Load cursor mapBlockIndex db = Load_loop mapBlockIndex (cursor db) fmempty"

definition StateDB_Load_index ::
  "mem \<Rightarrow> (u256, FinState) fmap \<Rightarrow> ptr \<Rightarrow> (ptr, FinState) fmap \<Rightarrow> (bool \<times> (ptr, FinState) fmap) option" where
  "StateDB_Load_index mem db b states = do {
     hash \<leftarrow> GetBlockHash mem b;
     Some (case fmlookup db hash of None \<Rightarrow> (False, states) | Some state \<Rightarrow> (True, emplace b state states))
   }"

text \<open>The walks along \<^verbatim>\<open>pprev\<close> are bounded by the height of their start.\<close>

fun FindLastFinalizedEpoch_loop :: "mem \<Rightarrow> (u256, FinState) fmap \<Rightarrow> nat \<Rightarrow> ptr option \<Rightarrow> u32 option option" where
  "FindLastFinalizedEpoch_loop mem db n None = Some None"
| "FindLastFinalizedEpoch_loop mem db n (Some b) = do {
     hash \<leftarrow> GetBlockHash mem b;
     (case fmlookup db hash of Some state \<Rightarrow> Some (Some (m_last_finalized_epoch state))
      | None \<Rightarrow> (case n of 0 \<Rightarrow> None | Suc m \<Rightarrow> FindLastFinalizedEpoch_loop mem db m (pprev (mem b))))
   }"

definition tip_bound :: "mem \<Rightarrow> ptr option \<Rightarrow> nat" where
  "tip_bound mem b = (case b of None \<Rightarrow> 0 | Some b \<Rightarrow> nHeight (mem b) + 1)"

definition FindLastFinalizedEpoch :: "mem \<Rightarrow> CChain \<Rightarrow> (u256, FinState) fmap \<Rightarrow> u32 option option" where
  "FindLastFinalizedEpoch mem vChain db =
     FindLastFinalizedEpoch_loop mem db (tip_bound mem (chain_Tip vChain)) (chain_Tip vChain)"

fun LoadStatesHigherThan ::
  "mem \<Rightarrow> CChain \<Rightarrow> u32 \<Rightarrow> (u256, FinState) fmap \<Rightarrow> (u256 \<times> ptr) list \<Rightarrow> (ptr, FinState) fmap \<Rightarrow> (ptr, FinState) fmap option" where
  "LoadStatesHigherThan mem vChain h db [] states = Some states"
| "LoadStatesHigherThan mem vChain h db ((block_hash, b) # entries) states = do {
     f \<leftarrow> FindFork mem vChain (Some b);
     let states = (case f of
         Some origin \<Rightarrow> if index_height mem origin > h
           then (case fmlookup db block_hash of None \<Rightarrow> states | Some state \<Rightarrow> emplace b state states) else states
       | None \<Rightarrow> states);
     LoadStatesHigherThan mem vChain h db entries states
   }"

subsection \<open>Restoring and saving\<close>

definition LoadStatesFromDB ::
  "((u256, FinState) fmap \<Rightarrow> (u256 option \<times> FinState option) list) \<Rightarrow> Params \<Rightarrow> mem \<Rightarrow> CChain \<Rightarrow> (u256, ptr) fmap \<Rightarrow>
   (u256 \<times> ptr) list \<Rightarrow> StateRepository \<Rightarrow> (bool \<times> StateRepository) option" where
  "LoadStatesFromDB cursor p mem vChain mapBlockIndex entries r = do {
     last_finalized_epoch \<leftarrow> FindLastFinalizedEpoch mem vChain (state_db r);
     higher \<leftarrow> (case last_finalized_epoch of
         Some e \<Rightarrow> if e > 0 then LoadStatesHigherThan mem vChain (GetEpochCheckpointHeight p e) (state_db r) entries fmempty else Some fmempty
       | None \<Rightarrow> Some fmempty);
     if higher \<noteq> fmempty then Some (True, r\<lparr>m_states := higher\<rparr>)
     else do {
       (ok, states) \<leftarrow> StateDB_Load cursor mapBlockIndex (state_db r);
       Some (ok, r\<lparr>m_states := states\<rparr>)
     }
   }"

fun FindBestState_loop :: "mem \<Rightarrow> StateRepository \<Rightarrow> nat \<Rightarrow> ptr option \<Rightarrow> FinState option option" where
  "FindBestState_loop mem r n None = Some None"
| "FindBestState_loop mem r n (Some b) =
     (case repo_Find mem b r of Some state \<Rightarrow> Some (Some state)
      | None \<Rightarrow> (case n of 0 \<Rightarrow> None | Suc m \<Rightarrow> FindBestState_loop mem r m (pprev (mem b))))"

definition FindBestState :: "mem \<Rightarrow> CChain \<Rightarrow> StateRepository \<Rightarrow> FinState option option" where
  "FindBestState mem vChain r = FindBestState_loop mem r (tip_bound mem (chain_Tip vChain)) (chain_Tip vChain)"

text \<open>The first loop of the recovery of a block: the blocks without a state, the lowest first.\<close>

fun recover_walk :: "mem \<Rightarrow> nat \<Rightarrow> ptr option \<Rightarrow> ptr list \<Rightarrow> StateRepository \<Rightarrow> (ptr list \<times> StateRepository) option" where
  "recover_walk mem n None missed r = Some (missed, r)"
| "recover_walk mem n (Some b) missed r =
     (if repo_Find mem b r \<noteq> None then Some (missed, r)
      else do {
        (found, states) \<leftarrow> StateDB_Load_index mem (state_db r) b (m_states r);
        let r = r\<lparr>m_states := states\<rparr>;
        if found then do { require (repo_Find mem b r \<noteq> None); Some (missed, r) }
        else (case n of 0 \<Rightarrow> None | Suc m \<Rightarrow> recover_walk mem m (pprev (mem b)) (b # missed) r)
      })"

text \<open>The second loop; \<^const>\<open>None\<close> includes \<^verbatim>\<open>MissedBlockError\<close>.\<close>

fun recover_missed ::
  "(bytes \<Rightarrow> u160) \<Rightarrow> Params \<Rightarrow> (ptr \<Rightarrow> CBlock option) \<Rightarrow> mem \<Rightarrow> ptr list \<Rightarrow> ptr fset \<Rightarrow> StateRepository \<Rightarrow> (ptr fset \<times> StateRepository) option" where
  "recover_missed Hash160 p ReadBlock mem [] unrecoverable r = Some (unrecoverable, r)"
| "recover_missed Hash160 p ReadBlock mem (b # missed) unrecoverable r = do {
     (done, r) \<leftarrow> (case commits (mem b) of
         Some txes \<Rightarrow> proc_ProcessNewCommits Hash160 p mem b txes r
       | None \<Rightarrow> Some (False, r));
     if done then recover_missed Hash160 p ReadBlock mem missed unrecoverable r
     else if nStatus (mem b) AND BLOCK_HAVE_DATA \<noteq> 0
     then do {
       block \<leftarrow> ReadBlock b;
       (_, r) \<leftarrow> proc_ProcessNewTipCandidate Hash160 p mem b block r;
       recover_missed Hash160 p ReadBlock mem missed unrecoverable r
     }
     else recover_missed Hash160 p ReadBlock mem missed (finsert b unrecoverable) r
   }"

fun recover_entries ::
  "(bytes \<Rightarrow> u160) \<Rightarrow> Params \<Rightarrow> (ptr \<Rightarrow> CBlock option) \<Rightarrow> mem \<Rightarrow> CChain \<Rightarrow> u32 \<Rightarrow> (u256 \<times> ptr) list \<Rightarrow> ptr fset \<Rightarrow> StateRepository \<Rightarrow>
   (ptr fset \<times> StateRepository) option" where
  "recover_entries Hash160 p ReadBlock mem vChain h [] unrecoverable r = Some (unrecoverable, r)"
| "recover_entries Hash160 p ReadBlock mem vChain h ((_, b) # entries) unrecoverable r =
     (if b |\<in>| unrecoverable then recover_entries Hash160 p ReadBlock mem vChain h entries unrecoverable r
      else do {
        f \<leftarrow> FindFork mem vChain (Some b);
        (unrecoverable, r) \<leftarrow> (case f of
            None \<Rightarrow> Some (unrecoverable, r)
          | Some origin \<Rightarrow>
              if index_height mem origin \<le> h then Some (unrecoverable, r)
              else do {
                (missed, r) \<leftarrow> recover_walk mem (nHeight (mem b) + 1) (Some b) [] r;
                recover_missed Hash160 p ReadBlock mem missed unrecoverable r
              });
        recover_entries Hash160 p ReadBlock mem vChain h entries unrecoverable r
      })"

definition CheckAndRecover ::
  "(bytes \<Rightarrow> u160) \<Rightarrow> Params \<Rightarrow> (ptr \<Rightarrow> CBlock option) \<Rightarrow> mem \<Rightarrow> CChain \<Rightarrow> (u256 \<times> ptr) list \<Rightarrow> StateRepository \<Rightarrow> StateRepository option" where
  "CheckAndRecover Hash160 p ReadBlock mem vChain entries r = do {
     best \<leftarrow> FindBestState mem vChain r;
     (case best of None \<Rightarrow> Some r
      | Some state \<Rightarrow> do {
          let h = GetEpochCheckpointHeight p (m_last_finalized_epoch state);
          (unrecoverable, r) \<leftarrow> recover_entries Hash160 p ReadBlock mem vChain h entries {||} r;
          require (fBall unrecoverable (\<lambda>u. \<not> chain_Contains mem vChain u));
          TrimUntilHeight mem vChain h r
        })
   }"

definition RestoreFromDisk ::
  "(bytes \<Rightarrow> u160) \<Rightarrow> Params \<Rightarrow> (ptr \<Rightarrow> CBlock option) \<Rightarrow> ((u256, FinState) fmap \<Rightarrow> (u256 option \<times> FinState option) list) \<Rightarrow>
   mem \<Rightarrow> CChain \<Rightarrow> (u256, ptr) fmap \<Rightarrow> (u256 \<times> ptr) list \<Rightarrow> StateRepository \<Rightarrow> (bool \<times> StateRepository) option" where
  "RestoreFromDisk Hash160 p ReadBlock cursor mem vChain mapBlockIndex entries r = do {
     (ok, r) \<leftarrow> LoadStatesFromDB cursor p mem vChain mapBlockIndex entries (r\<lparr>m_restoring := True\<rparr>);
     if \<not> ok then Some (False, r\<lparr>m_restoring := False\<rparr>)
     else do {
       r \<leftarrow> CheckAndRecover Hash160 p ReadBlock mem vChain entries r;
       Some (True, r\<lparr>m_restoring := False\<rparr>)
     }
   }"

definition SaveToDisk :: "mem \<Rightarrow> StateRepository \<Rightarrow> (bool \<times> StateRepository) option" where
  "SaveToDisk mem r = do {
     db \<leftarrow> StateDB_Save mem (m_states r) (state_db r);
     Some (True, r\<lparr>state_db := db\<rparr>)
   }"

end
