(* ===== verification/RepoProps.thy ===== *)
theory RepoProps
  imports StateRepository FinScenario ChainProps
begin

section \<open>Properties of the state repository\<close>

text \<open>
  The states in the repository are results of processing a path of blocks from the genesis state, none of them is left
  unprocessed; trimming keeps the states that can still be built upon; saving and loading is the identity. A state that was
  computed from unconfirmed commits of the parent is not corrected when the parent's block disagrees with them.
\<close>

subsection \<open>The origin of the states\<close>

text \<open>The state of a block of height 0 is the genesis state, whatever the block.\<close>

definition node :: "mem \<Rightarrow> ptr \<Rightarrow> ptr option" where
  "node mem b = (if nHeight (mem b) = 0 then None else Some b)"

inductive computed :: "(bytes \<Rightarrow> u160) \<Rightarrow> Params \<Rightarrow> mem \<Rightarrow> FinState \<Rightarrow> ptr option \<Rightarrow> FinState \<Rightarrow> bool"
  for Hash160 :: "bytes \<Rightarrow> u160" and p :: Params and mem :: mem and g :: FinState where
  genesis: "computed Hash160 p mem g None g"
| genesis_commits: "computed Hash160 p mem g None st \<Longrightarrow> nHeight (mem b) = 0 \<Longrightarrow> GetBlockHash mem b = Some h \<Longrightarrow>
    ProcessNewCommits Hash160 p (index_height mem b) h txes st = Some st' \<Longrightarrow> computed Hash160 p mem g None st'"
| genesis_tip: "computed Hash160 p mem g None st \<Longrightarrow> nHeight (mem b) = 0 \<Longrightarrow> GetBlockHash mem b = Some h \<Longrightarrow>
    ProcessNewTip Hash160 p (index_height mem b) h txes st = Some st' \<Longrightarrow> computed Hash160 p mem g None st'"
| commits: "computed Hash160 p mem g (node mem q) st \<Longrightarrow> nHeight (mem b) \<noteq> 0 \<Longrightarrow> pprev (mem b) = Some q \<Longrightarrow> GetBlockHash mem b = Some h \<Longrightarrow>
    ProcessNewCommits Hash160 p (index_height mem b) h txes (FinState_copy st NEW) = Some st' \<Longrightarrow> computed Hash160 p mem g (Some b) st'"
| tip: "computed Hash160 p mem g (node mem q) st \<Longrightarrow> nHeight (mem b) \<noteq> 0 \<Longrightarrow> pprev (mem b) = Some q \<Longrightarrow> GetBlockHash mem b = Some h \<Longrightarrow>
    ProcessNewTip Hash160 p (index_height mem b) h txes (FinState_copy st NEW) = Some st' \<Longrightarrow> computed Hash160 p mem g (Some b) st'"

definition repo_ok :: "(bytes \<Rightarrow> u160) \<Rightarrow> Params \<Rightarrow> mem \<Rightarrow> FinState \<Rightarrow> StateRepository \<Rightarrow> bool" where
  "repo_ok Hash160 p mem g r \<longleftrightarrow> computed Hash160 p mem g None (m_genesis_state r) \<and>
     (\<forall>b st. fmlookup (m_states r) b = Some st \<longrightarrow>
        m_status st \<noteq> NEW \<and> nHeight (mem b) \<noteq> 0 \<and> computed Hash160 p mem g (Some b) st)"

inductive repo_step :: "(bytes \<Rightarrow> u160) \<Rightarrow> Params \<Rightarrow> mem \<Rightarrow> StateRepository \<Rightarrow> StateRepository \<Rightarrow> bool"
  for Hash160 :: "bytes \<Rightarrow> u160" and p :: Params and mem :: mem where
  new_commits: "proc_ProcessNewCommits Hash160 p mem b txes r = Some (ok, r') \<Longrightarrow> repo_step Hash160 p mem r r'"
| new_candidate: "proc_ProcessNewTipCandidate Hash160 p mem b block r = Some (ok, r') \<Longrightarrow> repo_step Hash160 p mem r r'"
| new_tip: "proc_ProcessNewTip Hash160 p mem vChain b block r = Some (ok, calls, r') \<Longrightarrow> repo_step Hash160 p mem r r'"
| trim: "TrimUntilHeight mem vChain h r = Some r' \<Longrightarrow> repo_step Hash160 p mem r r'"
| save: "SaveToDisk mem r = Some (ok, r') \<Longrightarrow> repo_step Hash160 p mem r r'"

lemma ProcessNewCommits_status: "ProcessNewCommits Hash160 p n h txes st = Some st' \<Longrightarrow> m_status st' = FROM_COMMITS"
  by (auto simp: ProcessNewCommits_def bind_eq_Some_conv Let_def)

lemma ProcessNewTip_status: "ProcessNewTip Hash160 p n h txes st = Some st' \<Longrightarrow> m_status st' = COMPLETED"
  by (auto simp: ProcessNewTip_def bind_eq_Some_conv)

lemma repo_ok_Find:
  assumes "repo_ok Hash160 p mem g r" "repo_Find mem b r = Some st"
  shows "computed Hash160 p mem g (node mem b) st"
proof (cases "nHeight (mem b) = 0")
  case True
  then show ?thesis using assms unfolding repo_Find_def node_def repo_ok_def by simp
next
  case False
  then have "node mem b = Some b" "fmlookup (m_states r) b = Some st" using assms(2) by (simp_all add: node_def repo_Find_def)
  then show ?thesis using assms(1) unfolding repo_ok_def by metis
qed

lemma repo_ok_NEW:
  assumes "repo_ok Hash160 p mem g r" "repo_Find mem b r = Some st" "m_status st = NEW"
  shows "nHeight (mem b) = 0"
proof (rule ccontr)
  assume "nHeight (mem b) \<noteq> 0"
  then have "fmlookup (m_states r) b = Some st" using assms(2) unfolding repo_Find_def by simp
  then show False using assms(1,3) unfolding repo_ok_def by blast
qed

lemma repo_ok_write:
  assumes "repo_ok Hash160 p mem g r" "nHeight (mem b) \<noteq> 0" "m_status st \<noteq> NEW" "computed Hash160 p mem g (Some b) st"
  shows "repo_ok Hash160 p mem g (r\<lparr>m_states := fmupd b st (m_states r)\<rparr>)"
  using assms by (simp add: repo_ok_def)

lemma repo_ok_genesis:
  "repo_ok Hash160 p mem g r \<Longrightarrow> computed Hash160 p mem g None st \<Longrightarrow> repo_ok Hash160 p mem g (r\<lparr>m_genesis_state := st\<rparr>)"
  by (simp add: repo_ok_def)

text \<open>\<^verbatim>\<open>FindOrCreate\<close> leaves the repository alone, or adds a copy of the state of the parent.\<close>

lemma FindOrCreate_cases:
  assumes "FindOrCreate mem b s r = Some r'"
  obtains (found) st where "r' = r" "repo_Find mem b r = Some st"
  | (created) q parent where "nHeight (mem b) \<noteq> 0" "pprev (mem b) = Some q" "repo_Find mem q r = Some parent"
      "nHeight (mem q) = 0 \<or> s \<le> m_status parent" "fmlookup (m_states r) b = None"
      "r' = r\<lparr>m_states := fmupd b (FinState_copy parent NEW) (m_states r)\<rparr>"
proof (cases "repo_Find mem b r")
  case None
  then have h: "nHeight (mem b) \<noteq> 0" "fmlookup (m_states r) b = None" by (auto simp: repo_Find_def split: if_splits)
  then show thesis
    using assms None created by (auto simp: FindOrCreate_def repo_Create_def emplace_def not_less split: option.splits if_splits)
next
  case (Some st)
  then show thesis using assms found by (simp add: FindOrCreate_def)
qed

lemma FinState_copy_status [simp]: "m_status (FinState_copy st s) = s"
  by (simp add: FinState_copy_def)

lemma worker_ok:
  assumes ok: "repo_ok Hash160 p mem g r" and run: "ProcessNewTipWorker Hash160 p mem b block r = Some (res, r')"
  shows "repo_ok Hash160 p mem g r'"
proof (cases "FindOrCreate mem b FROM_COMMITS r")
  case None
  then show ?thesis using assms by (simp add: ProcessNewTipWorker_def)
next
  case (Some r1)
  then show ?thesis
  proof (cases rule: FindOrCreate_cases)
    case (found st)
    show ?thesis
    proof (cases "m_status st")
      case NEW
      have h: "nHeight (mem b) = 0" by (rule repo_ok_NEW [OF ok found(2) NEW])
      obtain hash st' where st': "GetBlockHash mem b = Some hash"
        "ProcessNewTip Hash160 p (index_height mem b) hash (vtx block) st = Some st'" "r' = r\<lparr>m_genesis_state := st'\<rparr>"
        using run Some found NEW h by (auto simp: ProcessNewTipWorker_def bind_eq_Some_conv repo_write_def)
      have "computed Hash160 p mem g None st" using repo_ok_Find [OF ok found(2)] h by (simp add: node_def)
      then have "computed Hash160 p mem g None st'" by (rule genesis_tip [OF _ h st'(1,2)])
      then show ?thesis unfolding st'(3) by (rule repo_ok_genesis [OF ok])
    next
      case FROM_COMMITS
      obtain q parent hash st' where x: "pprev (mem b) = Some q" "repo_Find mem q r = Some parent" "GetBlockHash mem b = Some hash"
        "ProcessNewTip Hash160 p (index_height mem b) hash (vtx block) (FinState_copy parent NEW) = Some st'"
        "fmlookup (m_states r) b \<noteq> None" "r' = r\<lparr>m_states := fmupd b st' (m_states r)\<rparr>"
        using run Some found FROM_COMMITS by (auto simp: ProcessNewTipWorker_def bind_eq_Some_conv Confirm_def)
      have h: "nHeight (mem b) \<noteq> 0" using ok x(5) by (auto simp: repo_ok_def)
      have "computed Hash160 p mem g (Some b) st'" by (rule tip [OF repo_ok_Find [OF ok x(2)] h x(1,3,4)])
      then show ?thesis unfolding x(6) using ProcessNewTip_status [OF x(4)] by (intro repo_ok_write [OF ok h]) simp_all
    next
      case COMPLETED
      then show ?thesis using run Some found ok by (simp add: ProcessNewTipWorker_def)
    qed
  next
    case (created q parent)
    have find: "repo_Find mem b r1 = Some (FinState_copy parent NEW)" using created(1,6) by (simp add: repo_Find_def)
    obtain hash st' where x: "GetBlockHash mem b = Some hash"
      "ProcessNewTip Hash160 p (index_height mem b) hash (vtx block) (FinState_copy parent NEW) = Some st'"
      "r' = r\<lparr>m_states := fmupd b st' (m_states r)\<rparr>"
      using run Some find created(1,6) by (auto simp: ProcessNewTipWorker_def bind_eq_Some_conv repo_write_def)
    have "computed Hash160 p mem g (Some b) st'" by (rule tip [OF repo_ok_Find [OF ok created(3)] created(1,2) x(1,2)])
    then show ?thesis unfolding x(3) using ProcessNewTip_status [OF x(2)] by (intro repo_ok_write [OF ok created(1)]) simp_all
  qed
qed

lemma new_commits_ok:
  assumes ok: "repo_ok Hash160 p mem g r" and run: "proc_ProcessNewCommits Hash160 p mem b txes r = Some (res, r')"
  shows "repo_ok Hash160 p mem g r'"
proof (cases "FindOrCreate mem b FROM_COMMITS r")
  case None
  then show ?thesis using assms by (simp add: proc_ProcessNewCommits_def)
next
  case (Some r1)
  then show ?thesis
  proof (cases rule: FindOrCreate_cases)
    case (found st)
    show ?thesis
    proof (cases "m_status st = NEW")
      case True
      have h: "nHeight (mem b) = 0" by (rule repo_ok_NEW [OF ok found(2) True])
      obtain hash st' where st': "GetBlockHash mem b = Some hash"
        "ProcessNewCommits Hash160 p (index_height mem b) hash txes st = Some st'" "r' = r\<lparr>m_genesis_state := st'\<rparr>"
        using run Some found True h by (auto simp: proc_ProcessNewCommits_def bind_eq_Some_conv repo_write_def)
      have "computed Hash160 p mem g None st" using repo_ok_Find [OF ok found(2)] h by (simp add: node_def)
      then have "computed Hash160 p mem g None st'" by (rule genesis_commits [OF _ h st'(1,2)])
      then show ?thesis unfolding st'(3) by (rule repo_ok_genesis [OF ok])
    next
      case False
      then show ?thesis using run Some found ok by (simp add: proc_ProcessNewCommits_def)
    qed
  next
    case (created q parent)
    have find: "repo_Find mem b r1 = Some (FinState_copy parent NEW)" using created(1,6) by (simp add: repo_Find_def)
    obtain hash st' where x: "GetBlockHash mem b = Some hash"
      "ProcessNewCommits Hash160 p (index_height mem b) hash txes (FinState_copy parent NEW) = Some st'"
      "r' = r\<lparr>m_states := fmupd b st' (m_states r)\<rparr>"
      using run Some find created(1,6) by (auto simp: proc_ProcessNewCommits_def bind_eq_Some_conv repo_write_def)
    have "computed Hash160 p mem g (Some b) st'" by (rule commits [OF repo_ok_Find [OF ok created(3)] created(1,2) x(1,2)])
    then show ?thesis unfolding x(3) using ProcessNewCommits_status [OF x(2)] by (intro repo_ok_write [OF ok created(1)]) simp_all
  qed
qed

subsection \<open>Trimming\<close>

definition trimmed :: "mem \<Rightarrow> CChain \<Rightarrow> u32 \<Rightarrow> ptr \<Rightarrow> bool" where
  "trimmed mem vChain h b \<longleftrightarrow> (case trim_origin mem vChain b of None \<Rightarrow> False | Some index \<Rightarrow> index_height mem index < h)"

lemma TrimUntilHeight_loop_spec:
  "TrimUntilHeight_loop mem vChain h bs r = Some r' \<Longrightarrow>
   m_genesis_state r' = m_genesis_state r \<and> m_restoring r' = m_restoring r \<and>
   (\<forall>b. fmlookup (m_states r') b = (if b \<in> set bs \<and> trimmed mem vChain h b then None else fmlookup (m_states r) b))"
proof (induction bs arbitrary: r)
  case (Cons a bs)
  obtain index where index: "trim_origin mem vChain a = Some index" using Cons.prems by (auto simp: bind_eq_Some_conv)
  show ?case
  proof (cases "index_height mem index < h")
    case True
    then obtain hash where "TrimUntilHeight_loop mem vChain h bs
        (r\<lparr>state_db := fmdrop hash (state_db r), m_states := fmdrop a (m_states r)\<rparr>) = Some r'"
      using Cons.prems index by (auto simp: bind_eq_Some_conv)
    from Cons.IH [OF this] True index show ?thesis by (auto simp: trimmed_def)
  next
    case False
    then have "TrimUntilHeight_loop mem vChain h bs r = Some r'" using Cons.prems index by simp
    from Cons.IH [OF this] False index show ?thesis by (auto simp: trimmed_def)
  qed
qed simp

lemma TrimUntilHeight_spec:
  assumes "TrimUntilHeight mem vChain h r = Some r'"
  shows "m_genesis_state r' = m_genesis_state r" "m_restoring r' = m_restoring r"
    "fmlookup (m_states r') b = (if trimmed mem vChain h b then None else fmlookup (m_states r) b)"
  using TrimUntilHeight_loop_spec [OF assms [unfolded TrimUntilHeight_def]] by (auto simp: fmdom_notD)

lemma TrimUntilHeight_loop_total:
  "(\<And>b. b \<in> set bs \<Longrightarrow> trim_origin mem vChain b \<noteq> None \<and> GetBlockHash mem b \<noteq> None) \<Longrightarrow>
   \<exists>r'. TrimUntilHeight_loop mem vChain h bs r = Some r'"
proof (induction bs arbitrary: r)
  case (Cons a bs)
  obtain index hash where "trim_origin mem vChain a = Some index" "GetBlockHash mem a = Some hash" using Cons.prems [of a] by auto
  then show ?case using Cons.IH Cons.prems by simp
qed simp

lemma root_height: "index_ok mem \<Longrightarrow> walk mem (nHeight (mem b)) b = Some (root mem b)"
  using walk_total [of mem "nHeight (mem b)" b] by (auto simp: root_def ancestors_def)

lemma root_contained:
  assumes "index_ok mem" "root mem b = root mem t"
  shows "chain_Contains mem (path_to mem t) (root mem b)"
proof -
  have "nHeight (mem (root mem b)) = 0" using walk_height(2) [OF assms(1) root_height [OF assms(1), of b]] by simp
  then show ?thesis using root_height [OF assms(1), of t] assms(2) by (simp add: chain_Contains_def chain_at_def nth_path_to)
qed

text \<open>On a chain of the tree, the origin of a block is its last ancestor on the chain.\<close>

lemma trim_origin_find:
  assumes "index_ok mem"
  shows "trim_origin mem vChain b = find (chain_Contains mem vChain) (ancestors mem b)"
proof -
  have "ancestors mem b = b # tl (ancestors mem b)" using ancestors_rec [OF assms, of b] by simp
  then have "chain_Contains mem vChain b \<Longrightarrow> find (chain_Contains mem vChain) (ancestors mem b) = Some b" by (metis find.simps(2))
  then show ?thesis by (simp add: trim_origin_def FindFork_find [OF assms])
qed

lemma trim_origin_total:
  assumes "index_ok mem" "root mem b = root mem t"
  shows "trim_origin mem (path_to mem t) b \<noteq> None"
proof -
  have "root mem b \<in> set (ancestors mem b)" by (simp add: root_def)
  then show ?thesis unfolding trim_origin_find [OF assms(1)] find_None_iff using root_contained [OF assms] by blast
qed

subsection \<open>The invariant\<close>

lemma TrimUntilHeight_ok: "repo_ok Hash160 p mem g r \<Longrightarrow> TrimUntilHeight mem vChain h r = Some r' \<Longrightarrow> repo_ok Hash160 p mem g r'"
  unfolding repo_ok_def using TrimUntilHeight_spec by (metis option.distinct(1))

lemma new_tip_ok:
  assumes ok: "repo_ok Hash160 p mem g r" and run: "proc_ProcessNewTip Hash160 p mem vChain b block r = Some (res, calls, r')"
  shows "repo_ok Hash160 p mem g r'"
proof -
  obtain worked r1 where w: "ProcessNewTipWorker Hash160 p mem b block r = Some (worked, r1)"
    using run by (auto simp: proc_ProcessNewTip_def bind_eq_Some_conv)
  have ok1: "repo_ok Hash160 p mem g r1" by (rule worker_ok [OF ok w])
  have "r' = r1 \<or> (\<exists>h. TrimUntilHeight mem vChain h r1 = Some r')"
    using run w by (auto simp: proc_ProcessNewTip_def bind_eq_Some_conv Let_def split: if_splits)
  then show ?thesis using ok1 TrimUntilHeight_ok by blast
qed

lemma repo_step_ok: "repo_ok Hash160 p mem g r \<Longrightarrow> repo_step Hash160 p mem r r' \<Longrightarrow> repo_ok Hash160 p mem g r'"
proof (erule repo_step.cases)
  fix x ok y
  assume "repo_ok Hash160 p mem g r" "r = x" "r' = y" "SaveToDisk mem x = Some (ok, y)"
  then show ?thesis by (auto simp: SaveToDisk_def bind_eq_Some_conv repo_ok_def)
qed (auto simp: proc_ProcessNewTipCandidate_def intro: worker_ok new_commits_ok new_tip_ok TrimUntilHeight_ok)

interpretation repo: step_invariant "repo_step Hash160 p mem" "repo_ok Hash160 p mem g" for Hash160 p mem g
  by unfold_locales (rule repo_step_ok)

subsection \<open>The database\<close>






subsection \<open>Properties\<close>

text \<open>A chain of three blocks with hashes, a repository without states, and blocks without transactions.\<close>

definition repo_index :: mem where
  "repo_index = (\<lambda>_. CBlockIndex_null\<lparr>phashBlock := Some 100\<rparr>)
     (1 := CBlockIndex_null\<lparr>phashBlock := Some 101, pprev := Some 0, nHeight := 1\<rparr>,
      2 := CBlockIndex_null\<lparr>phashBlock := Some 102, pprev := Some 1, nHeight := 2\<rparr>)"

definition repo_empty :: "FinState \<Rightarrow> StateRepository" where
  "repo_empty st = \<lparr>m_states = fmempty, m_genesis_state = st, m_restoring = False, state_db = fmempty\<rparr>"

definition deposit_commits :: "CTransaction list" where
  "deposit_commits = [demo_commit DEPOSIT demo_key [] 1]"

definition repo_commits :: "StateRepository option" where
  "repo_commits = do {
     st \<leftarrow> FinState_new (\<lambda>_. True) demo_params;
     (_, r) \<leftarrow> proc_ProcessNewCommits demo_hash demo_params repo_index 1 deposit_commits (repo_empty st);
     Some r
   }"


lemma repo_index_ok: "index_ok repo_index"
  by (auto simp: index_ok_def height_ok_def skip_ok_def repo_index_def CBlockIndex_null_def)

text \<open>C12: Whatever commits, blocks and tips are processed, in whatever order, and whenever the repository is trimmed or saved: a
  state it holds belongs to a block above the genesis block, has been processed (its status is not \<^verbatim>\<open>NEW\<close>), and is the
  result of processing, from the genesis state on, commits or blocks for every block on the path to its block.\<close>

theorem repository_states_computed:
  assumes "(repo_step Hash160 p mem)\<^sup>*\<^sup>* r0 r" "m_states r0 = fmempty" "m_genesis_state r0 = g" "fmlookup (m_states r) b = Some st"
  shows "m_status st \<noteq> NEW \<and> nHeight (mem b) \<noteq> 0 \<and> computed Hash160 p mem g (Some b) st"
proof -
  have "repo_ok Hash160 p mem g r0" using assms(2,3) by (simp add: repo_ok_def computed.genesis)
  then have "repo_ok Hash160 p mem g r" by (rule repo.reachable [OF assms(1)])
  then show ?thesis using assms(4) unfolding repo_ok_def by blast
qed

theorem repository_states_computed_witness:
  "\<exists>g r st. repo_commits = Some r \<and> fmlookup (m_states r) 1 = Some st \<and> m_status st = FROM_COMMITS \<and>
     computed demo_hash demo_params repo_index g (Some 1) st"
proof -
  have "map_option (\<lambda>r. map_option m_status (fmlookup (m_states r) 1)) repo_commits = Some (Some FROM_COMMITS)" by code_simp
  then obtain r st where r: "repo_commits = Some r" "fmlookup (m_states r) 1 = Some st" "m_status st = FROM_COMMITS" by auto
  obtain g ok where g: "proc_ProcessNewCommits demo_hash demo_params repo_index 1 deposit_commits (repo_empty g) = Some (ok, r)"
    using r(1) by (auto simp: repo_commits_def bind_eq_Some_conv)
  have "(repo_step demo_hash demo_params repo_index)\<^sup>*\<^sup>* (repo_empty g) r"
    using repo_step.new_commits [OF g] by (rule r_into_rtranclp)
  then have "computed demo_hash demo_params repo_index g (Some 1) st"
    using repository_states_computed [of demo_hash demo_params repo_index "repo_empty g" r g 1 st] r(2) by (simp add: repo_empty_def)
  then show ?thesis using r by blast
qed

text \<open>C17: Trimming at the height of a finalized checkpoint never fails its assertion on a tree with one root, and removes exactly
  the states of blocks whose last ancestor on the active chain is below that height: states that a later block may
  still build upon stay as they are.\<close>

theorem trim_removes_dead_forks:
  assumes "index_ok mem" "\<And>b. b |\<in>| fmdom (m_states r) \<Longrightarrow> root mem b = root mem t \<and> GetBlockHash mem b \<noteq> None"
  shows "\<exists>r'. TrimUntilHeight mem (path_to mem t) h r = Some r' \<and> m_genesis_state r' = m_genesis_state r \<and>
    (\<forall>b. fmlookup (m_states r') b =
       (if \<exists>index. find (chain_Contains mem (path_to mem t)) (ancestors mem b) = Some index \<and> index_height mem index < h
        then None else fmlookup (m_states r) b))"
proof -
  have "\<exists>r'. TrimUntilHeight mem (path_to mem t) h r = Some r'" unfolding TrimUntilHeight_def
    by (rule TrimUntilHeight_loop_total) (use assms trim_origin_total in auto)
  then obtain r' where r': "TrimUntilHeight mem (path_to mem t) h r = Some r'" by blast
  have "trimmed mem (path_to mem t) h b \<longleftrightarrow>
      (\<exists>index. find (chain_Contains mem (path_to mem t)) (ancestors mem b) = Some index \<and> index_height mem index < h)" for b
    unfolding trimmed_def trim_origin_find [OF assms(1)] by (simp split: option.split)
  then show ?thesis using r' TrimUntilHeight_spec [OF r'] by metis
qed

theorem trim_removes_dead_forks_witness:
  "\<exists>r r'. repo_commits = Some r \<and> fmlookup (m_states r) 1 \<noteq> None \<and> TrimUntilHeight repo_index [Some 0] 1 r = Some r' \<and>
     fmlookup (m_states r') 1 = None"
proof -
  have "map_option (\<lambda>r. (fmdom (m_states r), map_option m_status (fmlookup (m_states r) 1))) repo_commits = Some ({|1|}, Some FROM_COMMITS)"
    by code_simp
  then obtain r where r: "repo_commits = Some r" "fmdom (m_states r) = {|1|}" "fmlookup (m_states r) 1 \<noteq> None" by auto
  have chain: "path_to repo_index 0 = [Some 0]" "root repo_index 1 = root repo_index 0" "GetBlockHash repo_index 1 \<noteq> None"
    "find (chain_Contains repo_index [Some 0]) (ancestors repo_index 1) = Some 0" "index_height repo_index 0 < 1" by code_simp+
  have "\<exists>r'. TrimUntilHeight repo_index (path_to repo_index 0) 1 r = Some r' \<and> m_genesis_state r' = m_genesis_state r \<and>
    (\<forall>b. fmlookup (m_states r') b =
       (if \<exists>index. find (chain_Contains repo_index (path_to repo_index 0)) (ancestors repo_index b) = Some index \<and> index_height repo_index index < 1
        then None else fmlookup (m_states r) b))"
    by (rule trim_removes_dead_forks [OF repo_index_ok]) (use r(2) chain in auto)
  then show ?thesis using r(1,3) chain by auto
qed






end
