(* ===== verification/ChainState.thy ===== *)
theory ChainState
  imports StateRepository
begin

section \<open>The chain state: block index, candidates and the choice of the best chain\<close>

text \<open>
  The part of \<^verbatim>\<open>CChainState\<close> (\<^verbatim>\<open>validation.cpp\<close>) that maintains the block index and chooses the chain to follow:
  headers enter the index, blocks whose data and ancestors are there become candidates, candidates are ordered by finality,
  justification and work, and the best usable one is the chain to activate.

  \<^item> The state holds the store of index entries, the next free pointer, and the repository of finalization states.
  \<^item> \<^verbatim>\<open>setBlockIndexCandidates\<close> is a set; its order is that of the comparator, whose largest element is \<^verbatim>\<open>rbegin\<close>.
    The order is read off the entries as they are when an operation looks at the set; a \<^verbatim>\<open>std::set\<close> agrees with it as
    long as the compared fields of an entry do not change while it is in the set.
    \<^verbatim>\<open>mapBlocksUnlinked\<close> is the list of its entries, in the order of their insertion.
  \<^item> The checks of a header, the reading of a block from disk and the hash function are arguments.
\<close>

definition BLOCK_VALID_TREE :: u32 where
  "BLOCK_VALID_TREE = 2"

definition BLOCK_VALID_TRANSACTIONS :: u32 where
  "BLOCK_VALID_TRANSACTIONS = 3"

definition BLOCK_VALID_SCRIPTS :: u32 where
  "BLOCK_VALID_SCRIPTS = 5"

record CChainState =
  cs_mem :: mem
  cs_next :: ptr
  chainActive :: CChain
  mapBlockIndex :: "(u256, ptr) fmap"
  setBlockIndexCandidates :: "ptr fset"
  mapBlocksUnlinked :: "(ptr option \<times> ptr) list"
  nBlockSequenceId :: u32
  m_failed_blocks :: "ptr fset"
  setDirtyBlockIndex :: "ptr fset"
  pindexBestInvalid :: "ptr option"
  pindexBestHeader :: "ptr option"
  cs_repo :: StateRepository

definition cs_write :: "ptr \<Rightarrow> CBlockIndex \<Rightarrow> CChainState \<Rightarrow> CChainState" where
  "cs_write b e cs = cs\<lparr>cs_mem := (cs_mem cs)(b := e)\<rparr>"

subsection \<open>The order of candidates\<close>

text \<open>\<^verbatim>\<open>operator()(pa, pb)\<close>: \<open>pa\<close> is worse than \<open>pb\<close>.\<close>

definition CBlockIndexWorkComparator :: "mem \<Rightarrow> ptr \<Rightarrow> ptr \<Rightarrow> bool" where
  "CBlockIndexWorkComparator mem pa pb =
     (let a = mem pa; b = mem pb in
      if \<not> forking_before_active_finalization a \<and> forking_before_active_finalization b then False
      else if forking_before_active_finalization a \<and> \<not> forking_before_active_finalization b then True
      else if last_justified_epoch a > last_justified_epoch b then False
      else if last_justified_epoch a < last_justified_epoch b then True
      else if CompareTo (nChainWork a) (nChainWork b) > 0 then False
      else if CompareTo (nChainWork a) (nChainWork b) < 0 then True
      else if sint (nSequenceId a) < sint (nSequenceId b) then False
      else if sint (nSequenceId a) > sint (nSequenceId b) then True
      else if pa < pb then False
      else if pa > pb then True
      else False)"

fun best_of :: "mem \<Rightarrow> ptr list \<Rightarrow> ptr option" where
  "best_of mem [] = None"
| "best_of mem (b # bs) =
     (case best_of mem bs of None \<Rightarrow> Some b | Some c \<Rightarrow> Some (if CBlockIndexWorkComparator mem c b then b else c))"

definition candidates_rbegin :: "mem \<Rightarrow> ptr fset \<Rightarrow> ptr option" where
  "candidates_rbegin mem S = best_of mem (sorted_list_of_fset S)"

subsection \<open>Adding headers\<close>

definition AddToBlockIndex :: "(bytes \<Rightarrow> u256) \<Rightarrow> CBlockHeader \<Rightarrow> CChainState \<Rightarrow> (ptr \<times> CChainState) option" where
  "AddToBlockIndex Hash block cs =
     (let hash = header_GetHash Hash block in
      case fmlookup (mapBlockIndex cs) hash of Some b \<Rightarrow> Some (b, cs)
      | None \<Rightarrow> do {
          let b = cs_next cs;
          let cs = (cs_write b ((CBlockIndex_of block)\<lparr>nSequenceId := 0, phashBlock := Some hash\<rparr>) cs)
            \<lparr>cs_next := b + 1, mapBlockIndex := fmupd hash b (mapBlockIndex cs)\<rparr>;
          mem \<leftarrow> (case fmlookup (mapBlockIndex cs) (h_hashPrevBlock block) of
              None \<Rightarrow> Some (cs_mem cs)
            | Some q \<Rightarrow>
                let mem = (cs_mem cs)(b := (cs_mem cs b)\<lparr>pprev := Some q\<rparr>);
                    mem = mem(b := (mem b)\<lparr>nHeight := nHeight (mem q) + 1\<rparr>)
                in BuildSkip mem b);
          let e = mem b;
          let e = e\<lparr>nTimeMax := (case pprev e of Some q \<Rightarrow> max (nTimeMax (mem q)) (nTime e) | None \<Rightarrow> nTime e)\<rparr>;
          proof1 \<leftarrow> GetBlockProof e;
          let e = e\<lparr>nChainWork := op_add (case pprev e of Some q \<Rightarrow> nChainWork (mem q) | None \<Rightarrow> of_u64 0) proof1\<rparr>;
          (_, e) \<leftarrow> RaiseValidity BLOCK_VALID_TREE e;
          let mem = mem(b := e);
          let best = (case pindexBestHeader cs of None \<Rightarrow> Some b
            | Some h \<Rightarrow> if CompareTo (nChainWork (mem h)) (nChainWork e) < 0 then Some b else Some h);
          Some (b, cs\<lparr>cs_mem := mem, pindexBestHeader := best, setDirtyBlockIndex := finsert b (setDirtyBlockIndex cs)\<rparr>)
        })"

subsection \<open>Finality and justification of a block\<close>

definition IsForkingBeforeLastFinalization :: "Params \<Rightarrow> CChainState \<Rightarrow> ptr \<Rightarrow> bool option" where
  "IsForkingBeforeLastFinalization p cs b =
     (let tip_state = GetTipState (cs_mem cs) (chainActive cs) (cs_repo cs) in do {
        require (tip_state \<noteq> None \<or> chain_Height (chainActive cs) = - 1);
        (case tip_state of None \<Rightarrow> Some False
         | Some tip \<Rightarrow>
             if m_last_finalized_epoch tip = 0 then Some False
             else if pprev (cs_mem cs b) = chain_Tip (chainActive cs) then Some False
             else do {
               let checkpoint_height = sint (GetEpochCheckpointHeight p (m_last_finalized_epoch tip));
               checkpoint \<leftarrow> chain_at (chainActive cs) checkpoint_height;
               block_checkpoint \<leftarrow> GetAncestor (cs_mem cs) checkpoint_height b;
               Some (block_checkpoint \<noteq> Some checkpoint)
             })
      })"

text \<open>The source takes a candidate out of the set while its fields change and puts it back.\<close>

definition UpdateLastJustifiedEpoch :: "Params \<Rightarrow> ptr \<Rightarrow> CChainState \<Rightarrow> CChainState option" where
  "UpdateLastJustifiedEpoch p b cs = do {
     block_state \<leftarrow> repo_Find (cs_mem cs) b (cs_repo cs);
     let cs = cs_write b ((cs_mem cs b)\<lparr>last_justified_epoch := m_last_justified_epoch block_state\<rparr>) cs;
     forking \<leftarrow> IsForkingBeforeLastFinalization p cs b;
     Some (cs_write b ((cs_mem cs b)\<lparr>forking_before_active_finalization := forking\<rparr>) cs)
   }"

fun finalizer_commits :: "CTransaction list \<Rightarrow> CTransaction list option" where
  "finalizer_commits [] = Some []"
| "finalizer_commits (tx # r) = do {
     c \<leftarrow> IsFinalizerCommit tx;
     l \<leftarrow> finalizer_commits r;
     Some (if c then tx # l else l)
   }"

definition ProcessFinalizationState ::
  "(bytes \<Rightarrow> u160) \<Rightarrow> Params \<Rightarrow> (ptr \<Rightarrow> CBlock option) \<Rightarrow> ptr \<Rightarrow> CBlock option \<Rightarrow> CChainState \<Rightarrow> (bool \<times> CChainState) option" where
  "ProcessFinalizationState Hash160 p ReadBlock b block cs = do {
     require (nChainTx (cs_mem cs b) \<noteq> 0);
     valid \<leftarrow> index_IsValid BLOCK_VALID_TRANSACTIONS (cs_mem cs b);
     parent_valid \<leftarrow> (case pprev (cs_mem cs b) of None \<Rightarrow> Some True
                      | Some q \<Rightarrow> index_IsValid BLOCK_VALID_TRANSACTIONS (cs_mem cs q));
     if \<not> valid \<or> \<not> parent_valid then Some (False, cs)
     else if (case repo_Find (cs_mem cs) b (cs_repo cs) of None \<Rightarrow> False | Some state \<Rightarrow> m_status state \<noteq> NEW)
     then do { cs \<leftarrow> UpdateLastJustifiedEpoch p b cs; Some (True, cs) }
     else (case (case block of None \<Rightarrow> ReadBlock b | Some x \<Rightarrow> Some x) of
         None \<Rightarrow> Some (False, cs)
       | Some block \<Rightarrow> do {
           (ok, repo) \<leftarrow> proc_ProcessNewTipCandidate Hash160 p (cs_mem cs) b block (cs_repo cs);
           let cs = cs\<lparr>cs_repo := repo\<rparr>;
           if \<not> ok then Some (False, cs)
           else do {
             cs \<leftarrow> UpdateLastJustifiedEpoch p b cs;
             (if commits (cs_mem cs b) = None
              then do {
                l \<leftarrow> finalizer_commits (vtx block);
                Some (True, cs_write b ((cs_mem cs b)\<lparr>commits := Some l\<rparr>) cs)
              } else Some (True, cs))
           }
         })
   }"

subsection \<open>Receiving blocks\<close>

text \<open>The queue of \<^verbatim>\<open>ReceivedBlockTransactions\<close>. A block enters it from the entries of \<^verbatim>\<open>mapBlocksUnlinked\<close>, and leaves
  them, so the number of those entries and of the blocks in the queue bounds the loop.\<close>

definition received_round ::
  "(bytes \<Rightarrow> u160) \<Rightarrow> Params \<Rightarrow> (ptr \<Rightarrow> CBlock option) \<Rightarrow> ptr \<Rightarrow> CBlock \<Rightarrow> ptr \<Rightarrow> CChainState \<Rightarrow> CChainState option" where
  "received_round Hash160 p ReadBlock pindexNew block b cs = do {
     let mem = cs_mem cs;
     let cs = cs_write b ((mem b)\<lparr>nChainTx := (case pprev (mem b) of Some q \<Rightarrow> nChainTx (mem q) | None \<Rightarrow> 0) + nTx (mem b),
       nSequenceId := nBlockSequenceId cs\<rparr>) cs;
     let cs = cs\<lparr>nBlockSequenceId := nBlockSequenceId cs + 1\<rparr>;
     (_, cs) \<leftarrow> ProcessFinalizationState Hash160 p ReadBlock b (if b = pindexNew then Some block else None) cs;
     let insert1 = (case chain_Tip (chainActive cs) of None \<Rightarrow> True | Some t \<Rightarrow> \<not> CBlockIndexWorkComparator (cs_mem cs) b t);
     Some (if insert1 then cs\<lparr>setBlockIndexCandidates := finsert b (setBlockIndexCandidates cs)\<rparr> else cs)
   }"

fun ReceivedBlockTransactions_loop ::
  "(bytes \<Rightarrow> u160) \<Rightarrow> Params \<Rightarrow> (ptr \<Rightarrow> CBlock option) \<Rightarrow> ptr \<Rightarrow> CBlock \<Rightarrow> nat \<Rightarrow> ptr list \<Rightarrow> CChainState \<Rightarrow> CChainState option" where
  "ReceivedBlockTransactions_loop Hash160 p ReadBlock pindexNew block n [] cs = Some cs"
| "ReceivedBlockTransactions_loop Hash160 p ReadBlock pindexNew block 0 (b # queue) cs = None"
| "ReceivedBlockTransactions_loop Hash160 p ReadBlock pindexNew block (Suc n) (b # queue) cs = do {
     cs \<leftarrow> received_round Hash160 p ReadBlock pindexNew block b cs;
     let range = map snd (filter (\<lambda>(k, _). k = Some b) (mapBlocksUnlinked cs));
     let cs = cs\<lparr>mapBlocksUnlinked := filter (\<lambda>(k, _). k \<noteq> Some b) (mapBlocksUnlinked cs)\<rparr>;
     ReceivedBlockTransactions_loop Hash160 p ReadBlock pindexNew block n (queue @ range) cs
   }"

definition ReceivedBlockTransactions ::
  "(bytes \<Rightarrow> u160) \<Rightarrow> Params \<Rightarrow> (ptr \<Rightarrow> CBlock option) \<Rightarrow> CBlock \<Rightarrow> ptr \<Rightarrow> CDiskBlockPos \<Rightarrow> CChainState \<Rightarrow> CChainState option" where
  "ReceivedBlockTransactions Hash160 p ReadBlock block b pos cs = do {
     let e = (cs_mem cs b)\<lparr>nTx := of_nat (length (vtx block)), nChainTx := 0, nFile := pos_nFile pos, nDataPos := pos_nPos pos,
       nUndoPos := 0, nStatus := nStatus (cs_mem cs b) OR BLOCK_HAVE_DATA OR BLOCK_OPT_WITNESS\<rparr>;
     (_, e) \<leftarrow> RaiseValidity BLOCK_VALID_TRANSACTIONS e;
     let cs = (cs_write b e cs)\<lparr>setDirtyBlockIndex := finsert b (setDirtyBlockIndex cs)\<rparr>;
     (case pprev (cs_mem cs b) of
        None \<Rightarrow> ReceivedBlockTransactions_loop Hash160 p ReadBlock b block (Suc (length (mapBlocksUnlinked cs))) [b] cs
      | Some q \<Rightarrow>
          if nChainTx (cs_mem cs q) \<noteq> 0
          then ReceivedBlockTransactions_loop Hash160 p ReadBlock b block (Suc (length (mapBlocksUnlinked cs))) [b] cs
          else do {
            valid \<leftarrow> index_IsValid BLOCK_VALID_TREE (cs_mem cs q);
            Some (if valid then cs\<lparr>mapBlocksUnlinked := mapBlocksUnlinked cs @ [(Some q, b)]\<rparr> else cs)
          })
   }"

subsection \<open>The best chain\<close>

text \<open>The walk from a candidate to the active chain: the first block that has failed or whose data is missing.\<close>

fun test_path :: "mem \<Rightarrow> CChain \<Rightarrow> nat \<Rightarrow> ptr option \<Rightarrow> ptr option option" where
  "test_path mem vChain n None = Some None"
| "test_path mem vChain n (Some b) =
     (if chain_Contains mem vChain b then Some None
      else do {
        require (nChainTx (mem b) \<noteq> 0 \<or> nHeight (mem b) = 0);
        if nStatus (mem b) AND BLOCK_FAILED_MASK \<noteq> 0 \<or> nStatus (mem b) AND BLOCK_HAVE_DATA = 0 then Some (Some b)
        else (case n of 0 \<Rightarrow> None | Suc m \<Rightarrow> test_path mem vChain m (pprev (mem b)))
      })"

fun remove_chain :: "nat \<Rightarrow> ptr \<Rightarrow> bool \<Rightarrow> ptr \<Rightarrow> CChainState \<Rightarrow> CChainState option" where
  "remove_chain n pindexTest fFailedChain pindexFailed cs =
     (if pindexTest \<noteq> pindexFailed
      then do {
        let e = cs_mem cs pindexFailed;
        let cs = (if fFailedChain then cs_write pindexFailed (e\<lparr>nStatus := nStatus e OR BLOCK_FAILED_CHILD\<rparr>) cs
                  else cs\<lparr>mapBlocksUnlinked := mapBlocksUnlinked cs @ [(pprev e, pindexFailed)]\<rparr>);
        let cs = cs\<lparr>setBlockIndexCandidates := setBlockIndexCandidates cs |-| {|pindexFailed|}\<rparr>;
        q \<leftarrow> pprev e;
        (case n of 0 \<Rightarrow> None | Suc m \<Rightarrow> remove_chain m pindexTest fFailedChain q cs)
      }
      else Some (cs\<lparr>setBlockIndexCandidates := setBlockIndexCandidates cs |-| {|pindexTest|}\<rparr>))"

declare remove_chain.simps [simp del]

text \<open>Every round removes a candidate, so their number bounds the loop.\<close>

fun FindMostWorkChain_loop :: "nat \<Rightarrow> CChainState \<Rightarrow> (ptr option \<times> CChainState) option" where
  "FindMostWorkChain_loop n cs =
     (case candidates_rbegin (cs_mem cs) (setBlockIndexCandidates cs) of None \<Rightarrow> Some (None, cs)
      | Some pindexNew \<Rightarrow> do {
          let bound = nHeight (cs_mem cs pindexNew) + 1;
          t \<leftarrow> test_path (cs_mem cs) (chainActive cs) bound (Some pindexNew);
          (case t of None \<Rightarrow> Some (Some pindexNew, cs)
           | Some pindexTest \<Rightarrow> do {
               let fFailedChain = (nStatus (cs_mem cs pindexTest) AND BLOCK_FAILED_MASK \<noteq> 0);
               let cs = (if fFailedChain \<and> (case pindexBestInvalid cs of None \<Rightarrow> True
                              | Some i \<Rightarrow> CompareTo (nChainWork (cs_mem cs pindexNew)) (nChainWork (cs_mem cs i)) > 0)
                         then cs\<lparr>pindexBestInvalid := Some pindexNew\<rparr> else cs);
               cs \<leftarrow> remove_chain bound pindexTest fFailedChain pindexNew cs;
               (case n of 0 \<Rightarrow> None | Suc m \<Rightarrow> FindMostWorkChain_loop m cs)
             })
        })"

declare FindMostWorkChain_loop.simps [simp del]

definition FindMostWorkChain :: "CChainState \<Rightarrow> (ptr option \<times> CChainState) option" where
  "FindMostWorkChain cs = FindMostWorkChain_loop (fcard (setBlockIndexCandidates cs)) cs"

text \<open>The loop erases the entries at the front of the ordered set that are worse than the tip.\<close>

definition PruneBlockIndexCandidates :: "CChainState \<Rightarrow> CChainState option" where
  "PruneBlockIndexCandidates cs = do {
     require (setBlockIndexCandidates cs \<noteq> {||});
     tip \<leftarrow> chain_Tip (chainActive cs);
     let S = ffilter (\<lambda>b. \<not> CBlockIndexWorkComparator (cs_mem cs) b tip) (setBlockIndexCandidates cs);
     require (S \<noteq> {||});
     Some (cs\<lparr>setBlockIndexCandidates := S\<rparr>)
   }"

subsection \<open>Invalid blocks\<close>

text \<open>\<^verbatim>\<open>InvalidChainFound\<close> without the warnings about forks.\<close>

definition InvalidChainFound :: "ptr \<Rightarrow> CChainState \<Rightarrow> CChainState option" where
  "InvalidChainFound b cs = do {
     let cs = (case pindexBestInvalid cs of
         None \<Rightarrow> cs\<lparr>pindexBestInvalid := Some b\<rparr>
       | Some i \<Rightarrow> if CompareTo (nChainWork (cs_mem cs b)) (nChainWork (cs_mem cs i)) > 0 then cs\<lparr>pindexBestInvalid := Some b\<rparr> else cs);
     require (chain_Tip (chainActive cs) \<noteq> None);
     Some cs
   }"

definition InvalidBlockFound :: "CValidationState \<Rightarrow> ptr \<Rightarrow> CChainState \<Rightarrow> CChainState option" where
  "InvalidBlockFound state b cs =
     (if corruptionPossible state then Some cs
      else InvalidChainFound b ((cs_write b ((cs_mem cs b)\<lparr>nStatus := nStatus (cs_mem cs b) OR BLOCK_FAILED_VALID\<rparr>) cs)
        \<lparr>m_failed_blocks := finsert b (m_failed_blocks cs), setDirtyBlockIndex := finsert b (setDirtyBlockIndex cs),
         setBlockIndexCandidates := setBlockIndexCandidates cs |-| {|b|}\<rparr>))"

text \<open>\<^verbatim>\<open>ResetBlockFailureFlags\<close>; \<open>entries\<close> is the traversal of \<^verbatim>\<open>mapBlockIndex\<close>.\<close>

definition reset_entry :: "ptr \<Rightarrow> ptr \<Rightarrow> CChainState \<Rightarrow> CChainState option" where
  "reset_entry pindex b cs = do {
     valid \<leftarrow> index_IsValid BLOCK_VALID_TRANSACTIONS (cs_mem cs b);
     a \<leftarrow> (if valid then Some None else GetAncestor (cs_mem cs) (int (nHeight (cs_mem cs pindex))) b);
     if \<not> valid \<and> a = Some pindex
     then do {
       let cs = (cs_write b ((cs_mem cs b)\<lparr>nStatus := nStatus (cs_mem cs b) AND NOT BLOCK_FAILED_MASK\<rparr>) cs)
         \<lparr>setDirtyBlockIndex := finsert b (setDirtyBlockIndex cs)\<rparr>;
       valid \<leftarrow> index_IsValid BLOCK_VALID_TRANSACTIONS (cs_mem cs b);
       cs \<leftarrow> (if valid \<and> nChainTx (cs_mem cs b) \<noteq> 0
             then do {
               tip \<leftarrow> chain_Tip (chainActive cs);
               Some (if CBlockIndexWorkComparator (cs_mem cs) tip b
                     then cs\<lparr>setBlockIndexCandidates := finsert b (setBlockIndexCandidates cs)\<rparr> else cs)
             } else Some cs);
       let cs = (if pindexBestInvalid cs = Some b then cs\<lparr>pindexBestInvalid := None\<rparr> else cs);
       Some (cs\<lparr>m_failed_blocks := m_failed_blocks cs |-| {|b|}\<rparr>)
     } else Some cs
   }"

fun reset_entries :: "ptr \<Rightarrow> ptr list \<Rightarrow> CChainState \<Rightarrow> CChainState option" where
  "reset_entries pindex [] cs = Some cs"
| "reset_entries pindex (b # bs) cs = do { cs \<leftarrow> reset_entry pindex b cs; reset_entries pindex bs cs }"

fun reset_ancestors :: "nat \<Rightarrow> ptr option \<Rightarrow> CChainState \<Rightarrow> CChainState option" where
  "reset_ancestors n None cs = Some cs"
| "reset_ancestors n (Some b) cs =
     (let e = cs_mem cs b;
          cs = (if nStatus e AND BLOCK_FAILED_MASK \<noteq> 0
                then (cs_write b (e\<lparr>nStatus := nStatus e AND NOT BLOCK_FAILED_MASK\<rparr>) cs)
                  \<lparr>setDirtyBlockIndex := finsert b (setDirtyBlockIndex cs), m_failed_blocks := m_failed_blocks cs |-| {|b|}\<rparr>
                else cs)
      in case n of 0 \<Rightarrow> None | Suc m \<Rightarrow> reset_ancestors m (pprev e) cs)"

definition ResetBlockFailureFlags :: "ptr list \<Rightarrow> ptr \<Rightarrow> CChainState \<Rightarrow> CChainState option" where
  "ResetBlockFailureFlags entries pindex cs = do {
     cs \<leftarrow> reset_entries pindex entries cs;
     reset_ancestors (nHeight (cs_mem cs pindex) + 1) (Some pindex) cs
   }"

subsection \<open>Accepting headers\<close>

fun mark_failed :: "nat \<Rightarrow> ptr \<Rightarrow> ptr \<Rightarrow> CChainState \<Rightarrow> CChainState option" where
  "mark_failed n failed b cs =
     (if b \<noteq> failed
      then do {
        let e = cs_mem cs b;
        let cs = (cs_write b (e\<lparr>nStatus := nStatus e OR BLOCK_FAILED_CHILD\<rparr>) cs)\<lparr>setDirtyBlockIndex := finsert b (setDirtyBlockIndex cs)\<rparr>;
        q \<leftarrow> pprev e;
        (case n of 0 \<Rightarrow> None | Suc m \<Rightarrow> mark_failed m failed q cs)
      } else Some cs)"

declare mark_failed.simps [simp del]

text \<open>The search for a failed ancestor; the result is the changed state when there is one.\<close>

fun find_failed :: "ptr list \<Rightarrow> ptr \<Rightarrow> CChainState \<Rightarrow> CChainState option option" where
  "find_failed [] pindexPrev cs = Some None"
| "find_failed (f # fs) pindexPrev cs = do {
     a \<leftarrow> GetAncestor (cs_mem cs) (int (nHeight (cs_mem cs f))) pindexPrev;
     if a = Some f
     then do {
       require (nStatus (cs_mem cs f) AND BLOCK_FAILED_VALID \<noteq> 0);
       cs \<leftarrow> mark_failed (nHeight (cs_mem cs pindexPrev) + 1) f pindexPrev cs;
       Some (Some cs)
     } else find_failed fs pindexPrev cs
   }"

definition AcceptBlockHeader ::
  "(bytes \<Rightarrow> u256) \<Rightarrow> u256 \<Rightarrow> (CBlockHeader \<Rightarrow> CValidationState \<Rightarrow> unit check) \<Rightarrow> (CBlockHeader \<Rightarrow> ptr \<Rightarrow> CValidationState \<Rightarrow> unit check) \<Rightarrow>
   Params \<Rightarrow> CBlockHeader \<Rightarrow> CValidationState \<Rightarrow> CChainState \<Rightarrow> ((CValidationState + ptr) \<times> CChainState) option" where
  "AcceptBlockHeader Hash hashGenesisBlock CheckBlockHeader ContextualCheckBlockHeader p block s cs =
     (let hash = header_GetHash Hash block; add = map_option (\<lambda>(b, cs). (Inr b, cs)) (AddToBlockIndex Hash block cs) in
      if hash = hashGenesisBlock then add
      else case fmlookup (mapBlockIndex cs) hash of
        Some b \<Rightarrow> Some (if nStatus (cs_mem cs b) AND BLOCK_FAILED_MASK \<noteq> 0 then Inl (Invalid 0 ''duplicate'' [] s) else Inr b, cs)
      | None \<Rightarrow> do {
          c \<leftarrow> CheckBlockHeader block s;
          (case c of Inl s \<Rightarrow> Some (Inl s, cs)
           | Inr _ \<Rightarrow>
             case fmlookup (mapBlockIndex cs) (h_hashPrevBlock block) of
               None \<Rightarrow> Some (Inl (DoS 10 0 ''prev-blk-not-found'' False [] s), cs)
             | Some q \<Rightarrow>
               if nStatus (cs_mem cs q) AND BLOCK_FAILED_MASK \<noteq> 0 then Some (Inl (DoS 100 REJECT_INVALID ''bad-prevblk'' False [] s), cs)
               else do {
                 c \<leftarrow> ContextualCheckBlockHeader block q s;
                 (case c of Inl s \<Rightarrow> Some (Inl s, cs)
                  | Inr _ \<Rightarrow> do {
                      valid \<leftarrow> index_IsValid BLOCK_VALID_SCRIPTS (cs_mem cs q);
                      marked \<leftarrow> (if valid then Some None else find_failed (sorted_list_of_fset (m_failed_blocks cs)) q cs);
                      (case marked of Some cs \<Rightarrow> Some (Inl (DoS 100 REJECT_INVALID ''bad-prevblk'' False [] s), cs)
                       | None \<Rightarrow> do {
                           fin_state \<leftarrow> GetTipState (cs_mem cs) (chainActive cs) (cs_repo cs);
                           fork \<leftarrow> FindFork (cs_mem cs) (chainActive cs) (Some q);
                           most_common_index \<leftarrow> fork;
                           if GetEpoch p (index_height (cs_mem cs) most_common_index) < m_last_finalized_epoch fin_state
                           then Some (Inl (DoS 10 REJECT_INVALID ''bad-fork-before-last-finalized-epoch'' False [] s), cs)
                           else add
                         })
                    })
               })
        })"

fun ProcessNewBlockHeaders ::
  "(bytes \<Rightarrow> u256) \<Rightarrow> u256 \<Rightarrow> (CBlockHeader \<Rightarrow> CValidationState \<Rightarrow> unit check) \<Rightarrow> (CBlockHeader \<Rightarrow> ptr \<Rightarrow> CValidationState \<Rightarrow> unit check) \<Rightarrow>
   Params \<Rightarrow> CBlockHeader list \<Rightarrow> ptr option \<Rightarrow> CValidationState \<Rightarrow> CChainState \<Rightarrow>
   ((CValidationState \<times> CBlockHeader + ptr option) \<times> CChainState) option" where
  "ProcessNewBlockHeaders Hash g CBH CCBH p [] latest s cs = Some (Inr latest, cs)"
| "ProcessNewBlockHeaders Hash g CBH CCBH p (h # hs) latest s cs = do {
     (r, cs) \<leftarrow> AcceptBlockHeader Hash g CBH CCBH p h s cs;
     (case r of Inl s \<Rightarrow> Some (Inl (s, h), cs) | Inr b \<Rightarrow> ProcessNewBlockHeaders Hash g CBH CCBH p hs (Some b) s cs)
   }"

subsection \<open>The bound of the queue\<close>

text \<open>No round adds an entry to \<^verbatim>\<open>mapBlocksUnlinked\<close>, and those it moves to the queue leave it: with at least as many rounds as there
  are blocks in both, the result does not depend on the bound.\<close>

lemma UpdateLastJustifiedEpoch_unlinked: "UpdateLastJustifiedEpoch p b cs = Some cs' \<Longrightarrow> mapBlocksUnlinked cs' = mapBlocksUnlinked cs"
  by (auto simp: UpdateLastJustifiedEpoch_def cs_write_def Let_def bind_eq_Some_conv)

lemma ProcessFinalizationState_unlinked:
  "ProcessFinalizationState Hash160 p ReadBlock b block cs = Some (r, cs') \<Longrightarrow> mapBlocksUnlinked cs' = mapBlocksUnlinked cs"
  by (auto simp: ProcessFinalizationState_def cs_write_def Let_def bind_eq_Some_conv split: if_splits option.splits
      dest!: UpdateLastJustifiedEpoch_unlinked)

lemma received_round_unlinked:
  "received_round Hash160 p ReadBlock b0 block b cs = Some cs' \<Longrightarrow> mapBlocksUnlinked cs' = mapBlocksUnlinked cs"
  by (auto simp: received_round_def cs_write_def Let_def bind_eq_Some_conv dest!: ProcessFinalizationState_unlinked)

lemma ReceivedBlockTransactions_fuel:
  assumes "length queue + length (mapBlocksUnlinked cs) \<le> n" "n \<le> m"
  shows "ReceivedBlockTransactions_loop Hash160 p ReadBlock b0 block n queue cs =
    ReceivedBlockTransactions_loop Hash160 p ReadBlock b0 block m queue cs"
  using assms
proof (induction n arbitrary: m queue cs)
  case (Suc n)
  then obtain k where m: "m = Suc k" "n \<le> k" by (cases m) auto
  show ?case
  proof (cases queue)
    case (Cons b bs)
    show ?thesis
    proof (cases "received_round Hash160 p ReadBlock b0 block b cs")
      case (Some cs1)
      let ?U = "mapBlocksUnlinked cs1"
      have len: "length (filter (\<lambda>(k, _). k = Some b) ?U) + length (filter (\<lambda>(k, _). k \<noteq> Some b) ?U) = length ?U"
        using sum_length_filter_compl [of "\<lambda>x. fst x = Some b" ?U] by (simp add: case_prod_unfold)
      show ?thesis using Some Cons m Suc.prems(1) len received_round_unlinked [OF Some] by (simp add: Let_def Suc.IH [of _ _ k])
    qed (simp add: Cons m)
  qed simp
qed simp

end
