(* ===== verification/ChainStateProps.thy ===== *)
theory ChainStateProps
  imports ChainState ChainProps FinScenario "HOL-Library.Product_Lexorder"
begin

section \<open>Properties of the block index and of the choice of the chain\<close>

text \<open>
  Adding headers keeps the block index well-formed; the best chain is the largest candidate, in the order of finality,
  justification and work, among those that lead to the active chain over blocks that have not failed and are stored.
\<close>

subsection \<open>The order of candidates\<close>

definition rank :: "mem \<Rightarrow> ptr \<Rightarrow> bool \<times> u32 \<times> nat \<times> int \<times> int" where
  "rank mem b = (\<not> forking_before_active_finalization (mem b), last_justified_epoch (mem b), valu (nChainWork (mem b)),
     - sint (nSequenceId (mem b)), - int b)"

definition work_ok :: "mem \<Rightarrow> bool" where
  "work_ok mem \<longleftrightarrow> (\<forall>b. length (nChainWork (mem b)) = WIDTH)"

lemma comparator_rank:
  assumes "work_ok mem"
  shows "CBlockIndexWorkComparator mem a b \<longleftrightarrow> rank mem a < rank mem b"
proof -
  have len: "length (nChainWork (mem a)) = WIDTH" "length (nChainWork (mem b)) = WIDTH" using assms by (simp_all add: work_ok_def)
  have cmp: "CompareTo (nChainWork (mem a)) (nChainWork (mem b)) > 0 \<longleftrightarrow> valu (nChainWork (mem a)) > valu (nChainWork (mem b))"
    "CompareTo (nChainWork (mem a)) (nChainWork (mem b)) < 0 \<longleftrightarrow> valu (nChainWork (mem a)) < valu (nChainWork (mem b))"
    using CompareTo_spec [of "nChainWork (mem a)" "nChainWork (mem b)"] len by auto
  show ?thesis
    unfolding CBlockIndexWorkComparator_def rank_def Let_def cmp
    by (cases "forking_before_active_finalization (mem a)"; cases "forking_before_active_finalization (mem b)")
      (auto simp: less_prod_def)
qed

lemma rank_inject: "rank mem a = rank mem b \<longleftrightarrow> a = b"
  by (auto simp: rank_def)

lemma best_of_max:
  assumes "work_ok mem"
  shows "(case best_of mem bs of None \<Rightarrow> bs = [] | Some b \<Rightarrow> b \<in> set bs \<and> (\<forall>c\<in>set bs. rank mem c \<le> rank mem b))"
  by (induction bs) (auto simp: comparator_rank [OF assms] split: option.splits if_splits intro: order_trans less_imp_le)

lemma candidates_rbegin_max:
  assumes "work_ok mem" "candidates_rbegin mem S = Some b"
  shows "b |\<in>| S" "c |\<in>| S \<Longrightarrow> rank mem c \<le> rank mem b"
  using best_of_max [OF assms(1), of "sorted_list_of_fset S"] assms(2) by (auto simp: candidates_rbegin_def)

lemma candidates_rbegin_None:
  assumes "work_ok mem"
  shows "candidates_rbegin mem S = None \<longleftrightarrow> S = {||}"
proof -
  have "sorted_list_of_fset S = [] \<longleftrightarrow> S = {||}" by (metis bot_fset.rep_eq fset_inject list.set(1) set_empty sorted_list_of_fset_simps(1))
  then show ?thesis using best_of_max [OF assms, of "sorted_list_of_fset S"] by (auto simp: candidates_rbegin_def split: option.splits)
qed

subsection \<open>Paths to the active chain\<close>

text \<open>The blocks from a block down to the active chain, without it, and whether they can all be connected.\<close>

definition path :: "mem \<Rightarrow> CChain \<Rightarrow> ptr \<Rightarrow> ptr list" where
  "path mem v b = takeWhile (\<lambda>x. \<not> chain_Contains mem v x) (ancestors mem b)"

definition bad :: "mem \<Rightarrow> ptr \<Rightarrow> bool" where
  "bad mem b \<longleftrightarrow> nStatus (mem b) AND BLOCK_FAILED_MASK \<noteq> 0 \<or> nStatus (mem b) AND BLOCK_HAVE_DATA = 0"

definition usable :: "mem \<Rightarrow> CChain \<Rightarrow> ptr \<Rightarrow> bool" where
  "usable mem v b \<longleftrightarrow> (\<forall>x\<in>set (path mem v b). \<not> bad mem x)"

lemma path_rec:
  assumes "index_ok mem"
  shows "path mem v b = (if chain_Contains mem v b then [] else b # (case pprev (mem b) of None \<Rightarrow> [] | Some q \<Rightarrow> path mem v q))"
  unfolding path_def ancestors_rec [OF assms, of b] by (simp split: option.split)

lemma path_subset:
  assumes "index_ok mem" "x \<in> set (path mem v b)"
  shows "set (path mem v x) \<subseteq> set (path mem v b)"
  using assms(2)
proof (induction "nHeight (mem b)" arbitrary: b rule: less_induct)
  case less
  show ?case
  proof (cases "x = b")
    case False
    then obtain q where q: "pprev (mem b) = Some q" "x \<in> set (path mem v q)" "\<not> chain_Contains mem v b"
      using less.prems path_rec [OF assms(1), of v b] by (auto split: if_splits option.splits)
    have "nHeight (mem q) < nHeight (mem b)" using index_ok_height [OF assms(1) q(1)] by simp
    from less.hyps [OF this q(2)] show ?thesis using q path_rec [OF assms(1), of v b] by auto
  qed simp
qed

lemma test_path_find:
  assumes ok: "index_ok mem" and "\<forall>x\<in>set (ancestors mem b). nChainTx (mem x) \<noteq> 0 \<or> nHeight (mem x) = 0" "nHeight (mem b) < n"
  shows "test_path mem v n (Some b) = Some (find (bad mem) (path mem v b))"
  using assms(2,3)
proof (induction n arbitrary: b)
  case (Suc n)
  have b: "nChainTx (mem b) \<noteq> 0 \<or> nHeight (mem b) = 0" using Suc.prems(1) ancestors_rec [OF ok, of b] by simp
  show ?case
  proof (cases "pprev (mem b)")
    case None
    then show ?thesis using b by (auto simp: path_rec [OF ok, of v b] bad_def [of mem b])
  next
    case (Some q)
    have "test_path mem v n (Some q) = Some (find (bad mem) (path mem v q))"
      by (rule Suc.IH) (use Suc.prems ancestors_rec [OF ok, of b] Some index_ok_height [OF ok Some] in auto)
    then show ?thesis using b Some by (auto simp: path_rec [OF ok, of v b] bad_def [of mem b])
  qed
qed simp

text \<open>The blocks above the first bad block of a path, and that block.\<close>

lemma path_walk:
  assumes ok: "index_ok mem" and "t \<in> set (path mem v b)"
  obtains k where "walk mem k b = Some t" "\<And>i x. i \<le> k \<Longrightarrow> walk mem i b = Some x \<Longrightarrow> t \<in> set (path mem v x)"
  using assms(2)
proof (induction "nHeight (mem b)" arbitrary: b thesis rule: less_induct)
  case less
  show ?case
  proof (cases "t = b")
    case True
    then show ?thesis using less.prems by (intro less.prems(1) [of 0]) auto
  next
    case False
    then obtain q where q: "pprev (mem b) = Some q" "t \<in> set (path mem v q)"
      using less.prems(2) path_rec [OF ok, of v b] by (auto split: if_splits option.splits)
    have lt: "nHeight (mem q) < nHeight (mem b)" using index_ok_height [OF ok q(1)] by simp
    obtain k where k: "walk mem k q = Some t" "\<And>i x. i \<le> k \<Longrightarrow> walk mem i q = Some x \<Longrightarrow> t \<in> set (path mem v x)"
      using less.hyps [OF lt _ q(2)] by blast
    show ?thesis
    proof (rule less.prems(1) [of "Suc k"])
      show "walk mem (Suc k) b = Some t" using k(1) q(1) by simp
      show "t \<in> set (path mem v x)" if "i \<le> Suc k" "walk mem i b = Some x" for i x
        using that k(2) q(1) less.prems(2) by (cases i) auto
    qed
  qed
qed

subsection \<open>Stores that differ in the status only\<close>

definition same_tree :: "mem \<Rightarrow> mem \<Rightarrow> bool" where
  "same_tree mem mem' \<longleftrightarrow> (\<forall>b. (mem b)\<lparr>nStatus := 0\<rparr> = (mem' b)\<lparr>nStatus := 0\<rparr>)"

lemma same_tree_fields:
  assumes "same_tree mem mem'"
  shows "pprev (mem b) = pprev (mem' b)" "pskip (mem b) = pskip (mem' b)" "nHeight (mem b) = nHeight (mem' b)"
    "nChainTx (mem b) = nChainTx (mem' b)" "rank mem b = rank mem' b" "length (nChainWork (mem b)) = length (nChainWork (mem' b))"
proof -
  have "(mem b)\<lparr>nStatus := 0\<rparr> = (mem' b)\<lparr>nStatus := 0\<rparr>" using assms by (simp add: same_tree_def)
  then show "pprev (mem b) = pprev (mem' b)" "pskip (mem b) = pskip (mem' b)" "nHeight (mem b) = nHeight (mem' b)"
    "nChainTx (mem b) = nChainTx (mem' b)" "rank mem b = rank mem' b" "length (nChainWork (mem b)) = length (nChainWork (mem' b))"
    by (cases "mem b"; cases "mem' b"; simp add: rank_def)+
qed

lemma same_tree_walk: "same_tree mem mem' \<Longrightarrow> walk mem n b = walk mem' n b"
  by (rule walk_cong) (rule same_tree_fields(1))

lemma same_tree_index:
  assumes "same_tree mem mem'"
  shows "index_ok mem \<longleftrightarrow> index_ok mem'" "work_ok mem \<longleftrightarrow> work_ok mem'" "ancestors mem b = ancestors mem' b"
    "chain_Contains mem v b = chain_Contains mem' v b" "path mem v b = path mem' v b"
  unfolding index_ok_def height_ok_def skip_ok_def work_ok_def ancestors_def chain_Contains_def path_def
    same_tree_fields(1-3,6) [OF assms] same_tree_walk [OF assms] by (rule refl)+

lemma same_tree_write: "same_tree mem (mem(b := (mem b)\<lparr>nStatus := s\<rparr>))"
  by (simp add: same_tree_def)

lemma same_tree_refl [simp]: "same_tree mem mem"
  by (simp add: same_tree_def)

lemma same_tree_trans: "same_tree a b \<Longrightarrow> same_tree b c \<Longrightarrow> same_tree a c"
  by (simp add: same_tree_def)

lemma or_child_failed: "(s OR BLOCK_FAILED_CHILD) AND BLOCK_FAILED_MASK \<noteq> 0"
proof
  assume "(s OR BLOCK_FAILED_CHILD) AND BLOCK_FAILED_MASK = 0"
  then have "bit ((s OR BLOCK_FAILED_CHILD) AND BLOCK_FAILED_MASK) 6 = bit (0 :: u32) 6" by simp
  then show False by (simp add: BLOCK_FAILED_CHILD_def BLOCK_FAILED_MASK_def BLOCK_FAILED_VALID_def bit_and_iff bit_or_iff)
qed

lemma walk_steps:
  "(\<exists>i\<le>Suc k. walk mem i b = Some c) \<longleftrightarrow> b = c \<or> (\<exists>i\<le>k. walk mem (Suc i) b = Some c)"
  "(\<exists>i<Suc k. walk mem i b = Some c) \<longleftrightarrow> b = c \<or> (\<exists>i<k. walk mem (Suc i) b = Some c)"
  using Ex_less_Suc2 [of "Suc k" "\<lambda>i. walk mem i b = Some c"] Ex_less_Suc2 [of k "\<lambda>i. walk mem i b = Some c"]
  by (simp_all add: less_Suc_eq_le del: walk.simps(2))

text \<open>Taking an unusable chain out of the candidates.\<close>

lemma remove_chain_spec:
  assumes "walk (cs_mem cs) k b = Some t" "\<And>i. i < k \<Longrightarrow> walk (cs_mem cs) i b \<noteq> Some t" "k \<le> n"
  shows "\<exists>cs'. remove_chain n t f b cs = Some cs' \<and> chainActive cs' = chainActive cs \<and> same_tree (cs_mem cs) (cs_mem cs') \<and>
    (\<forall>c. c |\<in>| setBlockIndexCandidates cs' \<longleftrightarrow> c |\<in>| setBlockIndexCandidates cs \<and> (\<forall>i\<le>k. walk (cs_mem cs) i b \<noteq> Some c)) \<and>
    (\<forall>c. nStatus (cs_mem cs' c) = nStatus (cs_mem cs c) \<or>
       f \<and> (\<exists>i<k. walk (cs_mem cs) i b = Some c) \<and> bad (cs_mem cs') c)"
  using assms
proof (induction k arbitrary: n b cs)
  case 0
  then show ?case by (subst remove_chain.simps) auto
next
  case (Suc k)
  obtain q where q: "pprev (cs_mem cs b) = Some q" "walk (cs_mem cs) k q = Some t" using Suc.prems(1) by (auto split: option.splits)
  obtain m where n: "n = Suc m" "k \<le> m" using Suc.prems(3) by (cases n) auto
  define cs1 where "cs1 = (if f then cs_write b ((cs_mem cs b)\<lparr>nStatus := nStatus (cs_mem cs b) OR BLOCK_FAILED_CHILD\<rparr>) cs
      else cs\<lparr>mapBlocksUnlinked := mapBlocksUnlinked cs @ [(Some q, b)]\<rparr>)"
  define cs2 where "cs2 = cs1\<lparr>setBlockIndexCandidates := setBlockIndexCandidates cs1 |-| {|b|}\<rparr>"
  have "t \<noteq> b" using Suc.prems(2) [of 0] by auto
  then have run: "remove_chain n t f b cs = remove_chain m t f q cs2"
    using q(1) n(1) by (subst remove_chain.simps) (simp add: cs1_def cs2_def Let_def)
  have tree: "same_tree (cs_mem cs) (cs_mem cs2)" by (simp add: cs1_def cs2_def cs_write_def same_tree_write)
  note walk = same_tree_walk [OF tree]
  have "\<exists>cs'. remove_chain m t f q cs2 = Some cs' \<and> chainActive cs' = chainActive cs2 \<and> same_tree (cs_mem cs2) (cs_mem cs') \<and>
    (\<forall>c. c |\<in>| setBlockIndexCandidates cs' \<longleftrightarrow> c |\<in>| setBlockIndexCandidates cs2 \<and> (\<forall>i\<le>k. walk (cs_mem cs2) i q \<noteq> Some c)) \<and>
    (\<forall>c. nStatus (cs_mem cs' c) = nStatus (cs_mem cs2 c) \<or>
       f \<and> (\<exists>i<k. walk (cs_mem cs2) i q = Some c) \<and> bad (cs_mem cs') c)"
  proof (rule Suc.IH)
    show "walk (cs_mem cs2) k q = Some t" using q(2) walk by simp
    show "walk (cs_mem cs2) i q \<noteq> Some t" if "i < k" for i using Suc.prems(2) [of "Suc i"] that q(1) walk by simp
  qed (rule n(2))
  then obtain cs' where cs': "remove_chain m t f q cs2 = Some cs'" "chainActive cs' = chainActive cs2" "same_tree (cs_mem cs2) (cs_mem cs')"
    "\<And>c. c |\<in>| setBlockIndexCandidates cs' \<longleftrightarrow> c |\<in>| setBlockIndexCandidates cs2 \<and> (\<forall>i\<le>k. walk (cs_mem cs) i q \<noteq> Some c)"
    "\<And>c. nStatus (cs_mem cs' c) = nStatus (cs_mem cs2 c) \<or> f \<and> (\<exists>i<k. walk (cs_mem cs) i q = Some c) \<and> bad (cs_mem cs') c"
    using walk by auto
  have step: "(\<exists>i\<le>Suc k. walk (cs_mem cs) i b = Some c) \<longleftrightarrow> b = c \<or> (\<exists>i\<le>k. walk (cs_mem cs) i q = Some c)"
    "(\<exists>i<Suc k. walk (cs_mem cs) i b = Some c) \<longleftrightarrow> b = c \<or> (\<exists>i<k. walk (cs_mem cs) i q = Some c)" for c
    using q(1) walk_steps by simp_all
  show ?case
  proof (intro exI conjI allI)
    show "remove_chain n t f b cs = Some cs'" using run cs'(1) by simp
    show "chainActive cs' = chainActive cs" using cs'(2) by (simp add: cs1_def cs2_def cs_write_def)
    show "same_tree (cs_mem cs) (cs_mem cs')" using tree cs'(3) by (rule same_tree_trans)
    fix c
    have "c |\<in>| setBlockIndexCandidates cs2 \<longleftrightarrow> c |\<in>| setBlockIndexCandidates cs \<and> c \<noteq> b" by (auto simp: cs1_def cs2_def cs_write_def)
    then show "c |\<in>| setBlockIndexCandidates cs' \<longleftrightarrow> c |\<in>| setBlockIndexCandidates cs \<and> (\<forall>i\<le>Suc k. walk (cs_mem cs) i b \<noteq> Some c)"
      using cs'(4) [of c] step(1) [of c] by blast
    show "nStatus (cs_mem cs' c) = nStatus (cs_mem cs c) \<or> f \<and> (\<exists>i<Suc k. walk (cs_mem cs) i b = Some c) \<and> bad (cs_mem cs') c"
    proof (cases "nStatus (cs_mem cs' c) = nStatus (cs_mem cs2 c)")
      case True
      show ?thesis
      proof (cases "c = b \<and> f")
        case child: True
        then have "nStatus (cs_mem cs' c) = nStatus (cs_mem cs b) OR BLOCK_FAILED_CHILD" using True by (simp add: cs1_def cs2_def cs_write_def)
        then show ?thesis using child step(2) [of c] or_child_failed by (simp add: bad_def)
      next
        case False
        then show ?thesis using True by (auto simp: cs1_def cs2_def cs_write_def)
      qed
    next
      case False
      then show ?thesis using cs'(5) [of c] step(2) [of c] by blast
    qed
  qed
qed

subsection \<open>The best usable candidate\<close>

definition stored :: "CChainState \<Rightarrow> bool" where
  "stored cs \<longleftrightarrow> (\<forall>c. c |\<in>| setBlockIndexCandidates cs \<longrightarrow>
     (\<forall>x\<in>set (ancestors (cs_mem cs) c). nChainTx (cs_mem cs x) \<noteq> 0 \<or> nHeight (cs_mem cs x) = 0))"

definition best_usable :: "CChainState \<Rightarrow> ptr option \<Rightarrow> bool" where
  "best_usable cs r \<longleftrightarrow> (case r of
      None \<Rightarrow> \<forall>c. c |\<in>| setBlockIndexCandidates cs \<longrightarrow> \<not> usable (cs_mem cs) (chainActive cs) c
    | Some b \<Rightarrow> b |\<in>| setBlockIndexCandidates cs \<and> usable (cs_mem cs) (chainActive cs) b \<and>
        (\<forall>c. c |\<in>| setBlockIndexCandidates cs \<longrightarrow> usable (cs_mem cs) (chainActive cs) c \<longrightarrow> rank (cs_mem cs) c \<le> rank (cs_mem cs) b))"

text \<open>One round that removes a chain: no usable candidate is lost, none becomes usable, and the best one is removed.\<close>

lemma remove_round:
  assumes ok: "index_ok (cs_mem cs)" and st: "stored cs" and b: "b |\<in>| setBlockIndexCandidates cs"
    and t: "find (bad (cs_mem cs)) (path (cs_mem cs) (chainActive cs) b) = Some t" and n: "nHeight (cs_mem cs b) \<le> n"
  shows "\<exists>cs'. remove_chain n t f b cs = Some cs' \<and> same_tree (cs_mem cs) (cs_mem cs') \<and> stored cs' \<and>
    setBlockIndexCandidates cs' |\<subset>| setBlockIndexCandidates cs \<and> (\<forall>r. best_usable cs' r \<longrightarrow> best_usable cs r)"
proof -
  let ?mem = "cs_mem cs" and ?v = "chainActive cs"
  have tb: "t \<in> set (path ?mem ?v b)" "bad ?mem t" using t by (auto simp: find_Some_iff)
  obtain k where k: "walk ?mem k b = Some t" "\<And>i x. i \<le> k \<Longrightarrow> walk ?mem i b = Some x \<Longrightarrow> t \<in> set (path ?mem ?v x)"
    using path_walk [OF ok tb(1)] by blast
  have kh: "k \<le> nHeight (?mem b)" "nHeight (?mem t) = nHeight (?mem b) - k" using walk_height [OF ok k(1)] by simp_all
  have before: "walk ?mem i b \<noteq> Some t" if "i < k" for i
    using walk_height(2) [OF ok, of i b t] that kh by auto
  obtain cs' where cs': "remove_chain n t f b cs = Some cs'" "chainActive cs' = ?v" "same_tree ?mem (cs_mem cs')"
    "\<And>c. c |\<in>| setBlockIndexCandidates cs' \<longleftrightarrow> c |\<in>| setBlockIndexCandidates cs \<and> (\<forall>i\<le>k. walk ?mem i b \<noteq> Some c)"
    "\<And>c. nStatus (cs_mem cs' c) = nStatus (?mem c) \<or> f \<and> (\<exists>i<k. walk ?mem i b = Some c) \<and> bad (cs_mem cs') c"
    using remove_chain_spec [OF k(1) before, of n f] kh(1) n by auto
  note tree = same_tree_index [OF cs'(3)] same_tree_fields [OF cs'(3)]
  have unusable: "\<not> usable ?mem ?v c" if "i \<le> k" "walk ?mem i b = Some x" "x \<in> set (path ?mem ?v c)" for i x c
    using path_subset [OF ok that(3)] k(2) [OF that(1,2)] tb(2) by (auto simp: usable_def)
  have same: "usable (cs_mem cs') ?v c \<longleftrightarrow> usable ?mem ?v c" for c
  proof
    assume u: "usable (cs_mem cs') ?v c"
    show "usable ?mem ?v c" unfolding usable_def
    proof
      fix x assume "x \<in> set (path ?mem ?v c)"
      then have "\<not> bad (cs_mem cs') x" using u by (simp add: usable_def tree(5))
      then show "\<not> bad ?mem x" using cs'(5) [of x] by (simp add: bad_def)
    qed
  next
    assume u: "usable ?mem ?v c"
    show "usable (cs_mem cs') ?v c" unfolding usable_def
    proof
      fix x assume "x \<in> set (path (cs_mem cs') ?v c)"
      then have x: "x \<in> set (path ?mem ?v c)" by (simp add: tree(5))
      then have "nStatus (cs_mem cs' x) = nStatus (?mem x)" using cs'(5) [of x] unusable [OF _ _ x] u less_imp_le by metis
      then show "\<not> bad (cs_mem cs') x" using u x by (simp add: usable_def bad_def)
    qed
  qed
  have lost: "c |\<in>| setBlockIndexCandidates cs'" if "c |\<in>| setBlockIndexCandidates cs" "usable ?mem ?v c" for c
  proof -
    have "walk ?mem i b \<noteq> Some c" if "i \<le> k" for i
    proof
      assume w: "walk ?mem i b = Some c"
      then have "t \<in> set (path ?mem ?v c)" using k(2) that by blast
      then show False using \<open>usable ?mem ?v c\<close> tb(2) by (auto simp: usable_def)
    qed
    then show ?thesis using cs'(4) that(1) by blast
  qed
  have "b |\<notin>| setBlockIndexCandidates cs'" using cs'(4) [of b] walk.simps(1) [of ?mem b] by blast
  moreover have "setBlockIndexCandidates cs' |\<subseteq>| setBlockIndexCandidates cs" by (rule fsubsetI) (simp add: cs'(4))
  ultimately have "setBlockIndexCandidates cs' |\<subset>| setBlockIndexCandidates cs" using b by (metis less_le)
  moreover have "stored cs'" unfolding stored_def
  proof (intro allI impI)
    fix c assume "c |\<in>| setBlockIndexCandidates cs'"
    then have "c |\<in>| setBlockIndexCandidates cs" by (simp add: cs'(4))
    then show "\<forall>x\<in>set (ancestors (cs_mem cs') c). nChainTx (cs_mem cs' x) \<noteq> 0 \<or> nHeight (cs_mem cs' x) = 0"
      using st unfolding stored_def tree(3) [symmetric] tree(8,9) [symmetric] by simp
  qed
  moreover have "best_usable cs r" if "best_usable cs' r" for r
    using that lost cs'(4) unfolding best_usable_def cs'(2) same tree(10) [symmetric] by (auto split: option.splits)
  ultimately show ?thesis using cs'(1,3) by blast
qed

lemma FindMostWorkChain_loop_best:
  assumes "index_ok (cs_mem cs)" "work_ok (cs_mem cs)" "stored cs" "fcard (setBlockIndexCandidates cs) \<le> n"
  shows "\<exists>r cs'. FindMostWorkChain_loop n cs = Some (r, cs') \<and> best_usable cs r"
  using assms
proof (induction n arbitrary: cs)
  case 0
  then have "setBlockIndexCandidates cs = {||}" by simp
  moreover have "candidates_rbegin (cs_mem cs) {||} = None" using candidates_rbegin_None [OF "0.prems"(2)] by simp
  ultimately show ?case by (simp add: FindMostWorkChain_loop.simps [of 0 cs] best_usable_def)
next
  case (Suc n)
  note ok = Suc.prems(1) and work = Suc.prems(2)
  let ?mem = "cs_mem cs"
  show ?case
  proof (cases "candidates_rbegin ?mem (setBlockIndexCandidates cs)")
    case None
    then have "setBlockIndexCandidates cs = {||}" using candidates_rbegin_None [OF work] by simp
    then show ?thesis using None by (simp add: FindMostWorkChain_loop.simps [of "Suc n" cs] best_usable_def)
  next
    case (Some b)
    note best = candidates_rbegin_max [OF work Some]
    define t where "t = find (bad ?mem) (path ?mem (chainActive cs) b)"
    have test: "test_path ?mem (chainActive cs) (Suc (nHeight (?mem b))) (Some b) = Some t" unfolding t_def
      by (rule test_path_find [OF ok]) (use Suc.prems(3) best(1) in \<open>auto simp: stored_def\<close>)
    show ?thesis
    proof (cases t)
      case None
      then have "usable ?mem (chainActive cs) b" by (auto simp: t_def usable_def find_None_iff)
      then have "best_usable cs (Some b)" using best by (simp add: best_usable_def)
      then show ?thesis using Some test None by (simp add: FindMostWorkChain_loop.simps [of "Suc n" cs])
    next
      case bad: (Some x)
      define f where "f \<longleftrightarrow> nStatus (?mem x) AND BLOCK_FAILED_MASK \<noteq> 0"
      define cs1 where "cs1 = (if f \<and> (case pindexBestInvalid cs of None \<Rightarrow> True
           | Some i \<Rightarrow> CompareTo (nChainWork (?mem b)) (nChainWork (?mem i)) > 0) then cs\<lparr>pindexBestInvalid := Some b\<rparr> else cs)"
      have cs1: "cs_mem cs1 = ?mem" "chainActive cs1 = chainActive cs" "setBlockIndexCandidates cs1 = setBlockIndexCandidates cs"
        by (simp_all add: cs1_def)
      have same_best: "best_usable cs1 r = best_usable cs r" for r unfolding best_usable_def cs1 ..
      have "\<exists>cs'. remove_chain (Suc (nHeight (?mem b))) x f b cs1 = Some cs' \<and> same_tree (cs_mem cs1) (cs_mem cs') \<and> stored cs' \<and>
          setBlockIndexCandidates cs' |\<subset>| setBlockIndexCandidates cs1 \<and> (\<forall>r. best_usable cs' r \<longrightarrow> best_usable cs1 r)"
        by (rule remove_round) (use ok Suc.prems(3) best(1) bad cs1 in \<open>simp_all add: stored_def t_def\<close>)
      then obtain cs' where cs': "remove_chain (Suc (nHeight (?mem b))) x f b cs1 = Some cs'" "same_tree ?mem (cs_mem cs')" "stored cs'"
        "setBlockIndexCandidates cs' |\<subset>| setBlockIndexCandidates cs" "\<And>r. best_usable cs' r \<Longrightarrow> best_usable cs r"
        unfolding cs1(1,3) same_best by blast
      have "fcard (setBlockIndexCandidates cs') \<le> n" using pfsubset_fcard_mono [OF cs'(4)] Suc.prems(4) by simp
      then obtain r cs'' where "FindMostWorkChain_loop n cs' = Some (r, cs'')" "best_usable cs' r"
        using Suc.IH [of cs'] cs'(3) ok work same_tree_index(1,2) [OF cs'(2)] by blast
      moreover have "FindMostWorkChain_loop (Suc n) cs = FindMostWorkChain_loop n cs'"
        using Some test bad cs'(1) by (simp add: FindMostWorkChain_loop.simps [of "Suc n" cs] Let_def f_def [symmetric] cs1_def [symmetric])
      ultimately show ?thesis using cs'(5) by auto
    qed
  qed
qed

text \<open>C13: In a well-formed index, where every candidate has all its ancestors' transactions counted, the choice of the chain
  always ends, and answers the largest candidate, in the order of finality, justification and work, of those that lead to the
  active chain over blocks that are stored and have not failed; it answers none exactly when there is no such candidate.\<close>

theorem best_chain_chosen:
  assumes "index_ok (cs_mem cs)" "work_ok (cs_mem cs)" "stored cs"
  shows "\<exists>r cs'. FindMostWorkChain cs = Some (r, cs') \<and> best_usable cs r"
  unfolding FindMostWorkChain_def by (rule FindMostWorkChain_loop_best [OF assms]) simp

text \<open>Two candidates above the tip: the one with more work has failed, and the other one is chosen.\<close>

definition demo_block :: "ptr option \<Rightarrow> nat \<Rightarrow> u64 \<Rightarrow> u32 \<Rightarrow> CBlockIndex" where
  "demo_block q h w s = CBlockIndex_null\<lparr>pprev := q, nHeight := h, nChainWork := of_u64 w, nChainTx := 1, nStatus := s\<rparr>"

definition demo_repo :: StateRepository where
  "demo_repo = \<lparr>m_states = fmempty, m_genesis_state = the (FinState_new (\<lambda>_. True) demo_params), m_restoring = False, state_db = fmempty\<rparr>"

definition demo_chain_state :: CChainState where
  "demo_chain_state = \<lparr>cs_mem = (\<lambda>_. CBlockIndex_null)(0 := demo_block None 0 1 8, 1 := demo_block (Some 0) 1 2 8,
       2 := demo_block (Some 1) 2 4 (8 OR 32), 3 := demo_block (Some 1) 2 3 8),
     cs_next = 4, chainActive = [Some 0, Some 1], mapBlockIndex = fmempty, setBlockIndexCandidates = {|1, 2, 3|},
     mapBlocksUnlinked = [], nBlockSequenceId = 1, m_failed_blocks = {||}, setDirtyBlockIndex = {||}, pindexBestInvalid = None,
     pindexBestHeader = None, cs_repo = demo_repo\<rparr>"

lemma demo_chain_state_ok:
  "index_ok (cs_mem demo_chain_state)" "work_ok (cs_mem demo_chain_state)" "stored demo_chain_state"
proof -
  show "index_ok (cs_mem demo_chain_state)"
    by (auto simp: index_ok_def height_ok_def skip_ok_def demo_chain_state_def demo_block_def CBlockIndex_null_def)
  show "work_ok (cs_mem demo_chain_state)"
    by (auto simp: work_ok_def demo_chain_state_def demo_block_def CBlockIndex_null_def length_of_u64 base_uint0_def)
  have "ancestors (cs_mem demo_chain_state) 1 = [1, 0]" "ancestors (cs_mem demo_chain_state) 2 = [2, 1, 0]"
    "ancestors (cs_mem demo_chain_state) 3 = [3, 1, 0]" by code_simp+
  then show "stored demo_chain_state" by (auto simp: stored_def demo_chain_state_def demo_block_def)
qed

lemma demo_fcard: "fcard (setBlockIndexCandidates demo_chain_state) = 3"
  by (simp add: demo_chain_state_def fcard_finsert_if)

theorem best_chain_chosen_witness:
  "\<exists>cs'. FindMostWorkChain demo_chain_state = Some (Some 3, cs') \<and> best_usable demo_chain_state (Some 3)"
proof -
  have "map_option fst (FindMostWorkChain demo_chain_state) = Some (Some 3)"
    unfolding FindMostWorkChain_def demo_fcard by code_simp
  then show ?thesis using best_chain_chosen [OF demo_chain_state_ok] by auto
qed

end
