(* ===== verification/HeaderProps.thy ===== *)
theory HeaderProps
  imports ChainStateProps
begin

section \<open>Properties of the block index under new headers\<close>

text \<open>
  What every entry of the block index satisfies, and that accepting headers, valid or not, keeps it: heights and skip
  pointers follow the parents, work and the largest time accumulate along a branch, the map of hashes names exactly the
  allocated entries, and the best header has the most work.
\<close>

definition accumulates :: "mem \<Rightarrow> ptr \<Rightarrow> bool" where
  "accumulates mem b \<longleftrightarrow>
     (\<exists>w. GetBlockProof (mem b) = Some w \<and> length w = WIDTH \<and>
        nChainWork (mem b) = op_add (case pprev (mem b) of Some q \<Rightarrow> nChainWork (mem q) | None \<Rightarrow> of_u64 0) w) \<and>
     nTimeMax (mem b) = (case pprev (mem b) of Some q \<Rightarrow> max (nTimeMax (mem q)) (nTime (mem b)) | None \<Rightarrow> nTime (mem b))"

definition best_header_ok :: "CChainState \<Rightarrow> bool" where
  "best_header_ok cs \<longleftrightarrow> (case pindexBestHeader cs of None \<Rightarrow> cs_next cs = 0
     | Some h \<Rightarrow> h < cs_next cs \<and> (\<forall>b<cs_next cs. valu (nChainWork (cs_mem cs b)) \<le> valu (nChainWork (cs_mem cs h))))"

definition index_wf :: "CChainState \<Rightarrow> bool" where
  "index_wf cs \<longleftrightarrow> index_ok (cs_mem cs) \<and> work_ok (cs_mem cs) \<and> best_header_ok cs \<and>
     (\<forall>b<cs_next cs. accumulates (cs_mem cs) b \<and> phashBlock (cs_mem cs b) \<noteq> None) \<and>
     (\<forall>b q. pprev (cs_mem cs b) = Some q \<longrightarrow> q < cs_next cs) \<and>
     (\<forall>h b. fmlookup (mapBlockIndex cs) h = Some b \<longleftrightarrow> b < cs_next cs \<and> phashBlock (cs_mem cs b) = Some h)"

lemma index_wfD:
  assumes "index_wf cs"
  shows "index_ok (cs_mem cs)" "work_ok (cs_mem cs)" "best_header_ok cs"
    "b < cs_next cs \<Longrightarrow> accumulates (cs_mem cs) b" "b < cs_next cs \<Longrightarrow> phashBlock (cs_mem cs b) \<noteq> None"
    "pprev (cs_mem cs b) = Some q \<Longrightarrow> q < cs_next cs"
    "fmlookup (mapBlockIndex cs) h = Some b \<longleftrightarrow> b < cs_next cs \<and> phashBlock (cs_mem cs b) = Some h"
  using assms unfolding index_wf_def by blast+

lemma index_ok_cong:
  assumes "\<And>b. pprev (mem b) = pprev (mem' b)" "\<And>b. pskip (mem b) = pskip (mem' b)" "\<And>b. nHeight (mem b) = nHeight (mem' b)"
  shows "index_ok mem \<longleftrightarrow> index_ok mem'"
  unfolding index_ok_def height_ok_def skip_ok_def assms walk_cong [of mem mem', OF assms(1)] ..

lemma GetBlockProof_total: "\<exists>w. GetBlockProof e = Some w \<and> length w = WIDTH"
proof -
  obtain t neg over where t: "SetCompact (nBits e) = (t, neg, over)" by (metis prod_cases3)
  show ?thesis
  proof (cases "neg \<or> over \<or> EqualTo t 0")
    case True
    then show ?thesis using t by (simp add: GetBlockProof_def length_of_u64)
  next
    case False
    then have c: "SetCompact (nBits e) = (t, False, False)" using t by simp
    moreover have "valu t \<noteq> 0" using False EqualTo_spec [OF SetCompact_not_max(1) [OF c], of 0] by simp
    ultimately show ?thesis using GetBlockProof_value by blast
  qed
qed

lemma GetBlockProof_bits: "nBits e = nBits e' \<Longrightarrow> GetBlockProof e = GetBlockProof e'"
  by (simp add: GetBlockProof_def)

subsection \<open>A new entry\<close>

lemma walk_new:
  assumes "\<And>c q. pprev (mem c) = Some q \<Longrightarrow> q \<noteq> b" "c \<noteq> b"
  shows "walk (mem(b := e)) n c = walk mem n c"
  using assms(2)
proof (induction n arbitrary: c)
  case (Suc n)
  then show ?case using assms(1) [of c] by (cases "pprev (mem c)") auto
qed simp

lemma index_ok_new:
  assumes ok: "index_ok mem" and "\<And>c q. pprev (mem c) = Some q \<Longrightarrow> q \<noteq> b" "pskip e = None"
    and "pprev e \<noteq> Some b" "nHeight e = (case pprev e of None \<Rightarrow> 0 | Some q \<Rightarrow> nHeight (mem q) + 1)"
  shows "index_ok (mem(b := e))"
  unfolding index_ok_def
proof
  fix c
  show "height_ok (mem(b := e)) c \<and> skip_ok (mem(b := e)) c"
  proof (cases "c = b")
    case True
    then show ?thesis using assms by (auto simp: height_ok_def skip_ok_def split: option.splits)
  next
    case False
    have "height_ok mem c" "skip_ok mem c" using ok by (simp_all add: index_ok_def)
    then show ?thesis using False assms(2) walk_new [OF assms(2) False]
      by (auto simp: height_ok_def skip_ok_def split: option.splits)
  qed
qed

lemma BuildSkip_entry: "BuildSkip mem b = Some mem' \<Longrightarrow> \<exists>s. mem' = mem(b := (mem b)\<lparr>pskip := s\<rparr>)"
  by (auto simp: BuildSkip_def bind_eq_Some_conv split: option.splits intro: exI [of _ "pskip (mem b)"])

lemma RaiseValidity_tree: "\<exists>r s. RaiseValidity BLOCK_VALID_TREE e = Some (r, e\<lparr>nStatus := s\<rparr>)"
proof -
  have ok: "BLOCK_VALID_TREE AND NOT BLOCK_VALID_MASK = 0" by code_simp
  have "e = e\<lparr>nStatus := nStatus e\<rparr>" by simp
  then have "\<exists>s. e = e\<lparr>nStatus := s\<rparr>" by blast
  then show ?thesis unfolding RaiseValidity_def ok by simp blast
qed

lemma AddToBlockIndex_new:
  assumes wf: "index_wf cs" and "fmlookup (mapBlockIndex cs) (header_GetHash Hash block) = None"
    and self: "h_hashPrevBlock block \<noteq> header_GetHash Hash block"
  shows "\<exists>e. let b = cs_next cs; hash = header_GetHash Hash block; mem = (cs_mem cs)(b := e) in
    AddToBlockIndex Hash block cs = Some (b, cs\<lparr>cs_next := b + 1, mapBlockIndex := fmupd hash b (mapBlockIndex cs), cs_mem := mem,
      pindexBestHeader := (case pindexBestHeader cs of None \<Rightarrow> Some b
        | Some h \<Rightarrow> if CompareTo (nChainWork (mem h)) (nChainWork e) < 0 then Some b else Some h),
      setDirtyBlockIndex := finsert b (setDirtyBlockIndex cs)\<rparr>) \<and>
    index_ok mem \<and> accumulates mem b \<and> pprev e = fmlookup (mapBlockIndex cs) (h_hashPrevBlock block) \<and> phashBlock e = Some hash \<and>
    length (nChainWork e) = WIDTH"
proof -
  define b where "b = cs_next cs"
  define hash where "hash = header_GetHash Hash block"
  define q where "q = fmlookup (mapBlockIndex cs) (h_hashPrevBlock block)"
  note defs = b_def hash_def q_def
  let ?mem = "cs_mem cs"
  define e0 where "e0 = (CBlockIndex_of block)\<lparr>nSequenceId := 0, phashBlock := Some hash\<rparr>"
  define e1 where "e1 = e0\<lparr>pprev := q, nHeight := (case q of None \<Rightarrow> 0 | Some x \<Rightarrow> nHeight (?mem x) + 1)\<rparr>"
  have fresh: "c \<noteq> b" if "pprev (?mem x) = Some c" for x c using index_wfD(6) [OF wf that] by (simp add: defs)
  have qb: "q \<noteq> Some b" using index_wfD(7) [OF wf] by (auto simp: defs)
  have e0: "pprev e0 = None" "nHeight e0 = 0" "pskip e0 = None" "phashBlock e0 = Some hash"
    by (simp_all add: e0_def CBlockIndex_of_def CBlockIndex_null_def)
  have e1: "pskip e1 = None" "pprev e1 = q" "nHeight e1 = (case pprev e1 of None \<Rightarrow> 0 | Some x \<Rightarrow> nHeight (?mem x) + 1)" "phashBlock e1 = Some hash"
    using e0 by (simp_all add: e1_def)
  have ok1: "index_ok (?mem(b := e1))"
    by (rule index_ok_new) (use index_wfD(1) [OF wf] fresh qb e1 in simp_all)
  obtain mem2 where mem2: "BuildSkip (?mem(b := e1)) b = Some mem2" using BuildSkip_total [OF ok1] by blast
  note ok2 = BuildSkip_ok [OF ok1 mem2]
  obtain s where s: "mem2 = ?mem(b := e1\<lparr>pskip := s\<rparr>)" using BuildSkip_entry [OF mem2] by auto
  define tm where "tm = (case q of Some x \<Rightarrow> max (nTimeMax (?mem x)) (nTime e1) | None \<Rightarrow> nTime e1)"
  obtain w where w: "GetBlockProof e1 = Some w" "length w = WIDTH" using GetBlockProof_total by blast
  define work where "work = op_add (case q of Some x \<Rightarrow> nChainWork (?mem x) | None \<Rightarrow> of_u64 0) w"
  obtain r st where st: "RaiseValidity BLOCK_VALID_TREE (e1\<lparr>pskip := s, nTimeMax := tm, nChainWork := work\<rparr>) =
    Some (r, e1\<lparr>pskip := s, nTimeMax := tm, nChainWork := work, nStatus := st\<rparr>)" using RaiseValidity_tree [of "e1\<lparr>pskip := s, nTimeMax := tm, nChainWork := work\<rparr>"] by blast
  define e where "e = e1\<lparr>pskip := s, nTimeMax := tm, nChainWork := work, nStatus := st\<rparr>"
  have "index_ok (?mem(b := e))" using ok2 index_ok_cong [of "?mem(b := e)" mem2] by (simp add: s e_def)
  moreover have "length work = WIDTH" using index_wfD(2) [OF wf] w(2) by (simp add: work_def work_ok_def length_of_u64 split: option.split)
  moreover have "accumulates (?mem(b := e)) b"
    using w qb GetBlockProof_bits [of e e1] by (auto simp: accumulates_def e_def e1(2) tm_def work_def split: option.split)
  moreover have "AddToBlockIndex Hash block cs = Some (b, cs\<lparr>cs_next := b + 1,
      mapBlockIndex := fmupd hash b (mapBlockIndex cs), cs_mem := ?mem(b := e),
      pindexBestHeader := (case pindexBestHeader cs of None \<Rightarrow> Some b
        | Some h \<Rightarrow> if CompareTo (nChainWork ((?mem(b := e)) h)) (nChainWork e) < 0 then Some b else Some h),
      setDirtyBlockIndex := finsert b (setDirtyBlockIndex cs)\<rparr>)"
  proof -
    have e01: "e0 = e1" if "q = None" using that e0 by (simp add: e1_def)
    have pf: "GetBlockProof (e1\<lparr>pskip := s, nTimeMax := tm\<rparr>) = Some w" using w(1) GetBlockProof_bits [of "e1\<lparr>pskip := s, nTimeMax := tm\<rparr>" e1] by simp
    have none: "fmlookup (mapBlockIndex cs) hash = None" using assms(2) by (simp add: hash_def)
    have prev: "fmlookup (fmupd hash b (mapBlockIndex cs)) (h_hashPrevBlock block) = q" using self by (simp add: defs)
    show ?thesis
    proof (cases q)
      case None
      have "mem2 = ?mem(b := e1)" using mem2 None e1(2) by (simp add: BuildSkip_def)
      then have s0: "e1 = e1\<lparr>pskip := s\<rparr>" using s by (metis fun_upd_same)
      show ?thesis using none prev None pf st e01 [OF None]
        unfolding AddToBlockIndex_def Let_def hash_def [symmetric] b_def [symmetric] cs_write_def e0_def [symmetric]
        by (simp add: tm_def work_def e1(2) e_def s0 [symmetric] cong: option.case_cong if_cong)
    next
      case (Some x)
      have "e0\<lparr>pprev := Some x, nHeight := Suc (nHeight (?mem x))\<rparr> = e1" using Some by (simp add: e1_def)
      then show ?thesis using none prev Some pf st mem2 s qb
        unfolding AddToBlockIndex_def Let_def hash_def [symmetric] b_def [symmetric] cs_write_def e0_def [symmetric]
        by (simp add: tm_def work_def e1(2) e_def cong: option.case_cong if_cong)
    qed
  qed
  moreover have "pprev e = q" "phashBlock e = Some hash" "nChainWork e = work" using e1(2,4) by (simp_all add: e_def)
  ultimately show ?thesis by (intro exI [of _ e]) (simp add: Let_def defs [symmetric])
qed

lemma accumulates_new:
  assumes "accumulates mem c" "\<And>q. pprev (mem c) = Some q \<Longrightarrow> q \<noteq> b" "c \<noteq> b"
  shows "accumulates (mem(b := e)) c"
  using assms unfolding accumulates_def by (auto split: option.splits)

lemma AddToBlockIndex_wf:
  assumes wf: "index_wf cs" and self: "h_hashPrevBlock block \<noteq> header_GetHash Hash block"
  shows "\<exists>b cs'. AddToBlockIndex Hash block cs = Some (b, cs') \<and> index_wf cs' \<and>
    fmlookup (mapBlockIndex cs') (header_GetHash Hash block) = Some b \<and> (\<forall>c<cs_next cs. cs_mem cs' c = cs_mem cs c) \<and>
    cs_next cs \<le> cs_next cs'"
proof (cases "fmlookup (mapBlockIndex cs) (header_GetHash Hash block)")
  case (Some b)
  then show ?thesis using wf by (intro exI [of _ b] exI [of _ cs]) (simp add: AddToBlockIndex_def)
next
  case None
  let ?b = "cs_next cs" and ?hash = "header_GetHash Hash block"
  obtain e where e: "AddToBlockIndex Hash block cs = Some (?b, cs\<lparr>cs_next := ?b + 1, mapBlockIndex := fmupd ?hash ?b (mapBlockIndex cs),
      cs_mem := (cs_mem cs)(?b := e), pindexBestHeader := (case pindexBestHeader cs of None \<Rightarrow> Some ?b
        | Some h \<Rightarrow> if CompareTo (nChainWork (((cs_mem cs)(?b := e)) h)) (nChainWork e) < 0 then Some ?b else Some h),
      setDirtyBlockIndex := finsert ?b (setDirtyBlockIndex cs)\<rparr>)"
    "index_ok ((cs_mem cs)(?b := e))" "accumulates ((cs_mem cs)(?b := e)) ?b"
    "pprev e = fmlookup (mapBlockIndex cs) (h_hashPrevBlock block)" "phashBlock e = Some ?hash" "length (nChainWork e) = WIDTH"
    using AddToBlockIndex_new [OF wf None self] by (auto simp: Let_def)
  define cs' where "cs' = cs\<lparr>cs_next := ?b + 1, mapBlockIndex := fmupd ?hash ?b (mapBlockIndex cs),
      cs_mem := (cs_mem cs)(?b := e), pindexBestHeader := (case pindexBestHeader cs of None \<Rightarrow> Some ?b
        | Some h \<Rightarrow> if CompareTo (nChainWork (((cs_mem cs)(?b := e)) h)) (nChainWork e) < 0 then Some ?b else Some h),
      setDirtyBlockIndex := finsert ?b (setDirtyBlockIndex cs)\<rparr>"
  note D = index_wfD [OF wf]
  have cs': "cs_next cs' = Suc ?b" "cs_mem cs' = (cs_mem cs)(?b := e)" "mapBlockIndex cs' = fmupd ?hash ?b (mapBlockIndex cs)"
    by (simp_all add: cs'_def)
  have "work_ok (cs_mem cs')" using D(2) e(6) by (simp add: cs' work_ok_def)
  moreover have "best_header_ok cs'"
  proof (cases "pindexBestHeader cs")
    case None
    then show ?thesis using D(3) by (simp add: best_header_ok_def cs'_def)
  next
    case (Some h)
    then have h: "h < ?b" "\<And>b. b < ?b \<Longrightarrow> valu (nChainWork (cs_mem cs b)) \<le> valu (nChainWork (cs_mem cs h))"
      using D(3) by (simp_all add: best_header_ok_def)
    have cmp: "CompareTo (nChainWork (cs_mem cs h)) (nChainWork e) < 0 \<longleftrightarrow> valu (nChainWork (cs_mem cs h)) < valu (nChainWork e)"
      using CompareTo_spec [of "nChainWork (cs_mem cs h)" "nChainWork e"] D(2) e(6) by (simp add: work_ok_def)
    have best: "pindexBestHeader cs' = (if valu (nChainWork (cs_mem cs h)) < valu (nChainWork e) then Some ?b else Some h)"
      using Some h(1) cmp by (simp add: cs'_def)
    show ?thesis unfolding best_header_ok_def cs' best using h
      by (auto simp: less_Suc_eq intro: less_imp_le order.trans)
  qed
  moreover have "accumulates (cs_mem cs') b \<and> phashBlock (cs_mem cs' b) \<noteq> None" if "b < cs_next cs'" for b
  proof (cases "b = ?b")
    case True
    then show ?thesis using e(3,5) by (simp add: cs')
  next
    case False
    then have b: "b < ?b" using that cs' by simp
    have "accumulates (cs_mem cs') b" unfolding cs' by (rule accumulates_new) (use D(4) [OF b] D(6) False in auto)
    then show ?thesis using D(5) [OF b] False by (simp add: cs')
  qed
  moreover have "q < cs_next cs'" if "pprev (cs_mem cs' b) = Some q" for b q
  proof (cases "b = ?b")
    case True
    then show ?thesis using that e(4) D(7) by (simp add: cs')
  next
    case False
    then show ?thesis using that D(6) by (fastforce simp: cs')
  qed
  moreover have "fmlookup (mapBlockIndex cs') h = Some b \<longleftrightarrow> b < cs_next cs' \<and> phashBlock (cs_mem cs' b) = Some h" for h b
    using D(7) [of h b] D(7) [of h ?b] e(5) None D(7) [of ?hash b] by (auto simp: cs' less_Suc_eq)
  ultimately have "index_wf cs'" using e(2) unfolding index_wf_def cs'(2) by blast
  then show ?thesis using e(1) by (intro exI [of _ ?b] exI [of _ cs']) (simp add: cs'_def)
qed

subsection \<open>Accepting headers\<close>

lemma mark_failed_same:
  "mark_failed n f b cs = Some cs' \<Longrightarrow> same_tree (cs_mem cs) (cs_mem cs') \<and> cs_next cs' = cs_next cs \<and>
     mapBlockIndex cs' = mapBlockIndex cs \<and> pindexBestHeader cs' = pindexBestHeader cs"
proof (induction n arbitrary: b cs)
  case 0
  then show ?case by (subst (asm) mark_failed.simps) (simp add: Let_def split: if_splits option.splits)
next
  case (Suc n)
  show ?case
  proof (cases "b = f")
    case True
    then show ?thesis using Suc.prems by (subst (asm) mark_failed.simps) simp
  next
    case False
    let ?e = "cs_mem cs b"
    define cs1 where "cs1 = (cs_write b (?e\<lparr>nStatus := nStatus ?e OR BLOCK_FAILED_CHILD\<rparr>) cs)\<lparr>setDirtyBlockIndex := finsert b (setDirtyBlockIndex cs)\<rparr>"
    have "mark_failed (Suc n) f b cs = Option.bind (pprev ?e) (\<lambda>q. mark_failed n f q cs1)"
      using False by (subst mark_failed.simps) (simp add: cs1_def Let_def)
    then obtain q where "mark_failed n f q cs1 = Some cs'" using Suc.prems by (cases "pprev ?e") simp_all
    note Suc.IH [OF this]
    moreover have "same_tree (cs_mem cs) (cs_mem cs1)" "cs_next cs1 = cs_next cs" "mapBlockIndex cs1 = mapBlockIndex cs"
      "pindexBestHeader cs1 = pindexBestHeader cs" by (simp_all add: cs1_def cs_write_def same_tree_write)
    ultimately show ?thesis using same_tree_trans by metis
  qed
qed

lemma find_failed_same:
  "find_failed fs b cs = Some (Some cs') \<Longrightarrow> same_tree (cs_mem cs) (cs_mem cs') \<and> cs_next cs' = cs_next cs \<and>
     mapBlockIndex cs' = mapBlockIndex cs \<and> pindexBestHeader cs' = pindexBestHeader cs"
  by (induction fs) (auto simp: bind_eq_Some_conv dest: mark_failed_same split: if_splits)

text \<open>The index grows: no entry is removed or changed but in its status.\<close>

definition grows :: "CChainState \<Rightarrow> CChainState \<Rightarrow> bool" where
  "grows cs cs' \<longleftrightarrow> index_wf cs' \<and> cs_next cs \<le> cs_next cs' \<and>
     (\<forall>c<cs_next cs. (cs_mem cs c)\<lparr>nStatus := 0\<rparr> = (cs_mem cs' c)\<lparr>nStatus := 0\<rparr>)"

lemma grows_refl: "index_wf cs \<Longrightarrow> grows cs cs"
  by (simp add: grows_def)

lemma grows_trans: "grows a b \<Longrightarrow> grows b c \<Longrightarrow> grows a c"
  by (auto simp: grows_def)

lemma status_fields:
  assumes "(e :: CBlockIndex)\<lparr>nStatus := 0\<rparr> = e'\<lparr>nStatus := 0\<rparr>"
  shows "phashBlock e = phashBlock e'" "nChainWork e = nChainWork e'" "nTimeMax e = nTimeMax e'" "nTime e = nTime e'"
    "nBits e = nBits e'" "pprev e = pprev e'"
  using assms by (cases e; cases e'; simp)+

lemma grows_lookup:
  assumes "index_wf cs" "grows cs cs'" "fmlookup (mapBlockIndex cs) h = Some b"
  shows "fmlookup (mapBlockIndex cs') h = Some b"
proof -
  have b: "b < cs_next cs" "phashBlock (cs_mem cs b) = Some h" using index_wfD(7) [OF assms(1)] assms(3) by blast+
  have g: "index_wf cs'" "cs_next cs \<le> cs_next cs'" "(cs_mem cs b)\<lparr>nStatus := 0\<rparr> = (cs_mem cs' b)\<lparr>nStatus := 0\<rparr>"
    using assms(2) b(1) unfolding grows_def by blast+
  show ?thesis using index_wfD(7) [OF g(1)] status_fields(1) [OF g(3)] b g(2) by simp
qed

lemma status_grows:
  assumes wf: "index_wf cs" and "same_tree (cs_mem cs) (cs_mem cs')" "cs_next cs' = cs_next cs" "mapBlockIndex cs' = mapBlockIndex cs"
    "pindexBestHeader cs' = pindexBestHeader cs"
  shows "grows cs cs'"
proof -
  have tree: "(cs_mem cs b)\<lparr>nStatus := 0\<rparr> = (cs_mem cs' b)\<lparr>nStatus := 0\<rparr>" for b using assms(2) by (simp add: same_tree_def)
  note fields = status_fields [OF tree]
  have "GetBlockProof (cs_mem cs b) = GetBlockProof (cs_mem cs' b)" for b by (rule GetBlockProof_bits) (rule fields)
  note same = this fields same_tree_index(1,2) [OF assms(2)] assms(3-5)
  have "index_wf cs'" using wf unfolding index_wf_def best_header_ok_def accumulates_def same .
  then show ?thesis using tree assms(3) by (simp add: grows_def)
qed

lemma AcceptBlockHeader_cases:
  assumes "AcceptBlockHeader Hash g CBH CCBH p h s cs = Some (r, cs')"
  obtains (reject) s' where "r = Inl s'" "cs' = cs"
  | (failed) s' fs q where "r = Inl s'" "find_failed fs q cs = Some (Some cs')"
  | (known) b where "r = Inr b" "cs' = cs" "fmlookup (mapBlockIndex cs) (header_GetHash Hash h) = Some b"
  | (add) b where "r = Inr b" "AddToBlockIndex Hash h cs = Some (b, cs')"
      "header_GetHash Hash h = g \<or> fmlookup (mapBlockIndex cs) (header_GetHash Hash h) = None \<and> fmlookup (mapBlockIndex cs) (h_hashPrevBlock h) \<noteq> None"
  using assms unfolding AcceptBlockHeader_def Let_def
  by (auto simp: bind_eq_Some_conv split: if_splits option.splits sum.splits; metis sumE old.unit.exhaust)

lemma AcceptBlockHeader_grows:
  assumes wf: "index_wf cs" and genesis: "header_GetHash Hash h = g \<Longrightarrow> h_hashPrevBlock h \<noteq> g"
    and run: "AcceptBlockHeader Hash g CBH CCBH p h s cs = Some (r, cs')"
  shows "grows cs cs' \<and> (\<forall>b. r = Inr b \<longrightarrow> fmlookup (mapBlockIndex cs') (header_GetHash Hash h) = Some b)"
  using run
proof (cases rule: AcceptBlockHeader_cases)
  case reject
  then show ?thesis using wf by (simp add: grows_refl)
next
  case failed
  then show ?thesis using find_failed_same [OF failed(2)] status_grows [OF wf, of cs'] by simp
next
  case known
  then show ?thesis using wf by (simp add: grows_refl)
next
  case (add b)
  have "h_hashPrevBlock h \<noteq> header_GetHash Hash h" using add(3) genesis by auto
  from AddToBlockIndex_wf [OF wf this] show ?thesis using add(1,2) by (auto simp: grows_def)
qed

lemma ProcessNewBlockHeaders_grows:
  assumes "index_wf cs" "\<forall>h\<in>set hs. header_GetHash Hash h = g \<longrightarrow> h_hashPrevBlock h \<noteq> g"
    "ProcessNewBlockHeaders Hash g CBH CCBH p hs latest s cs = Some (r, cs')"
  shows "grows cs cs' \<and> (\<forall>b. r = Inr b \<longrightarrow> (\<forall>h\<in>set hs. fmlookup (mapBlockIndex cs') (header_GetHash Hash h) \<noteq> None) \<and>
    b = (if hs = [] then latest else fmlookup (mapBlockIndex cs') (header_GetHash Hash (last hs))))"
  using assms
proof (induction hs arbitrary: latest cs)
  case Nil
  then show ?case by (auto simp: grows_refl)
next
  case (Cons h hs)
  obtain r1 cs1 where one: "AcceptBlockHeader Hash g CBH CCBH p h s cs = Some (r1, cs1)"
    and rest: "(case r1 of Inl s \<Rightarrow> Some (Inl (s, h), cs1) | Inr b \<Rightarrow> ProcessNewBlockHeaders Hash g CBH CCBH p hs (Some b) s cs1) = Some (r, cs')"
    using Cons.prems(3) by (auto simp: bind_eq_Some_conv)
  have g1: "grows cs cs1 \<and> (\<forall>b. r1 = Inr b \<longrightarrow> fmlookup (mapBlockIndex cs1) (header_GetHash Hash h) = Some b)"
    by (rule AcceptBlockHeader_grows [OF Cons.prems(1) _ one]) (use Cons.prems(2) in simp)
  show ?case
  proof (cases r1)
    case (Inl s')
    then show ?thesis using rest g1 by auto
  next
    case (Inr b)
    have wf1: "index_wf cs1" using g1 by (simp add: grows_def)
    have b: "fmlookup (mapBlockIndex cs1) (header_GetHash Hash h) = Some b" using g1 Inr by simp
    have g2: "grows cs1 cs' \<and> (\<forall>b'. r = Inr b' \<longrightarrow> (\<forall>h\<in>set hs. fmlookup (mapBlockIndex cs') (header_GetHash Hash h) \<noteq> None) \<and>
      b' = (if hs = [] then Some b else fmlookup (mapBlockIndex cs') (header_GetHash Hash (last hs))))"
      by (rule Cons.IH [OF wf1]) (use rest Inr Cons.prems(2) in simp_all)
    have "fmlookup (mapBlockIndex cs') (header_GetHash Hash h) = Some b" using grows_lookup [OF wf1 _ b] g2 by blast
    then show ?thesis using g1 g2 grows_trans by auto
  qed
qed

subsection \<open>Properties\<close>


definition demo_empty_state :: CChainState where
  "demo_empty_state = demo_chain_state\<lparr>cs_mem := (\<lambda>_. CBlockIndex_null), cs_next := 0, chainActive := [Some 0],
     setBlockIndexCandidates := {||}\<rparr>"

definition demo_hash256 :: "bytes \<Rightarrow> u256" where
  "demo_hash256 bs = ucast (hd bs)"

definition demo_headers :: "CBlockHeader list" where
  "demo_headers = [CBlockHeader_null\<lparr>h_nVersion := 5\<rparr>, CBlockHeader_null\<lparr>h_nVersion := 6, h_hashPrevBlock := 5\<rparr>]"

lemma demo_empty_state_wf: "index_wf demo_empty_state"
  by (simp add: index_wf_def demo_empty_state_def demo_chain_state_def index_ok_def height_ok_def skip_ok_def work_ok_def
      best_header_ok_def CBlockIndex_null_def base_uint0_def)


text \<open>C15: Whatever headers arrive, the index stays well-formed and only grows: no entry is removed, and of those that were there only
  the status changes. When all the headers are accepted, all of them are in the map, and the answer is the entry of the last one.\<close>

theorem headers_keep_index:
  assumes "index_wf cs" "\<forall>h\<in>set hs. header_GetHash Hash h = g \<longrightarrow> h_hashPrevBlock h \<noteq> g"
    "ProcessNewBlockHeaders Hash g CheckHeader ContextualCheck p hs None s cs = Some (r, cs')"
  shows "grows cs cs' \<and> (\<forall>b. r = Inr b \<longrightarrow> (\<forall>h\<in>set hs. fmlookup (mapBlockIndex cs') (header_GetHash Hash h) \<noteq> None) \<and>
    b = (if hs = [] then None else fmlookup (mapBlockIndex cs') (header_GetHash Hash (last hs))))"
  using assms by (rule ProcessNewBlockHeaders_grows)

theorem headers_keep_index_witness:
  "\<exists>cs'. ProcessNewBlockHeaders demo_hash256 5 (\<lambda>_ _. Some (Inr ())) (\<lambda>_ _ _. Some (Inr ())) demo_params demo_headers None
      CValidationState_new demo_empty_state = Some (Inr (Some 1), cs') \<and> index_wf cs' \<and> fmlookup (mapBlockIndex cs') 6 = Some 1"
proof -
  let ?run = "ProcessNewBlockHeaders demo_hash256 5 (\<lambda>_ _. Some (Inr ())) (\<lambda>_ _ _. Some (Inr ())) demo_params demo_headers None
    CValidationState_new demo_empty_state"
  have "map_option fst ?run = Some (Inr (Some 1))" by code_simp
  then obtain cs' where run: "?run = Some (Inr (Some 1), cs')" by auto
  have "\<forall>h\<in>set demo_headers. header_GetHash demo_hash256 h = 5 \<longrightarrow> h_hashPrevBlock h \<noteq> 5"
    "header_GetHash demo_hash256 (last demo_headers) = 6" "demo_headers \<noteq> []" by code_simp+
  then show ?thesis using headers_keep_index [OF demo_empty_state_wf _ run] run by (simp add: grows_def)
qed

end
