(* ===== verification/Spec2Isabelle.thy ===== *)
theory Spec2Isabelle
  imports FinProps NumberProps CodecProps CommitProps RecorderProps VoteSafety ChainProps BlockProps RepoProps HeaderProps
begin

text \<open>
  \<^bold>\<open>Verification of the finalization core of the unit-e node.\<close>

  \<^bold>\<open>The program.\<close> Unit-e is a proof of stake node derived from Bitcoin. Blocks are grouped into epochs; finalizers lock
  a deposit and vote on the last block of each epoch, its checkpoint. A vote names a source epoch, already justified, and a
  target epoch. When two thirds of the deposits of the current and of the previous dynasty have voted for a target it is
  justified, and it is finalized if it directly follows its source. Finalizers talk to the chain by \<^emph>\<open>finalizer
  commits\<close>: transactions of the types deposit, vote, logout, slash, withdraw and admin. A block passes the checks of its
  commits against the finalization state of its parent (\<^verbatim>\<open>esperanza/checks.cpp\<close>), votes are remembered
  to find double and surround votes (\<^verbatim>\<open>finalization/vote_recorder.cpp\<close>), and the commits are then applied
  to the state one after the other (\<^verbatim>\<open>esperanza/finalizationstate.cpp\<close>).

  \<^bold>\<open>Conventions.\<close> Paths are below \<^verbatim>\<open>src/src\<close>. Classes are records, enums datatypes, fixed width integers words
  of that width (an amount is a 64 bit word read with \<open>sint\<close>), \<^verbatim>\<open>std::map\<close> is \<open>fmap\<close>, \<^verbatim>\<open>std::set\<close> is
  \<open>fset\<close>. A method takes the state of its object and returns the new one. An abnormal end - a failed assertion, an
  exception, \<^verbatim>\<open>map::at\<close> of a missing key, an access past the end of an array - is \<open>None\<close>; an error that the code
  reports is a value (\<open>Result\<close>, the left part of a sum, an inner \<open>None\<close>). Locks, log messages and statistics
  are left out. The curve operations, the hash functions, the database cursor, the memory pool, the view of the coins and the
  JSON parser are arguments of the definitions that use them.

  \<^bold>\<open>Theories.\<close>
  \<^item> \<open>Prelude\<close>: \<open>require\<close>, lookups, the locales \<open>step_invariant\<close> (an invariant that every step keeps holds in every
    reachable state) and \<open>step_monotone\<close> (a measure that no step lowers), and the collections of simp rules.
  \<^item> \<open>ArithUint256\<close>, \<open>ArithDivision\<close>: the 256 bit integers of \<^verbatim>\<open>arith_uint256.h\<close> on lists of eight 32 bit limbs, with
    long division, shifts and the compact format; the locale \<open>uint256_arith\<close> is what their clients use of them. \<open>Ufp64\<close>: the
    fixed point numbers of \<^verbatim>\<open>ufp64.cpp\<close>. The properties are in \<open>NumberProps\<close>: limb operations are arithmetic modulo
    \<open>2 ^ 256\<close>, the square root is within one unit in the last place, fixed point products and quotients are exact up to
    truncation or fail.
  \<^item> \<open>Primitives\<close>, \<open>Script\<close>, \<open>Solver\<close>: transactions, votes and keys (\<^verbatim>\<open>primitives/\<close>, \<^verbatim>\<open>pubkey.h\<close>), scripts and
    script numbers (\<^verbatim>\<open>script/script.cpp\<close>), the recognised script templates (\<^verbatim>\<open>script/standard.cpp\<close>). \<open>Admin\<close>,
    \<open>FinalizationParams\<close>: the administrators' commands and state, the epochs and presets of \<^verbatim>\<open>finalization/params.cpp\<close>.
    Round trips and the arithmetic of epochs are in \<open>CodecProps\<close>.
  \<^item> \<open>FinalizationState\<close>: one definition per method of \<^verbatim>\<open>esperanza::FinalizationState\<close>. \<open>FinStateSpec\<close> gives each
    operation's effect on every branch, \<open>Gadget\<close> is the abstract finality gadget (justified and finalized epochs only),
    \<open>FinStateInv\<close> and \<open>StakeAccounting\<close> are the invariant and the accounting of deposits by dynasty, \<open>FinSafety\<close> puts them
    together and interprets the locales on the step relation \<open>fin_step\<close>. \<open>FinScenario\<close> has a concrete run that is evaluated,
    \<open>FinProps\<close> the properties.
  \<^item> \<open>Checks\<close>: \<^verbatim>\<open>esperanza/checks.cpp\<close>. \<open>VoteRecorder\<close>: the recorder, its database and the loop of
    \<^verbatim>\<open>validation.cpp\<close> over the commits of a block. \<open>CommitSteps\<close> composes the checks with the state: what was checked
    against the parent is still applicable unless an earlier commit of the block disturbs it. Properties in \<open>CommitProps\<close>,
    \<open>RecorderProps\<close> and \<open>VoteSafety\<close>.

  \<^bold>\<open>Scope of the run.\<close> \<open>fin_step\<close> lets a commit act on a state in which it was validated. In the node a whole block is
  validated against the state of its parent; \<open>CommitProps\<close> treats that composition, and shows the blocks for which the
  difference matters.

  \<^bold>\<open>Bounds.\<close> The Newton iteration of the square root runs the fixed number of rounds of the source. No other loop needs
  fuel: they recurse on a list or on a decreasing number.
\<close>

end
